(* ===== verification/Prelude.thy ===== *)
theory Prelude
  imports Main "HOL-Library.Word"
begin

text \<open>
  Shared vocabulary of the development: machine types, byte arrays with reads and writes
  of a range, C's truncated remainder, neighbours on a ring, and the lemmas on lists,
  words and remainders the components use.
\<close>

type_synonym byte = "8 word"
type_synonym u32 = "32 word"
type_synonym u64 = "64 word"

named_theorems run_simps \<open>unfolding of the effectful functions\<close>
named_theorems window_simps \<open>reads and writes of byte ranges\<close>

section \<open>Definitions\<close>

text \<open>Reading \<open>len\<close> cells from \<open>off\<close>, and writing a block over what is there.\<close>

definition window :: "nat \<Rightarrow> nat \<Rightarrow> 'a list \<Rightarrow> 'a list" where
  "window off len xs = take len (drop off xs)"

definition overwrite :: "nat \<Rightarrow> 'a list \<Rightarrow> 'a list \<Rightarrow> 'a list" where
  "overwrite off ys xs = take off xs @ ys @ drop (off + length ys) xs"

text \<open>The remainder of C, which takes the sign of the dividend.\<close>

definition c_rem :: "int \<Rightarrow> int \<Rightarrow> int" where
  "c_rem a b = sgn a * (\<bar>a\<bar> mod \<bar>b\<bar>)"

text \<open>
  The value an \<open>int\<close> holds after arithmetic that may overflow. C leaves the overflow undefined; this is
  what the machine instruction leaves. Properties about such values assume that there is none.
\<close>

definition c_int :: "int \<Rightarrow> int" where
  "c_int x = signed_take_bit 31 x"

text \<open>Neighbours of a rank on a ring of \<open>N\<close> ranks.\<close>

definition right_of :: "nat \<Rightarrow> nat \<Rightarrow> nat" where
  "right_of N r = (r + 1) mod N"

definition left_of :: "nat \<Rightarrow> nat \<Rightarrow> nat" where
  "left_of N r = (r + N - 1) mod N"

section \<open>Ranges of lists\<close>

lemma length_window [simp]: "off + len \<le> length xs \<Longrightarrow> length (window off len xs) = len"
  by (simp add: window_def)

lemma window_0 [simp]: "window off 0 xs = []"
  by (simp add: window_def)

lemma window_full [simp]: "length xs = n \<Longrightarrow> window 0 n xs = xs"
  by (simp add: window_def)

lemma window_window [window_simps]: "k + m \<le> len \<Longrightarrow> window k m (window off len xs) = window (off + k) m xs"
  by (simp add: window_def take_drop drop_drop add.commute min_absorb1)

lemma window_append_window: "window off a xs @ window (off + a) b xs = window off (a + b) xs"
  by (simp add: window_def take_add add.commute)

lemma window_append_drop: "window off n xs @ drop (off + n) xs = drop off xs"
  unfolding window_def by (metis add.commute append_take_drop_id drop_drop)

lemma length_overwrite [simp]: "off + length ys \<le> length xs \<Longrightarrow> length (overwrite off ys xs) = length xs"
  by (simp add: overwrite_def)

lemma window_overwrite_same [simp]:
  "off + length ys \<le> length xs \<Longrightarrow> length ys = n \<Longrightarrow> window off n (overwrite off ys xs) = ys"
  by (simp add: window_def overwrite_def)

lemma drop_overwrite:
  "off + length ys \<le> k \<Longrightarrow> off + length ys \<le> length xs \<Longrightarrow> drop k (overwrite off ys xs) = drop k xs"
  by (simp add: overwrite_def)

lemma take_overwrite:
  "off + length ys \<le> length xs \<Longrightarrow> take (off + length ys) (overwrite off ys xs) = take off xs @ ys"
  by (simp add: overwrite_def)

lemma nth_overwrite:
  assumes "off + length ys \<le> length xs" and "i < length xs"
  shows "overwrite off ys xs ! i = (if off \<le> i \<and> i < off + length ys then ys ! (i - off) else xs ! i)"
  using assms by (auto simp: overwrite_def nth_append min_def)

lemma nth_window: "off + len \<le> length xs \<Longrightarrow> i < len \<Longrightarrow> window off len xs ! i = xs ! (off + i)"
  by (simp add: window_def)

lemma window_overwrite_disjoint:
  assumes "off + length ys \<le> length xs" and "a + n \<le> length xs"
    and "a + n \<le> off \<or> off + length ys \<le> a"
  shows "window a n (overwrite off ys xs) = window a n xs"
  using assms by (intro nth_equalityI) (auto simp: nth_window nth_overwrite)

lemma window_overwrite_inside:
  assumes "off + length ys \<le> length xs" and "a + n \<le> length xs"
    and "a \<le> off" and "off + length ys \<le> a + n"
  shows "window a n (overwrite off ys xs) = overwrite (off - a) ys (window a n xs)"
  using assms by (intro nth_equalityI) (auto simp: nth_window nth_overwrite add.commute)

lemma list_eq_by_windows:
  assumes "length xs = N * L" and "length ys = N * L"
    and "\<And>c. c < N \<Longrightarrow> window (c * L) L xs = window (c * L) L ys"
  shows "xs = ys"
proof (rule nth_equalityI)
  show "length xs = length ys" using assms by simp
next
  fix i assume i: "i < length xs"
  then have L: "0 < L" using assms(1) by (cases L) auto
  have c: "i div L < N" using i assms(1) L by (simp add: less_mult_imp_div_less)
  have e: "i = (i div L) * L + i mod L" by simp
  have b: "(i div L) * L + L \<le> N * L" using c by (metis add.commute mult_Suc mult_le_mono1 Suc_leI)
  have m: "i mod L < L" using L by simp
  have "window ((i div L) * L) L xs ! (i mod L) = window ((i div L) * L) L ys ! (i mod L)"
    using assms(3) [OF c] by simp
  then show "xs ! i = ys ! i"
    using b m assms(1,2) e by (simp add: nth_window)
qed

text \<open>Programs laid out as equal blocks, and streams of equal messages.\<close>

lemma length_concat_uniform:
  "(\<And>i. i < n \<Longrightarrow> length (f i) = w) \<Longrightarrow> length (concat (map f [0..<n])) = n * w"
  by (induction n) auto

lemma nth_concat_uniform:
  assumes "\<And>i. i < n \<Longrightarrow> length (f i) = w" and "i < n" and "j < w"
  shows "concat (map f [0..<n]) ! (i * w + j) = f i ! j"
  using assms
proof (induction n)
  case 0
  then show ?case by simp
next
  case (Suc n)
  have len: "length (concat (map f [0..<n])) = n * w"
    using Suc.prems by (intro length_concat_uniform) simp
  show ?case
  proof (cases "i < n")
    case True
    then have "Suc i * w \<le> n * w" by (intro mult_le_mono1) simp
    then have "i * w + j < n * w" using \<open>j < w\<close> by simp
    with True Suc len show ?thesis by (simp add: nth_append)
  next
    case False
    with Suc.prems have "i = n" by simp
    with len show ?thesis by (simp add: nth_append)
  qed
qed

lemma window_concat_uniform:
  assumes "\<And>i. i < n \<Longrightarrow> length (f i) = w" and "i < n" and "k + m \<le> w"
  shows "window (i * w + k) m (concat (map f [0..<n])) = window k m (f i)"
proof (rule nth_equalityI)
  have "Suc i * w \<le> n * w" using assms(2) by (intro mult_le_mono1) simp
  then have b: "i * w + k + m \<le> n * w" using assms(3) by simp
  then show "length (window (i * w + k) m (concat (map f [0..<n]))) = length (window k m (f i))"
    using assms by (simp add: length_concat_uniform)
  fix j assume "j < length (window (i * w + k) m (concat (map f [0..<n])))"
  then have j: "j < m" using b assms by (simp add: length_concat_uniform)
  have "i * w + (k + j) = i * w + k + j" by simp
  then show "window (i * w + k) m (concat (map f [0..<n])) ! j = window k m (f i) ! j"
    using b j assms nth_concat_uniform [of n f w i "k + j"]
    by (simp add: nth_window length_concat_uniform add.assoc)
qed

section \<open>Remainders and neighbours\<close>

lemma c_int_id [simp]: "- (2 ^ 31) \<le> x \<Longrightarrow> x < 2 ^ 31 \<Longrightarrow> c_int x = x"
  by (simp add: c_int_def signed_take_bit_int_eq_self)

lemma c_rem_nonneg [simp]: "0 \<le> a \<Longrightarrow> 0 < b \<Longrightarrow> c_rem a b = a mod b"
  by (cases "a = 0") (auto simp: c_rem_def sgn_if)

lemma c_rem_even: "c_rem (int r) 2 = 0 \<longleftrightarrow> even r"
  by (simp add: c_rem_nonneg even_iff_mod_2_eq_zero) presburger

lemma sum_decreases:
  fixes f g :: "nat \<Rightarrow> nat"
  assumes "r < N" and "f r < g r" and "\<And>q. q \<noteq> r \<Longrightarrow> f q = g q"
  shows "(\<Sum>q < N. f q) < (\<Sum>q < N. g q)"
  by (rule sum_strict_mono_ex1) (use assms in \<open>auto simp: le_less intro: bexI [of _ r]\<close>, metis nat_less_le)

lemma right_of_less [simp]: "0 < N \<Longrightarrow> right_of N r < N"
  by (simp add: right_of_def)

lemma left_of_less [simp]: "0 < N \<Longrightarrow> left_of N r < N"
  by (simp add: left_of_def)

lemma right_of_cases: "r < N \<Longrightarrow> right_of N r = (if Suc r = N then 0 else Suc r)"
  by (simp add: right_of_def)

lemma left_of_cases: "r < N \<Longrightarrow> left_of N r = (if r = 0 then N - 1 else r - 1)"
  by (cases r) (simp_all add: left_of_def)

lemma left_right [simp]: "r < N \<Longrightarrow> left_of N (right_of N r) = r"
  by (auto simp: right_of_cases left_of_cases split: if_splits)

lemma right_left [simp]: "r < N \<Longrightarrow> right_of N (left_of N r) = r"
  by (auto simp: right_of_cases left_of_cases split: if_splits)

lemma left_of_eq_iff: "r < N \<Longrightarrow> q < N \<Longrightarrow> left_of N q = r \<longleftrightarrow> q = right_of N r"
  by (auto simp: right_of_cases left_of_cases split: if_splits)

lemma left_of_neq: "2 \<le> N \<Longrightarrow> r < N \<Longrightarrow> left_of N r \<noteq> r"
  by (auto simp: left_of_cases split: if_splits)

lemma right_of_neq: "2 \<le> N \<Longrightarrow> r < N \<Longrightarrow> right_of N r \<noteq> r"
  by (auto simp: right_of_cases split: if_splits)

text \<open>What a rank hands on to its left, or to its right, holds for the whole ring.\<close>

lemma ring_induct_left:
  assumes "r < N" and "P r" and "\<And>q. q < N \<Longrightarrow> P q \<Longrightarrow> P (left_of N q)" and "q < N"
  shows "P q"
proof -
  have down: "P (k - j)" if "k < N" "P k" "j \<le> k" for k j
    using that(3)
  proof (induction j)
    case 0
    with that(2) show ?case by simp
  next
    case (Suc j)
    then have "P (left_of N (k - j))" using that(1) by (intro assms(3)) auto
    moreover have "left_of N (k - j) = k - Suc j" using Suc.prems that(1) by (simp add: left_of_cases)
    ultimately show ?case by simp
  qed
  have "P 0" using down [OF assms(1,2), of r] by simp
  then have "P (N - 1)" using assms(3) [of 0] assms(1) by (simp add: left_of_cases)
  then show ?thesis using down [of "N - 1" "N - 1 - q"] assms(4) by simp
qed

lemma ring_induct_right:
  assumes "r < N" and "P r" and "\<And>q. q < N \<Longrightarrow> P q \<Longrightarrow> P (right_of N q)" and "q < N"
  shows "P q"
proof -
  have up: "P (k + j)" if "P k" "k + j < N" for k j
    using that(2)
  proof (induction j)
    case 0
    with that(1) show ?case by simp
  next
    case (Suc j)
    then have "P (right_of N (k + j))" by (intro assms(3)) auto
    moreover have "right_of N (k + j) = k + Suc j" using Suc.prems by (simp add: right_of_cases)
    ultimately show ?case by simp
  qed
  have "P (N - 1)" using up [OF assms(2), of "N - 1 - r"] assms(1) by simp
  then have "P 0" using assms(3) [of "N - 1"] assms(1) by (simp add: right_of_cases)
  then show ?thesis using up [of 0 q] assms(4) by simp
qed

end
