(* ===== verification/Ring_Program.thy ===== *)
theory Ring_Program
  imports Prelude
begin

text \<open>
  The ring all-reduce of phase3_collective as each rank runs it: which chunk a step sends
  and receives (\<open>send_chunk\<close>, \<open>recv_chunk\<close>), the two loop bodies (\<open>ring_blocking\<close> for a
  transport whose receives block, \<open>ring_posted\<close> for one whose receives only post a work
  request) and the entry point \<open>ring_allreduce\<close>, together with \<open>world_barrier\<close>.

  The control flow of both loops depends on nothing but the return codes of the transport,
  so a loop body is the list of its calls in program order, and every
  \<open>if (call != 0) return -1\<close> is the fail-stop rule of \<open>exec_acts\<close>. The transports of the
  two neighbours are a parameter: a record of functions on the rank's two arrays and on
  whatever state the transport keeps.
  Single-precision addition is the parameter \<open>fadd\<close> on the four bytes of a float.
\<close>

section \<open>Definitions\<close>

subsection \<open>The process group and a rank's memory\<close>

record world =
  w_rank :: int
  w_size :: int

text \<open>The arrays \<open>buf\<close> and \<open>stage\<close> as the bytes the transports see.\<close>

record arrays =
  buf :: "byte list"
  stage :: "byte list"

definition sizeof_float :: nat where
  "sizeof_float = 4"

definition get_float :: "byte list \<Rightarrow> nat \<Rightarrow> byte list" where
  "get_float a i = window (sizeof_float * i) sizeof_float a"

definition put_float :: "byte list \<Rightarrow> nat \<Rightarrow> byte list \<Rightarrow> byte list" where
  "put_float a i v = overwrite (sizeof_float * i) v a"

text \<open>The loop \<open>for (i < chunk) dst[i] += src[i]\<close>, with \<open>dst\<close> in \<open>buf\<close> and \<open>src\<close> in \<open>stage\<close>.\<close>

fun add_floats :: "(byte list \<Rightarrow> byte list \<Rightarrow> byte list) \<Rightarrow> nat \<Rightarrow> nat \<Rightarrow> nat \<Rightarrow> byte list \<Rightarrow> byte list \<Rightarrow> byte list" where
  "add_floats fadd dst src 0 st b = b"
| "add_floats fadd dst src (Suc n) st b =
     (let b' = add_floats fadd dst src n st b
      in put_float b' (dst + n) (fadd (get_float b' (dst + n)) (get_float st (src + n))))"

subsection \<open>The schedule\<close>

definition send_chunk :: "int \<Rightarrow> int \<Rightarrow> int \<Rightarrow> int" where
  "send_chunk rank N s =
     (if s < N - 1 then c_rem (rank - s + N) N
      else c_rem (rank - (s - (N - 1)) + 1 + N) N)"

definition recv_chunk :: "int \<Rightarrow> int \<Rightarrow> int \<Rightarrow> int" where
  "recv_chunk rank N s =
     (if s < N - 1 then c_rem (rank - s - 1 + N) N
      else c_rem (rank - (s - (N - 1)) + N) N)"

subsection \<open>The calls of one loop iteration\<close>

text \<open>
  \<open>r_h\<close> is \<open>buf\<close> registered on the right transport, \<open>l_h\<close> is \<open>buf\<close> and \<open>stage_h\<close> is
  \<open>stage\<close>, both registered on the left one.
\<close>

datatype bufsel = R_H | L_H | Stage_H

datatype act =
    SendRight bufsel u64 u64 u64      \<comment> \<open>handle, length, id, offset\<close>
  | RecvLeft bufsel u64 u64 u64
  | PollLeft
  | PollRight
  | AddChunk u64 u64 u64              \<comment> \<open>index into \<open>buf\<close>, index into \<open>stage\<close>, floats\<close>
  | Skip

definition blocking_body :: "int \<Rightarrow> int \<Rightarrow> u64 \<Rightarrow> int \<Rightarrow> act list" where
  "blocking_body N rank chunk s =
     (let chunk_bytes = chunk * of_nat sizeof_float;
          scatter = s < N - 1;
          send_off = word_of_int (send_chunk rank N s) * chunk_bytes;
          rh = (if scatter then Stage_H else L_H);
          recv_off = (if scatter then 0 else word_of_int (recv_chunk rank N s) * chunk_bytes);
          snd = SendRight R_H chunk_bytes (word_of_int s) send_off;
          rcv = RecvLeft rh chunk_bytes (word_of_int s) recv_off
      in (if c_rem rank 2 = 0 then [snd, rcv] else [rcv, snd]) @
         [PollLeft, PollRight,
          if scatter then AddChunk (word_of_int (recv_chunk rank N s) * chunk) 0 chunk else Skip])"

definition blocking_program :: "int \<Rightarrow> int \<Rightarrow> u64 \<Rightarrow> act list" where
  "blocking_program N rank chunk =
     concat (map (\<lambda>s. blocking_body N rank chunk (int s)) [0..<nat (2 * (N - 1))])"

definition post_recv :: "int \<Rightarrow> int \<Rightarrow> u64 \<Rightarrow> int \<Rightarrow> act" where
  "post_recv N rank chunk s =
     (let chunk_bytes = chunk * of_nat sizeof_float
      in if s < N - 1
         then RecvLeft Stage_H chunk_bytes (word_of_int s) (word_of_int (c_rem s 2) * chunk_bytes)
         else RecvLeft L_H chunk_bytes (word_of_int s)
                (word_of_int (recv_chunk rank N s) * chunk_bytes))"

definition posted_body :: "int \<Rightarrow> int \<Rightarrow> u64 \<Rightarrow> int \<Rightarrow> act list" where
  "posted_body N rank chunk s =
     (let chunk_bytes = chunk * of_nat sizeof_float;
          steps = 2 * (N - 1)
      in [SendRight R_H chunk_bytes (word_of_int s)
            (word_of_int (send_chunk rank N s) * chunk_bytes),
          PollLeft,
          if s + 1 < steps then post_recv N rank chunk (s + 1) else Skip,
          PollRight,
          if s < N - 1
          then AddChunk (word_of_int (recv_chunk rank N s) * chunk)
                 (word_of_int (c_rem s 2) * chunk) chunk
          else Skip])"

definition posted_program :: "int \<Rightarrow> int \<Rightarrow> u64 \<Rightarrow> act list" where
  "posted_program N rank chunk =
     post_recv N rank chunk 0 #
     concat (map (\<lambda>s. posted_body N rank chunk (int s)) [0..<nat (2 * (N - 1))])"

subsection \<open>Running a rank against its two transports\<close>

record 'w neighbours =
  right_send_async :: "bufsel \<Rightarrow> u64 \<Rightarrow> u64 \<Rightarrow> u64 \<Rightarrow> arrays \<times> 'w \<Rightarrow> int \<times> arrays \<times> 'w"
  left_recv_async :: "bufsel \<Rightarrow> u64 \<Rightarrow> u64 \<Rightarrow> u64 \<Rightarrow> arrays \<times> 'w \<Rightarrow> int \<times> arrays \<times> 'w"
  left_poll :: "arrays \<times> 'w \<Rightarrow> int \<times> arrays \<times> 'w"
  right_poll :: "arrays \<times> 'w \<Rightarrow> int \<times> arrays \<times> 'w"
  left_recv_blocks :: bool

definition add_chunk :: "(byte list \<Rightarrow> byte list \<Rightarrow> byte list) \<Rightarrow> u64 \<Rightarrow> u64 \<Rightarrow> u64 \<Rightarrow> arrays \<Rightarrow> arrays" where
  "add_chunk fadd dst src n m =
     m\<lparr>buf := add_floats fadd (unat dst) (unat src) (unat n) (stage m) (buf m)\<rparr>"

fun exec_act :: "'w neighbours \<Rightarrow> (byte list \<Rightarrow> byte list \<Rightarrow> byte list) \<Rightarrow> act \<Rightarrow> arrays \<times> 'w \<Rightarrow> int \<times> arrays \<times> 'w" where
  "exec_act T fadd (SendRight h len i off) st = right_send_async T h len i off st"
| "exec_act T fadd (RecvLeft h len i off) st = left_recv_async T h len i off st"
| "exec_act T fadd PollLeft st = left_poll T st"
| "exec_act T fadd PollRight st = right_poll T st"
| "exec_act T fadd (AddChunk dst src n) (m, w) = (0, add_chunk fadd dst src n m, w)"
| "exec_act T fadd Skip st = (0, st)"

fun exec_acts :: "'w neighbours \<Rightarrow> (byte list \<Rightarrow> byte list \<Rightarrow> byte list) \<Rightarrow> act list \<Rightarrow> arrays \<times> 'w \<Rightarrow> int \<times> arrays \<times> 'w" where
  "exec_acts T fadd [] st = (0, st)"
| "exec_acts T fadd (a # as) st =
     (case exec_act T fadd a st of (r, st') \<Rightarrow> if r \<noteq> 0 then (-1, st') else exec_acts T fadd as st')"

definition ring_blocking :: "'w neighbours \<Rightarrow> (byte list \<Rightarrow> byte list \<Rightarrow> byte list) \<Rightarrow> world \<Rightarrow> u64 \<Rightarrow> arrays \<times> 'w \<Rightarrow> int \<times> arrays \<times> 'w" where
  "ring_blocking T fadd w chunk st = exec_acts T fadd (blocking_program (w_size w) (w_rank w) chunk) st"

definition ring_posted :: "'w neighbours \<Rightarrow> (byte list \<Rightarrow> byte list \<Rightarrow> byte list) \<Rightarrow> world \<Rightarrow> u64 \<Rightarrow> arrays \<times> 'w \<Rightarrow> int \<times> arrays \<times> 'w" where
  "ring_posted T fadd w chunk st = exec_acts T fadd (posted_program (w_size w) (w_rank w) chunk) st"

definition ring_allreduce :: "'w neighbours \<Rightarrow> (byte list \<Rightarrow> byte list \<Rightarrow> byte list) \<Rightarrow> world \<Rightarrow> u64 \<Rightarrow> arrays \<times> 'w \<Rightarrow> int \<times> arrays \<times> 'w" where
  "ring_allreduce T fadd w count st =
     (if count mod word_of_int (w_size w) \<noteq> 0 then (-1, st)
      else if w_size w < 2 then (0, st)
      else let chunk = count div word_of_int (w_size w)
           in if left_recv_blocks T then ring_blocking T fadd w chunk st
              else ring_posted T fadd w chunk st)"

subsection \<open>The barrier\<close>

text \<open>
  One byte each way, with the identifier \<open>~0ull\<close>. The scratch buffer of the barrier is a
  buffer of its own, so its handles are named \<open>R_H\<close> and \<open>L_H\<close> over a separate pair of arrays.
\<close>

definition barrier_program :: "bool \<Rightarrow> int \<Rightarrow> act list" where
  "barrier_program recv_blocks rank =
     (let snd = SendRight R_H 1 (- 1) 0; rcv = RecvLeft L_H 1 (- 1) 0
      in (if \<not> recv_blocks then [rcv, snd]
          else if c_rem rank 2 = 0 then [snd, rcv]
          else [rcv, snd]) @ [PollLeft, PollRight])"

definition world_barrier :: "'w neighbours \<Rightarrow> (byte list \<Rightarrow> byte list \<Rightarrow> byte list) \<Rightarrow> world option \<Rightarrow> arrays \<times> 'w \<Rightarrow> int \<times> arrays \<times> 'w" where
  "world_barrier T fadd w st =
     (case w of None \<Rightarrow> (0, st)
      | Some w \<Rightarrow>
          if w_size w < 2 then (0, st)
          else exec_acts T fadd (barrier_program (left_recv_blocks T) (w_rank w)) st)"

section \<open>The arithmetic of the schedule\<close>

text \<open>In a group of less than \<open>2 ^ 30\<close> ranks no sum of the schedule overflows an \<open>int\<close>.\<close>

lemma schedule_fits_int:
  assumes "0 \<le> rank" "rank < N" "N < 2 ^ 30" and "0 \<le> s" "s < 2 * (N - 1)"
    and "x \<in> (if s < N - 1 then {2 * (N - 1), rank - s + N, rank - s - 1 + N} else {rank - (s - (N - 1)) + 1 + N, rank - (s - (N - 1)) + N})"
  shows "c_int x = x"
  by (rule c_int_id) (use assms in \<open>auto split: if_splits\<close>)

section \<open>Running a list of calls\<close>

text \<open>Making the calls one after the other whatever they return, and what the call at a position then returns.\<close>

primrec acts_after :: "'w neighbours \<Rightarrow> (byte list \<Rightarrow> byte list \<Rightarrow> byte list) \<Rightarrow> act list \<Rightarrow> arrays \<times> 'w \<Rightarrow> arrays \<times> 'w" where
  "acts_after T fadd [] st = st"
| "acts_after T fadd (a # as) st = acts_after T fadd as (snd (exec_act T fadd a st))"

definition code_at :: "'w neighbours \<Rightarrow> (byte list \<Rightarrow> byte list \<Rightarrow> byte list) \<Rightarrow> act list \<Rightarrow> arrays \<times> 'w \<Rightarrow> nat \<Rightarrow> int" where
  "code_at T fadd as st k = fst (exec_act T fadd (as ! k) (acts_after T fadd (take k as) st))"

lemma code_at_Cons [simp]:
  "code_at T fadd (a # as) st 0 = fst (exec_act T fadd a st)"
  "code_at T fadd (a # as) st (Suc k) = code_at T fadd as (snd (exec_act T fadd a st)) k"
  by (simp_all add: code_at_def)

lemma exec_acts_ok:
  assumes "\<And>k. k < length as \<Longrightarrow> code_at T fadd as st k = 0"
  shows "exec_acts T fadd as st = (0, acts_after T fadd as st)"
  using assms
proof (induction as arbitrary: st)
  case (Cons a as)
  obtain x st1 where x: "exec_act T fadd a st = (x, st1)" by (metis surj_pair)
  have "x = 0" using Cons.prems [of 0] x by simp
  moreover have "code_at T fadd as st1 k = 0" if "k < length as" for k using Cons.prems [of "Suc k"] x that by simp
  ultimately show ?case using Cons.IH [of st1] x by simp
qed simp

lemma exec_acts_stop:
  assumes "k < length as" and "\<And>j. j < k \<Longrightarrow> code_at T fadd as st j = 0" and "code_at T fadd as st k \<noteq> 0"
  shows "exec_acts T fadd as st = (-1, acts_after T fadd (take (Suc k) as) st)"
  using assms
proof (induction as arbitrary: st k)
  case (Cons a as)
  obtain x st1 where x: "exec_act T fadd a st = (x, st1)" by (metis surj_pair)
  show ?case
  proof (cases k)
    case 0
    with Cons.prems(3) x show ?thesis by simp
  next
    case (Suc i)
    have "x = 0" using Cons.prems(2) [of 0] x Suc by simp
    moreover have "code_at T fadd as st1 j = 0" if "j < i" for j using Cons.prems(2) [of "Suc j"] x that Suc by simp
    ultimately show ?thesis using Cons.IH [of i st1] Cons.prems(1,3) x Suc by simp
  qed
qed simp

section \<open>Properties\<close>

text \<open>
  C12. The entry point of the all-reduce on one rank: a count the group size does not divide is
  refused and a group of one does nothing, both without a call; otherwise it makes the calls of the
  loop its transport needs. When all of them return 0 so does it, with the state they leave; when
  one fails it returns -1 with the state after the first that does, and no later call is made.
\<close>

theorem ring_allreduce_outcome:
  fixes T :: "'w neighbours"
  assumes "prog = (if left_recv_blocks T then blocking_program (w_size w) (w_rank w) (count div word_of_int (w_size w))
      else posted_program (w_size w) (w_rank w) (count div word_of_int (w_size w)))"
  shows "(count mod word_of_int (w_size w) \<noteq> 0 \<longrightarrow> ring_allreduce T fadd w count st = (-1, st)) \<and>
    (count mod word_of_int (w_size w) = 0 \<and> w_size w < 2 \<longrightarrow> ring_allreduce T fadd w count st = (0, st)) \<and>
    (count mod word_of_int (w_size w) = 0 \<and> 2 \<le> w_size w \<longrightarrow>
      ((\<forall>k < length prog. code_at T fadd prog st k = 0) \<longrightarrow>
        ring_allreduce T fadd w count st = (0, acts_after T fadd prog st)) \<and>
      (\<forall>k < length prog. (\<forall>j < k. code_at T fadd prog st j = 0) \<and> code_at T fadd prog st k \<noteq> 0 \<longrightarrow>
        ring_allreduce T fadd w count st = (-1, acts_after T fadd (take (Suc k) prog) st)))"
proof -
  have "ring_allreduce T fadd w count st = exec_acts T fadd prog st"
    if "count mod word_of_int (w_size w) = 0" "2 \<le> w_size w"
    using that assms by (simp add: ring_allreduce_def ring_blocking_def ring_posted_def Let_def)
  then show ?thesis using exec_acts_ok [of prog T fadd st] exec_acts_stop [of _ prog T fadd st] by (simp add: ring_allreduce_def)
qed

text \<open>Transports that count the calls made on them, and fail at the call with a given number.\<close>

definition counting :: "nat \<Rightarrow> nat neighbours" where
  "counting n = (let call = (\<lambda>(m, c). (if c = n then -1 else 0, m, Suc c))
     in \<lparr>right_send_async = (\<lambda>h len i off. call), left_recv_async = (\<lambda>h len i off. call), left_poll = call, right_poll = call,
         left_recv_blocks = False\<rparr>)"

lemma counting_sel [simp]:
  "right_send_async (counting n) h len i off (m, c) = (if c = n then -1 else 0, m, Suc c)"
  "left_recv_async (counting n) h len i off (m, c) = (if c = n then -1 else 0, m, Suc c)"
  "left_poll (counting n) (m, c) = (if c = n then -1 else 0, m, Suc c)"
  "right_poll (counting n) (m, c) = (if c = n then -1 else 0, m, Suc c)"
  "left_recv_blocks (counting n) = False"
  by (simp_all add: counting_def Let_def)

theorem ring_allreduce_outcome_witness:
  "ring_allreduce (counting 2) (\<lambda>x y. x) \<lparr>w_rank = 0, w_size = 2\<rparr> 2 (\<lparr>buf = [], stage = []\<rparr>, 0) = (-1, \<lparr>buf = [], stage = []\<rparr>, 3) \<and>
   ring_allreduce (counting 2) (\<lambda>x y. x) \<lparr>w_rank = 0, w_size = 2\<rparr> 3 (\<lparr>buf = [], stage = []\<rparr>, 0) = (-1, \<lparr>buf = [], stage = []\<rparr>, 0)"
proof -
  let ?T = "counting 2" and ?w = "\<lparr>w_rank = 0, w_size = 2\<rparr> :: world" and ?st = "(\<lparr>buf = [], stage = []\<rparr>, 0) :: arrays \<times> nat"
    and ?prog = "posted_program 2 0 1" and ?f = "\<lambda>x y :: byte list. x"
  have c: "(2 :: u64) div 2 = 1" "(2 :: u64) mod 2 = 0" "(3 :: u64) mod 2 \<noteq> 0" by (simp_all add: word_div_def word_mod_def)
  have "take 3 ?prog = [RecvLeft Stage_H 4 0 0, SendRight R_H 4 0 0, PollLeft] \<and> 3 \<le> length ?prog"
    by (simp add: posted_program_def posted_body_def post_recv_def send_chunk_def sizeof_float_def Let_def upt_rec)
  then obtain rest where p: "?prog = [RecvLeft Stage_H 4 0 0, SendRight R_H 4 0 0, PollLeft] @ rest" by (metis append_take_drop_id)
  then have k: "2 < length ?prog" "code_at ?T ?f ?prog ?st 0 = 0" "code_at ?T ?f ?prog ?st 1 = 0" "code_at ?T ?f ?prog ?st 2 \<noteq> 0"
      "acts_after ?T ?f (take (Suc 2) ?prog) ?st = (\<lparr>buf = [], stage = []\<rparr>, 3)"
    by (simp_all add: numeral_2_eq_2)
  have "ring_allreduce ?T ?f ?w 2 ?st = (-1, acts_after ?T ?f (take (Suc 2) ?prog) ?st)"
    by (rule ring_allreduce_outcome [of ?prog ?T ?w 2 ?f ?st, THEN conjunct2, THEN conjunct2, THEN mp, THEN conjunct2, rule_format])
      (use k c in \<open>auto simp: less_2_cases_iff\<close>)
  with k(5) ring_allreduce_outcome [OF refl, of 3 ?w ?T ?f ?st] c show ?thesis by simp
qed

end
