(* ===== verification/Ring_Values.thy ===== *)
theory Ring_Values
  imports Ring_Program
begin

text \<open>
  What the ring all-reduce computes. An instance (\<open>ring_inst\<close>) fixes the number of ranks,
  the chunk length, the float addition and every rank's initial arrays. \<open>psum I c d\<close> is
  chunk \<open>c\<close> summed over the ranks \<open>c, c+1, ..., c+d\<close> in the order the ring adds them, \<open>msg\<close>
  the chunk a rank sends at a step, and \<open>chunk_val\<close> the content of a rank's chunk as a
  function of how many sums it has folded in and how many messages have landed. The lemmas
  say that the schedule moves exactly these values, and that no offset leaves its buffer.
\<close>

section \<open>Definitions\<close>

record ring_inst =
  ri_N :: nat
  ri_chunk :: u64
  ri_fadd :: "byte list \<Rightarrow> byte list \<Rightarrow> byte list"
  ri_init :: "nat \<Rightarrow> arrays"

abbreviation ri_n :: "ring_inst \<Rightarrow> nat" where
  "ri_n I \<equiv> unat (ri_chunk I)"

definition ri_L :: "ring_inst \<Rightarrow> nat" where
  "ri_L I = sizeof_float * unat (ri_chunk I)"

abbreviation ri_steps :: "ring_inst \<Rightarrow> nat" where
  "ri_steps I \<equiv> 2 * (ri_N I - 1)"

text \<open>
  At least two ranks, a chunk that is not empty, arrays of the sizes \<open>collective.hpp\<close> asks
  for, and a float addition that yields the four bytes of a float. The size of the group is not
  bounded: up to \<open>2 ^ 30\<close> ranks the sums of the schedule fit the \<open>int\<close> of the code (\<open>schedule_fits_int\<close>),
  and the model's unbounded sums are the code's.
\<close>

definition ring_ok :: "ring_inst \<Rightarrow> bool" where
  "ring_ok I \<longleftrightarrow> 2 \<le> ri_N I \<and> 0 < ri_L I \<and> ri_N I * ri_L I < 2 ^ 64 \<and>
     (\<forall>x y. length (ri_fadd I x y) = sizeof_float) \<and>
     (\<forall>r < ri_N I. length (buf (ri_init I r)) = ri_N I * ri_L I \<and>
        length (stage (ri_init I r)) = 2 * ri_L I)"

definition chunk_of :: "ring_inst \<Rightarrow> nat \<Rightarrow> byte list \<Rightarrow> byte list" where
  "chunk_of I c b = window (c * ri_L I) (ri_L I) b"

definition dist :: "nat \<Rightarrow> nat \<Rightarrow> nat \<Rightarrow> nat" where
  "dist N r c = (if c \<le> r then r - c else r + N - c)"

definition add_vec :: "(byte list \<Rightarrow> byte list \<Rightarrow> byte list) \<Rightarrow> nat \<Rightarrow> byte list \<Rightarrow> byte list \<Rightarrow> byte list" where
  "add_vec fadd n xs ys = concat (map (\<lambda>i. fadd (get_float xs i) (get_float ys i)) [0..<n])"

primrec psum :: "ring_inst \<Rightarrow> nat \<Rightarrow> nat \<Rightarrow> byte list" where
  "psum I c 0 = chunk_of I c (buf (ri_init I c))"
| "psum I c (Suc d) =
     add_vec (ri_fadd I) (ri_n I) (chunk_of I c (buf (ri_init I ((c + Suc d) mod ri_N I)))) (psum I c d)"

definition snd_ix :: "nat \<Rightarrow> nat \<Rightarrow> nat \<Rightarrow> nat" where
  "snd_ix N r s = nat (send_chunk (int r) (int N) (int s))"

definition rcv_ix :: "nat \<Rightarrow> nat \<Rightarrow> nat \<Rightarrow> nat" where
  "rcv_ix N r s = nat (recv_chunk (int r) (int N) (int s))"

definition msg :: "ring_inst \<Rightarrow> nat \<Rightarrow> nat \<Rightarrow> byte list" where
  "msg I r s = psum I (snd_ix (ri_N I) r s) (min s (ri_N I - 1))"

definition chunk_val :: "ring_inst \<Rightarrow> nat \<Rightarrow> nat \<Rightarrow> nat \<Rightarrow> nat \<Rightarrow> byte list" where
  "chunk_val I r c acc landed =
     (let d = dist (ri_N I) r c
      in if d < ri_N I - 1 \<and> ri_N I - 1 + d < landed then psum I c (ri_N I - 1)
         else if d \<le> acc then psum I c d
         else chunk_of I c (buf (ri_init I r)))"

text \<open>The sum of one float over all ranks, in the order of the ring, starting at rank \<open>c\<close>.\<close>

primrec ring_fold :: "('v \<Rightarrow> 'v \<Rightarrow> 'v) \<Rightarrow> nat \<Rightarrow> nat \<Rightarrow> (nat \<Rightarrow> 'v) \<Rightarrow> nat \<Rightarrow> 'v" where
  "ring_fold f N c x 0 = x c"
| "ring_fold f N c x (Suc d) = f (x ((c + Suc d) mod N)) (ring_fold f N c x d)"

section \<open>The schedule\<close>

text \<open>The chunk at distance \<open>d\<close> behind rank \<open>r\<close>.\<close>

lemma int_mod_at_dist:
  assumes "r < N" and "d < N"
  shows "(int r - int d) mod int N = int (if d \<le> r then r - d else r + N - d)"
proof (cases "d \<le> r")
  case True
  then show ?thesis using assms by (simp add: of_nat_diff)
next
  case False
  have "(int r - int d) mod int N = (int r - int d + int N) mod int N" by simp
  also have "\<dots> = int r - int d + int N"
    using assms False by (intro mod_pos_pos_trivial) auto
  finally show ?thesis using False assms by (simp add: of_nat_diff)
qed

lemma mod_shift: "a = b + k * N \<Longrightarrow> a mod N = b mod (N::int)"
  by simp

lemma dist_less: "r < N \<Longrightarrow> c < N \<Longrightarrow> dist N r c < N"
  by (auto simp: dist_def)

lemma dist_inj: "r < N \<Longrightarrow> c < N \<Longrightarrow> c' < N \<Longrightarrow> dist N r c = dist N r c' \<Longrightarrow> c = c'"
  by (auto simp: dist_def split: if_splits)

lemma dist_at: "r < N \<Longrightarrow> d < N \<Longrightarrow> dist N r (if d \<le> r then r - d else r + N - d) = d"
  by (auto simp: dist_def)

lemma dist_rank: "r < N \<Longrightarrow> c < N \<Longrightarrow> (c + dist N r c) mod N = r"
  by (auto simp: dist_def)

lemma dist_left: "2 \<le> N \<Longrightarrow> r < N \<Longrightarrow> c < N \<Longrightarrow>
    dist N (left_of N r) c = (if dist N r c = 0 then N - 1 else dist N r c - 1)"
  by (auto simp: dist_def left_of_cases split: if_splits)

lemma send_chunk_at:
  assumes "2 \<le> N" and "r < N" and "s < 2 * (N - 1)"
  shows "snd_ix N r s < N \<and> send_chunk (int r) (int N) (int s) = int (snd_ix N r s) \<and>
    dist N r (snd_ix N r s) = (if s < N - 1 then s else if s = N - 1 then N - 1 else s - N)"
proof -
  define d where "d = (if s < N - 1 then s else if s = N - 1 then N - 1 else s - N)"
  have d: "d < N" using assms by (auto simp: d_def)
  have e: "send_chunk (int r) (int N) (int s) = (int r - int d) mod int N"
  proof (cases "s < N - 1")
    case True
    then show ?thesis using assms by (simp add: send_chunk_def d_def)
  next
    case False
    have nn: "0 \<le> int r - (int s - (int N - 1)) + 1 + int N" using assms False by linarith
    have "send_chunk (int r) (int N) (int s) = (int r - (int s - (int N - 1)) + 1 + int N) mod int N"
      using False assms c_rem_nonneg [OF nn] unfolding send_chunk_def by auto
    also have "\<dots> = (int r - int d) mod int N"
      by (rule mod_shift [where k = "if s = N - 1 then 2 else 1"])
        (use False assms in \<open>auto simp: d_def of_nat_diff\<close>)
    finally show ?thesis .
  qed
  then have "send_chunk (int r) (int N) (int s) = int (if d \<le> r then r - d else r + N - d)"
    using int_mod_at_dist [OF assms(2) d] by simp
  then have "snd_ix N r s < N \<and> send_chunk (int r) (int N) (int s) = int (snd_ix N r s) \<and>
      dist N r (snd_ix N r s) = d"
    using dist_at [OF assms(2) d] assms(2) d by (auto simp: snd_ix_def)
  then show ?thesis unfolding d_def .
qed

lemma recv_chunk_at:
  assumes "2 \<le> N" and "r < N" and "s < 2 * (N - 1)"
  shows "rcv_ix N r s < N \<and> recv_chunk (int r) (int N) (int s) = int (rcv_ix N r s) \<and>
    dist N r (rcv_ix N r s) = (if s < N - 1 then s + 1 else s - (N - 1))"
proof -
  define d where "d = (if s < N - 1 then s + 1 else s - (N - 1))"
  have d: "d < N" using assms by (auto simp: d_def)
  have e: "recv_chunk (int r) (int N) (int s) = (int r - int d) mod int N"
  proof (cases "s < N - 1")
    case True
    then have nn: "0 \<le> int r - int s - 1 + int N" by linarith
    have "recv_chunk (int r) (int N) (int s) = (int r - int s - 1 + int N) mod int N"
      using True assms c_rem_nonneg [OF nn] unfolding recv_chunk_def by auto
    also have "\<dots> = (int r - int d) mod int N"
      by (rule mod_shift [where k = 1]) (use True in \<open>simp add: d_def\<close>)
    finally show ?thesis .
  next
    case False
    then have nn: "0 \<le> int r - (int s - (int N - 1)) + int N" using assms by linarith
    have "recv_chunk (int r) (int N) (int s) = (int r - (int s - (int N - 1)) + int N) mod int N"
      using False assms c_rem_nonneg [OF nn] unfolding recv_chunk_def by auto
    also have "\<dots> = (int r - int d) mod int N"
      by (rule mod_shift [where k = 1]) (use False assms in \<open>auto simp: d_def of_nat_diff\<close>)
    finally show ?thesis .
  qed
  then have "recv_chunk (int r) (int N) (int s) = int (if d \<le> r then r - d else r + N - d)"
    using int_mod_at_dist [OF assms(2) d] by simp
  then have "rcv_ix N r s < N \<and> recv_chunk (int r) (int N) (int s) = int (rcv_ix N r s) \<and>
      dist N r (rcv_ix N r s) = d"
    using dist_at [OF assms(2) d] assms(2) d by (auto simp: rcv_ix_def)
  then show ?thesis unfolding d_def .
qed

lemmas snd_ix_less = send_chunk_at [THEN conjunct1]
lemmas send_chunk_int = send_chunk_at [THEN conjunct2, THEN conjunct1]
lemmas dist_snd = send_chunk_at [THEN conjunct2, THEN conjunct2]
lemmas rcv_ix_less = recv_chunk_at [THEN conjunct1]
lemmas recv_chunk_int = recv_chunk_at [THEN conjunct2, THEN conjunct1]
lemmas dist_rcv = recv_chunk_at [THEN conjunct2, THEN conjunct2]

text \<open>What a rank receives at a step is what its left neighbour sends at that step.\<close>

lemma rcv_ix_left:
  assumes "2 \<le> N" and "r < N" and "s < 2 * (N - 1)"
  shows "rcv_ix N r s = snd_ix N (left_of N r) s"
proof (rule dist_inj [of "left_of N r" N])
  have l: "left_of N r < N" using assms by simp
  show "left_of N r < N" "rcv_ix N r s < N" "snd_ix N (left_of N r) s < N"
    using assms l by (simp_all add: rcv_ix_less snd_ix_less)
  show "dist N (left_of N r) (rcv_ix N r s) = dist N (left_of N r) (snd_ix N (left_of N r) s)"
    using assms by (auto simp: dist_snd [OF assms(1) l] dist_left rcv_ix_less dist_rcv)
qed

text \<open>A step never sends and receives the same chunk.\<close>

lemma snd_rcv_neq:
  assumes "2 \<le> N" and "r < N" and "s < 2 * (N - 1)"
  shows "snd_ix N r s \<noteq> rcv_ix N r s"
proof
  assume "snd_ix N r s = rcv_ix N r s"
  then have "dist N r (snd_ix N r s) = dist N r (rcv_ix N r s)" by simp
  then show False using assms by (auto simp: dist_snd dist_rcv split: if_splits)
qed

section \<open>The sum of a chunk\<close>

lemma get_float_window:
  "i < n \<Longrightarrow> get_float (window (sizeof_float * d) (sizeof_float * n) b) i = get_float b (d + i)"
  by (simp add: get_float_def window_window sizeof_float_def algebra_simps)

lemma length_add_vec:
  "(\<And>x y. length (fadd x y) = sizeof_float) \<Longrightarrow> length (add_vec fadd n xs ys) = sizeof_float * n"
  unfolding add_vec_def
  by (subst length_concat_uniform [where w = sizeof_float]) (simp_all add: mult.commute)

lemma get_float_add_vec:
  assumes "\<And>x y. length (fadd x y) = sizeof_float" and "i < n"
  shows "get_float (add_vec fadd n xs ys) i = fadd (get_float xs i) (get_float ys i)"
proof -
  have "window (i * sizeof_float + 0) sizeof_float (add_vec fadd n xs ys) =
      window 0 sizeof_float (fadd (get_float xs i) (get_float ys i))"
    unfolding add_vec_def by (rule window_concat_uniform) (use assms in auto)
  then show ?thesis using assms(1) by (simp add: get_float_def mult.commute)
qed

lemma overwrite_append:
  assumes "off + length xs + length v \<le> length b"
  shows "overwrite (off + length xs) v (overwrite off xs b) = overwrite off (xs @ v) b"
  using assms by (intro nth_equalityI) (auto simp: nth_overwrite nth_append)

lemma get_float_overwrite_after:
  assumes "off + length ys \<le> sizeof_float * i" and "sizeof_float * Suc i \<le> length b"
  shows "get_float (overwrite off ys b) i = get_float b i"
  unfolding get_float_def by (rule window_overwrite_disjoint) (use assms in auto)

lemma add_floats_eq:
  assumes "\<And>x y. length (fadd x y) = sizeof_float"
    and "sizeof_float * (dst + n) \<le> length b"
  shows "add_floats fadd dst src n st b =
    overwrite (sizeof_float * dst)
      (concat (map (\<lambda>i. fadd (get_float b (dst + i)) (get_float st (src + i))) [0..<n])) b"
  using assms(2)
proof (induction n)
  case 0
  then show ?case by (simp add: overwrite_def)
next
  case (Suc n)
  let ?f = "\<lambda>i. fadd (get_float b (dst + i)) (get_float st (src + i))"
  let ?xs = "concat (map ?f [0..<n])"
  have len: "length ?xs = sizeof_float * n"
    using length_concat_uniform [of n ?f sizeof_float] assms(1) by simp
  have IH: "add_floats fadd dst src n st b = overwrite (sizeof_float * dst) ?xs b"
    using Suc by simp
  have g: "get_float (overwrite (sizeof_float * dst) ?xs b) (dst + n) = get_float b (dst + n)"
    by (rule get_float_overwrite_after) (use Suc.prems len in \<open>auto simp: distrib_left\<close>)
  have "put_float (overwrite (sizeof_float * dst) ?xs b) (dst + n) (?f n) =
      overwrite (sizeof_float * dst) (?xs @ ?f n) b"
    using overwrite_append [of "sizeof_float * dst" ?xs "?f n" b] Suc.prems len assms(1)
    by (simp add: put_float_def algebra_simps)
  with IH g show ?case by (simp add: Let_def)
qed

lemma add_floats_add_vec:
  assumes "\<And>x y. length (fadd x y) = sizeof_float"
    and "sizeof_float * (dst + n) \<le> length b"
  shows "add_floats fadd dst src n st b =
    overwrite (sizeof_float * dst)
      (add_vec fadd n (window (sizeof_float * dst) (sizeof_float * n) b)
        (window (sizeof_float * src) (sizeof_float * n) st)) b"
proof -
  have "map (\<lambda>i. fadd (get_float b (dst + i)) (get_float st (src + i))) [0..<n] =
      map (\<lambda>i. fadd (get_float (window (sizeof_float * dst) (sizeof_float * n) b) i)
        (get_float (window (sizeof_float * src) (sizeof_float * n) st) i)) [0..<n]"
    by (rule map_cong) (auto simp: get_float_window)
  then show ?thesis
    using add_floats_eq [of fadd dst n b src st, OF assms] by (simp only: add_vec_def)
qed

section \<open>Instances\<close>

lemma ring_okD:
  assumes "ring_ok I"
  shows "2 \<le> ri_N I" "0 < ri_N I" "0 < ri_L I" "ri_N I * ri_L I < 2 ^ 64"
    "length (ri_fadd I x y) = sizeof_float"
    "r < ri_N I \<Longrightarrow> length (buf (ri_init I r)) = ri_N I * ri_L I"
    "r < ri_N I \<Longrightarrow> length (stage (ri_init I r)) = 2 * ri_L I"
  using assms by (auto simp: ring_ok_def)

lemma chunk_bound:
  assumes "c < N"
  shows "c * L + L \<le> N * (L::nat)"
  using mult_le_mono1 [of "Suc c" N L] assms by simp

lemma length_chunk_of:
  "c < ri_N I \<Longrightarrow> length b = ri_N I * ri_L I \<Longrightarrow> length (chunk_of I c b) = ri_L I"
  by (simp add: chunk_of_def chunk_bound)

lemma length_psum:
  assumes "ring_ok I" and "c < ri_N I"
  shows "length (psum I c d) = ri_L I"
  using assms
  by (cases d) (simp_all add: length_chunk_of ring_okD length_add_vec ri_L_def)

lemma length_msg:
  assumes "ring_ok I" and "r < ri_N I" and "s < ri_steps I"
  shows "length (msg I r s) = ri_L I"
  using assms by (simp add: msg_def length_psum ring_okD snd_ix_less)

lemma chunk_val_init:
  "ring_ok I \<Longrightarrow> r < ri_N I \<Longrightarrow> c < ri_N I \<Longrightarrow>
    chunk_val I r c 0 0 = chunk_of I c (buf (ri_init I r))"
  by (auto simp: chunk_val_def Let_def dist_def split: if_splits)

lemma length_chunk_val:
  "ring_ok I \<Longrightarrow> r < ri_N I \<Longrightarrow> c < ri_N I \<Longrightarrow> length (chunk_val I r c acc landed) = ri_L I"
  by (auto simp: chunk_val_def Let_def length_psum length_chunk_of ring_okD)

lemma chunk_val_final:
  assumes "ring_ok I" and "r < ri_N I" and "c < ri_N I"
  shows "chunk_val I r c (ri_N I - 1) (ri_steps I) = psum I c (ri_N I - 1)"
proof (cases "dist (ri_N I) r c < ri_N I - 1")
  case True
  then have "ri_N I - 1 + dist (ri_N I) r c < ri_steps I" by linarith
  with True show ?thesis by (simp add: chunk_val_def Let_def)
next
  case False
  then have "dist (ri_N I) r c = ri_N I - 1" using dist_less [OF assms(2,3)] by simp
  then show ?thesis by (simp add: chunk_val_def Let_def)
qed

text \<open>The chunk a rank sends at a step holds the value the ring wants there.\<close>

lemma chunk_val_send:
  assumes "ring_ok I" and "r < ri_N I" and "s < ri_steps I"
    and "s \<le> landed" and "landed \<le> s + 2" and "ri_N I = 2 \<Longrightarrow> s = 0 \<Longrightarrow> landed \<le> 1"
  shows "chunk_val I r (snd_ix (ri_N I) r s) (min s (ri_N I - 1)) landed = msg I r s"
proof -
  have N: "2 \<le> ri_N I" using assms(1) by (rule ring_okD)
  note d = dist_snd [OF N assms(2,3)]
  consider "s < ri_N I - 1" | "s = ri_N I - 1" | "ri_N I \<le> s" by linarith
  then show ?thesis
  proof cases
    case 1
    have "\<not> ri_N I - 1 + s < landed" using assms(5,6) N 1 by (cases "ri_N I = 2") auto
    with 1 show ?thesis by (simp add: chunk_val_def Let_def msg_def d min_def)
  next
    case 2
    then have "dist (ri_N I) r (snd_ix (ri_N I) r s) = ri_N I - 1" using d by simp
    with 2 show ?thesis by (simp add: chunk_val_def Let_def msg_def)
  next
    case 3
    then have "s - ri_N I < ri_N I - 1" "ri_N I - 1 + (s - ri_N I) < landed"
      using assms N by auto
    moreover have "min s (ri_N I - 1) = ri_N I - 1" using 3 by simp
    moreover have "dist (ri_N I) r (snd_ix (ri_N I) r s) = s - ri_N I" using d 3 N by auto
    ultimately show ?thesis by (simp add: chunk_val_def Let_def msg_def)
  qed
qed

text \<open>Landing the message of step \<open>s\<close> changes the received chunk, in the all-gather half only.\<close>

lemma chunk_val_land:
  assumes "ring_ok I" and "r < ri_N I" and "c < ri_N I" and "s < ri_steps I"
  shows "chunk_val I r c acc (Suc s) =
    (if ri_N I - 1 \<le> s \<and> c = rcv_ix (ri_N I) r s then msg I (left_of (ri_N I) r) s
     else chunk_val I r c acc s)"
proof -
  have N: "2 \<le> ri_N I" using assms(1) by (rule ring_okD)
  have m: "msg I (left_of (ri_N I) r) s = psum I (rcv_ix (ri_N I) r s) (ri_N I - 1)" if "ri_N I - 1 \<le> s"
    using that rcv_ix_left [OF N assms(2,4)] by (simp add: msg_def min_absorb2)
  show ?thesis
  proof (cases "c = rcv_ix (ri_N I) r s")
    case True
    then have d: "dist (ri_N I) r c = (if s < ri_N I - 1 then s + 1 else s - (ri_N I - 1))"
      using dist_rcv [OF N assms(2,4)] by simp
    show ?thesis using True m d assms(4) N by (auto simp: chunk_val_def Let_def)
  next
    case False
    then have "dist (ri_N I) r c \<noteq> dist (ri_N I) r (rcv_ix (ri_N I) r s)"
      using dist_inj [OF assms(2,3) rcv_ix_less [OF N assms(2,4)]] by blast
    with False dist_rcv [OF N assms(2,4)] show ?thesis
      by (auto simp: chunk_val_def Let_def split: if_splits)
  qed
qed

text \<open>Folding in the sum of step \<open>s\<close> changes the received chunk only, and to the next partial sum.\<close>

lemma chunk_val_add:
  assumes "ring_ok I" and "r < ri_N I" and "c < ri_N I" and "s < ri_N I - 1" and "landed \<le> s + 2"
  shows "chunk_val I r c (Suc s) landed =
    (if c = rcv_ix (ri_N I) r s
     then add_vec (ri_fadd I) (ri_n I) (chunk_val I r c s landed) (msg I (left_of (ri_N I) r) s)
     else chunk_val I r c s landed)"
proof -
  have N: "2 \<le> ri_N I" using assms(1) by (rule ring_okD)
  have s: "s < ri_steps I" using assms(4) by simp
  note d = dist_rcv [OF N assms(2) s]
  show ?thesis
  proof (cases "c = rcv_ix (ri_N I) r s")
    case True
    then have d': "dist (ri_N I) r c = Suc s" using d assms(4) by simp
    have "(c + Suc s) mod ri_N I = r" using dist_rank [OF assms(2,3)] d' by simp
    moreover have "msg I (left_of (ri_N I) r) s = psum I c s"
      using True rcv_ix_left [OF N assms(2) s] assms(4) by (simp add: msg_def min_def)
    moreover have "\<not> ri_N I - 1 + Suc s < landed" using assms(5) N by linarith
    ultimately show ?thesis using True d' by (simp add: chunk_val_def Let_def)
  next
    case False
    then have "dist (ri_N I) r c \<noteq> Suc s"
      using dist_inj [OF assms(2,3) rcv_ix_less [OF N assms(2) s]] d assms(4) by auto
    with False show ?thesis by (auto simp: chunk_val_def Let_def)
  qed
qed

section \<open>One float of the result\<close>

lemma get_float_chunk:
  assumes "j < ri_n I"
  shows "get_float (chunk_of I c b) j = get_float b (c * ri_n I + j)"
  using get_float_window [OF assms, of "c * ri_n I" b]
  by (simp add: chunk_of_def ri_L_def mult.left_commute)

lemma get_float_psum:
  assumes "ring_ok I" and "j < ri_n I" and "c < ri_N I"
  shows "get_float (psum I c d) j =
    ring_fold (ri_fadd I) (ri_N I) c (\<lambda>r. get_float (buf (ri_init I r)) (c * ri_n I + j)) d"
  by (induction d) (simp_all add: get_float_chunk get_float_add_vec ring_okD [OF assms(1)] assms(2))

text \<open>Going round the ring from any rank passes every rank once.\<close>

lemma sum_ranks_rotate:
  fixes c N :: nat
  assumes "c < N"
  shows "(\<Sum>k \<le> N - 1. g ((c + k) mod N)) = (\<Sum>r < N. (g r :: 'm::comm_monoid_add))"
proof -
  have "(\<Sum>k \<le> N - 1. g ((c + k) mod N)) = (\<Sum>k < N. g ((c + k) mod N))"
    using assms by (cases N) (auto simp: lessThan_Suc_atMost)
  also have "\<dots> = (\<Sum>r < N. g r)"
  proof (rule sum.reindex_bij_witness [of _ "\<lambda>r. dist N r c" "\<lambda>k. (c + k) mod N"])
    fix k assume "k \<in> {..<N}"
    with assms show "dist N ((c + k) mod N) c = k"
      by (cases "c + k < N") (auto simp: dist_def mod_if)
    show "(c + k) mod N \<in> {..<N}" using assms by simp
  next
    fix r assume "r \<in> {..<N}"
    with assms show "(c + dist N r c) mod N = r" "dist N r c \<in> {..<N}"
      by (simp_all add: dist_rank dist_less)
  qed simp
  finally show ?thesis .
qed

section \<open>The programs of an instance\<close>

text \<open>The lengths and offsets the calls carry are 64-bit words; none of them wraps.\<close>

definition chunk_bytes :: "ring_inst \<Rightarrow> u64" where
  "chunk_bytes I = ri_chunk I * of_nat sizeof_float"

definition off_of :: "ring_inst \<Rightarrow> int \<Rightarrow> u64" where
  "off_of I c = word_of_int c * chunk_bytes I"

lemma unat_of_small: "n < 2 ^ 64 \<Longrightarrow> unat (of_nat n :: u64) = n"
  by (simp add: unat_of_nat)

lemma unat_mult_small:
  fixes a b :: u64
  assumes "unat a * unat b < 2 ^ 64"
  shows "unat (a * b) = unat a * unat b"
  using assms by (simp add: unat_word_ariths)

lemma ri_L_less: "ring_ok I \<Longrightarrow> ri_L I < 2 ^ 64"
  using mult_le_mono1 [of 1 "ri_N I" "ri_L I"] ring_okD(2,4) [of I] by linarith

lemma unat_chunk_bytes: "ring_ok I \<Longrightarrow> unat (chunk_bytes I) = ri_L I"
  using ri_L_less [of I]
  by (simp add: chunk_bytes_def unat_mult_small ri_L_def sizeof_float_def mult.commute)

lemma N_less: "ring_ok I \<Longrightarrow> ri_N I < 2 ^ 64"
  using mult_le_mono2 [of 1 "ri_L I" "ri_N I"] ring_okD(3,4) [of I] by linarith

lemma unat_off_of:
  assumes "ring_ok I" and "c < ri_N I"
  shows "unat (off_of I (int c)) = c * ri_L I"
proof -
  have "c * ri_L I < 2 ^ 64"
    using mult_le_mono1 [of c "ri_N I" "ri_L I"] assms ring_okD(4) [of I] by linarith
  moreover have "unat (word_of_int (int c) :: u64) = c"
    using unat_of_small [of c] assms N_less [of I] by simp
  ultimately show ?thesis
    using unat_mult_small [of "word_of_int (int c)" "chunk_bytes I"] assms
    by (simp add: off_of_def unat_chunk_bytes)
qed

lemma unat_chunk_index:
  assumes "ring_ok I" and "c < ri_N I"
  shows "unat (word_of_int (int c) * ri_chunk I :: u64) = c * ri_n I"
proof -
  have "c * ri_n I \<le> c * ri_L I" by (simp add: ri_L_def sizeof_float_def)
  also have "\<dots> \<le> ri_N I * ri_L I" using assms by simp
  finally have "c * ri_n I < 2 ^ 64" using assms ring_okD(4) [of I] by linarith
  moreover have "unat (word_of_int (int c) :: u64) = c"
    using unat_of_small [of c] assms N_less [of I] by simp
  ultimately show ?thesis
    using unat_mult_small [of "word_of_int (int c)" "ri_chunk I"] by simp
qed

lemma window_chunk:
  "c < ri_N I \<Longrightarrow> k + n \<le> ri_L I \<Longrightarrow> window (c * ri_L I + k) n b = window k n (chunk_of I c b)"
  by (simp add: chunk_of_def window_window)

lemma chunk_of_overwrite:
  assumes "c < ri_N I" and "c' < ri_N I" and "length b = ri_N I * ri_L I" and "k + length v \<le> ri_L I"
  shows "chunk_of I c' (overwrite (c * ri_L I + k) v b) =
    (if c' = c then overwrite k v (chunk_of I c b) else chunk_of I c' b)"
proof (cases "c' = c")
  case True
  then show ?thesis
    using window_overwrite_inside [of "c * ri_L I + k" v b "c * ri_L I" "ri_L I"]
      chunk_bound [OF assms(1), of "ri_L I"] assms by (simp add: chunk_of_def)
next
  case False
  then consider "Suc c' \<le> c" | "Suc c \<le> c'" by linarith
  then have "c' * ri_L I + ri_L I \<le> c * ri_L I + k \<or> c * ri_L I + k + length v \<le> c' * ri_L I"
  proof cases
    case 1
    then show ?thesis using mult_le_mono1 [OF 1, of "ri_L I"] by simp
  next
    case 2
    then show ?thesis using mult_le_mono1 [OF 2, of "ri_L I"] assms(4) by simp
  qed
  then show ?thesis
    using False chunk_bound [OF assms(1), of "ri_L I"] chunk_bound [OF assms(2), of "ri_L I"] assms
    by (simp add: chunk_of_def window_overwrite_disjoint)
qed

text \<open>Folding a staged half into a chunk changes that chunk and nothing else.\<close>

lemma add_chunk_chunks:
  assumes "ring_ok I" and "c < ri_N I" and "length (buf m) = ri_N I * ri_L I" and "unat src = h * ri_n I"
  shows "length (buf (add_chunk (ri_fadd I) (word_of_int (int c) * ri_chunk I) src (ri_chunk I) m)) = ri_N I * ri_L I"
    and "stage (add_chunk (ri_fadd I) (word_of_int (int c) * ri_chunk I) src (ri_chunk I) m) = stage m"
    and "d < ri_N I \<Longrightarrow> chunk_of I d (buf (add_chunk (ri_fadd I) (word_of_int (int c) * ri_chunk I) src (ri_chunk I) m)) =
      (if d = c then add_vec (ri_fadd I) (ri_n I) (chunk_of I c (buf m)) (window (h * ri_L I) (ri_L I) (stage m))
       else chunk_of I d (buf m))"
proof -
  let ?V = "add_vec (ri_fadd I) (ri_n I) (chunk_of I c (buf m)) (window (h * ri_L I) (ri_L I) (stage m))"
  have fadd: "\<And>x y. length (ri_fadd I x y) = sizeof_float" using assms(1) by (rule ring_okD)
  have bnd: "sizeof_float * (c * ri_n I + ri_n I) \<le> length (buf m)"
    using chunk_bound [OF assms(2), of "ri_L I"] assms(3) by (simp add: ri_L_def algebra_simps)
  have off: "sizeof_float * (k * ri_n I) = k * ri_L I" for k by (simp add: ri_L_def)
  have lV: "length ?V = ri_L I" using length_add_vec [of "ri_fadd I", OF fadd] by (simp add: ri_L_def)
  have eq: "buf (add_chunk (ri_fadd I) (word_of_int (int c) * ri_chunk I) src (ri_chunk I) m) =
      overwrite (c * ri_L I + 0) ?V (buf m)"
    using add_floats_add_vec [of "ri_fadd I" "c * ri_n I" "ri_n I" "buf m" "h * ri_n I" "stage m", OF fadd bnd]
      unat_chunk_index [OF assms(1,2)] assms(4)
    by (simp add: add_chunk_def chunk_of_def off flip: ri_L_def)
  show "length (buf (add_chunk (ri_fadd I) (word_of_int (int c) * ri_chunk I) src (ri_chunk I) m)) = ri_N I * ri_L I"
    using eq lV chunk_bound [OF assms(2), of "ri_L I"] assms(3) by simp
  show "stage (add_chunk (ri_fadd I) (word_of_int (int c) * ri_chunk I) src (ri_chunk I) m) = stage m"
    by (simp add: add_chunk_def)
  show "chunk_of I d (buf (add_chunk (ri_fadd I) (word_of_int (int c) * ri_chunk I) src (ri_chunk I) m)) =
      (if d = c then ?V else chunk_of I d (buf m))" if "d < ri_N I"
    using chunk_of_overwrite [OF assms(2) that assms(3), of 0 ?V] lV length_chunk_of [OF assms(2,3)] eq
    by (simp add: overwrite_def)
qed

definition blocking_of :: "ring_inst \<Rightarrow> nat \<Rightarrow> act list" where
  "blocking_of I r = blocking_program (int (ri_N I)) (int r) (ri_chunk I)"

definition posted_of :: "ring_inst \<Rightarrow> nat \<Rightarrow> act list" where
  "posted_of I r = posted_program (int (ri_N I)) (int r) (ri_chunk I)"

lemma steps_nat: "0 < ri_N I \<Longrightarrow> nat (2 * (int (ri_N I) - 1)) = ri_steps I"
  by (simp add: nat_diff_distrib nat_mult_distrib)

lemma length_blocking_of: "ring_ok I \<Longrightarrow> length (blocking_of I r) = ri_steps I * 5"
  unfolding blocking_of_def blocking_program_def
  by (subst length_concat_uniform [where w = 5]) (simp_all add: steps_nat ring_okD blocking_body_def Let_def)

lemma blocking_of_nth:
  assumes "ring_ok I" and "s < ri_steps I" and "ph < 5"
  shows "blocking_of I r ! (s * 5 + ph) = blocking_body (int (ri_N I)) (int r) (ri_chunk I) (int s) ! ph"
  unfolding blocking_of_def blocking_program_def
  by (rule nth_concat_uniform) (use assms in \<open>auto simp: steps_nat ring_okD blocking_body_def Let_def\<close>)

lemma length_posted_of: "ring_ok I \<Longrightarrow> length (posted_of I r) = Suc (ri_steps I * 5)"
  unfolding posted_of_def posted_program_def
  by (simp, subst length_concat_uniform [where w = 5]) (simp_all add: steps_nat ring_okD posted_body_def Let_def)

lemma posted_of_nth:
  assumes "ring_ok I" and "s < ri_steps I" and "ph < 5"
  shows "posted_of I r ! Suc (s * 5 + ph) = posted_body (int (ri_N I)) (int r) (ri_chunk I) (int s) ! ph"
  unfolding posted_of_def posted_program_def
  by (simp, rule nth_concat_uniform) (use assms in \<open>auto simp: steps_nat ring_okD posted_body_def Let_def\<close>)

end
