(* ===== verification/Runs.thy ===== *)
theory Runs
  imports Main
begin

text \<open>
  The interface of a concurrent protocol: a step relation over configurations, with an
  invariant, a notion of a finished configuration and a bound on the work left. The laws
  say that the start is good, that steps keep the invariant and use up the bound, and that
  a good configuration that is not finished can step. Every execution then ends, and ends
  finished, whatever the scheduler does. The two paths of the ring all-reduce, the two of
  the barrier and the one-sided ping-pong are instances.
\<close>

locale terminating_system =
  fixes step :: "'c \<Rightarrow> 'c \<Rightarrow> bool"
    and start :: "'c \<Rightarrow> bool"
    and good :: "'c \<Rightarrow> bool"
    and finished :: "'c \<Rightarrow> bool"
    and work :: "'c \<Rightarrow> nat"
  assumes good_start: "start c \<Longrightarrow> good c"
    and good_step: "good c \<Longrightarrow> step c d \<Longrightarrow> good d"
    and work_step: "good c \<Longrightarrow> step c d \<Longrightarrow> work d < work c"
    and progress: "good c \<Longrightarrow> \<not> finished c \<Longrightarrow> \<exists>d. step c d"
begin

lemma reach_good:
  assumes "start c" and "step\<^sup>*\<^sup>* c d"
  shows "good d"
  using assms(2)
  by (induction rule: rtranclp_induct) (auto intro: good_start [OF assms(1)] good_step)

lemma stuck_finished:
  assumes "start c" and "step\<^sup>*\<^sup>* c d" and "\<nexists>e. step d e"
  shows "good d \<and> finished d"
  using reach_good [OF assms(1,2)] progress assms(3) by blast

lemma run_bounded:
  assumes "good c" and "(step ^^ n) c d"
  shows "n + work d \<le> work c \<and> good d"
  using assms(2)
proof (induction n arbitrary: d)
  case 0
  with assms(1) show ?case by simp
next
  case (Suc n)
  then obtain e where e: "(step ^^ n) c e" "step e d" by auto
  from Suc.IH [OF e(1)] have "n + work e \<le> work c" "good e" by auto
  with work_step [OF _ e(2)] good_step [OF _ e(2)] show ?case by fastforce
qed

lemma good_reaches_finished:
  assumes "good c"
  shows "\<exists>d. step\<^sup>*\<^sup>* c d \<and> good d \<and> finished d"
  using assms
proof (induction "work c" arbitrary: c rule: less_induct)
  case less
  show ?case
  proof (cases "finished c")
    case True
    with less.prems show ?thesis by blast
  next
    case False
    then obtain d where d: "step c d" using progress less.prems by blast
    with less.hyps [of d] work_step good_step less.prems
    obtain e where "step\<^sup>*\<^sup>* d e" "good e" "finished e" by blast
    with d show ?thesis by (meson converse_rtranclp_into_rtranclp)
  qed
qed

lemma reaches_finished:
  assumes "start c" and "step\<^sup>*\<^sup>* c d"
  shows "\<exists>e. step\<^sup>*\<^sup>* d e \<and> good e \<and> finished e"
  using good_reaches_finished reach_good assms by blast

lemma reaches_stuck:
  assumes "start c"
  shows "\<exists>d. step\<^sup>*\<^sup>* c d \<and> (\<nexists>e. step d e)"
proof -
  have "\<exists>d. step\<^sup>*\<^sup>* x d \<and> (\<nexists>e. step d e)" if "good x" for x
    using that
  proof (induction "work x" arbitrary: x rule: less_induct)
    case less
    show ?case
    proof (cases "\<exists>y. step x y")
      case True
      then obtain y where y: "step x y" by blast
      with less obtain d where "step\<^sup>*\<^sup>* y d" "\<nexists>e. step d e" using work_step good_step by blast
      with y show ?thesis by (meson converse_rtranclp_into_rtranclp)
    qed blast
  qed
  with assms good_start show ?thesis by blast
qed

lemma good_no_infinite_run:
  assumes "good c" and "f 0 = c"
  shows "\<not> (\<forall>i. step (f i) (f (Suc i)))"
proof
  assume all: "\<forall>i. step (f i) (f (Suc i))"
  have "(step ^^ n) c (f n)" for n
    by (induction n) (use all assms(2) in auto)
  then have "Suc (work c) + work (f (Suc (work c))) \<le> work c"
    using run_bounded assms(1) by blast
  then show False by simp
qed

lemma no_infinite_run:
  assumes "start c" and "f 0 = c"
  shows "\<not> (\<forall>i. step (f i) (f (Suc i)))"
  using good_no_infinite_run [where f = f, OF good_start [OF assms(1)] assms(2)] .

end

end
