(* ===== verification/Ring_Tcp.thy ===== *)
theory Ring_Tcp
  imports Ring_Values Runs
begin

text \<open>
  The ring all-reduce over blocking transports: \<open>N\<close> ranks, each at a position of its
  \<open>blocking_program\<close>, and one byte stream per link that holds at most \<open>cap\<close> bytes. A send
  or a receive moves any positive number of bytes at a time, as \<open>send_all\<close> and \<open>recv_all\<close>
  do over a socket, so a rank can stop in the middle of a call. The scheduler is free.
  Whatever it does, the run ends with every rank holding the sums: a full socket buffer
  blocks a sender but never the ring.
\<close>

section \<open>Definitions\<close>

record tcp_cfg =
  t_pos :: "nat \<Rightarrow> nat"          \<comment> \<open>calls completed\<close>
  t_k :: "nat \<Rightarrow> nat"            \<comment> \<open>bytes moved by the call in progress\<close>
  t_mem :: "nat \<Rightarrow> arrays"
  t_chan :: "nat \<Rightarrow> byte list"   \<comment> \<open>bytes sent by the rank and not yet read by its right neighbour\<close>

fun sel :: "bufsel \<Rightarrow> arrays \<Rightarrow> byte list" where
  "sel Stage_H m = stage m"
| "sel h m = buf m"

fun put_sel :: "bufsel \<Rightarrow> byte list \<Rightarrow> arrays \<Rightarrow> arrays" where
  "put_sel Stage_H b m = m\<lparr>stage := b\<rparr>"
| "put_sel h b m = m\<lparr>buf := b\<rparr>"

definition next_call :: "nat \<Rightarrow> tcp_cfg \<Rightarrow> tcp_cfg" where
  "next_call r c = c\<lparr>t_pos := (t_pos c)(r := Suc (t_pos c r)), t_k := (t_k c)(r := 0)\<rparr>"

definition moved :: "nat \<Rightarrow> nat \<Rightarrow> nat \<Rightarrow> tcp_cfg \<Rightarrow> tcp_cfg" where
  "moved r len m c =
     (if t_k c r + m = len then next_call r c else c\<lparr>t_k := (t_k c)(r := t_k c r + m)\<rparr>)"

definition tcp_act :: "ring_inst \<Rightarrow> tcp_cfg \<Rightarrow> nat \<Rightarrow> act option" where
  "tcp_act I c r =
     (if r < ri_N I \<and> t_pos c r < length (blocking_of I r) then Some (blocking_of I r ! t_pos c r)
      else None)"

inductive tcp_step :: "ring_inst \<Rightarrow> nat \<Rightarrow> tcp_cfg \<Rightarrow> tcp_cfg \<Rightarrow> bool" for I cap where
  tcp_send: "tcp_act I c r = Some (SendRight h len i off) \<Longrightarrow>
     unat off + unat len \<le> length (sel h (t_mem c r)) \<Longrightarrow>
     0 < m \<Longrightarrow> t_k c r + m \<le> unat len \<Longrightarrow> length (t_chan c r) + m \<le> cap \<Longrightarrow>
     tcp_step I cap c (moved r (unat len) m
       (c\<lparr>t_chan := (t_chan c)(r := t_chan c r @ window (unat off + t_k c r) m (sel h (t_mem c r)))\<rparr>))"
| tcp_recv: "tcp_act I c r = Some (RecvLeft h len i off) \<Longrightarrow> l = left_of (ri_N I) r \<Longrightarrow>
     unat off + unat len \<le> length (sel h (t_mem c r)) \<Longrightarrow>
     0 < m \<Longrightarrow> t_k c r + m \<le> unat len \<Longrightarrow> m \<le> length (t_chan c l) \<Longrightarrow>
     tcp_step I cap c (moved r (unat len) m
       (c\<lparr>t_mem := (t_mem c)(r := put_sel h
            (overwrite (unat off + t_k c r) (take m (t_chan c l)) (sel h (t_mem c r))) (t_mem c r)),
          t_chan := (t_chan c)(l := drop m (t_chan c l))\<rparr>))"
| tcp_poll: "tcp_act I c r = Some a \<Longrightarrow> a = PollLeft \<or> a = PollRight \<or> a = Skip \<Longrightarrow>
     tcp_step I cap c (next_call r c)"
| tcp_add: "tcp_act I c r = Some (AddChunk dst src n) \<Longrightarrow>
     tcp_step I cap c (next_call r
       (c\<lparr>t_mem := (t_mem c)(r := add_chunk (ri_fadd I) dst src n (t_mem c r))\<rparr>))"

definition tcp_init :: "ring_inst \<Rightarrow> tcp_cfg" where
  "tcp_init I = \<lparr>t_pos = (\<lambda>_. 0), t_k = (\<lambda>_. 0), t_mem = ri_init I, t_chan = (\<lambda>_. [])\<rparr>"

definition tcp_start :: "ring_inst \<Rightarrow> nat \<Rightarrow> tcp_cfg \<Rightarrow> bool" where
  "tcp_start I cap c \<longleftrightarrow> ring_ok I \<and> 1 \<le> cap \<and> c = tcp_init I"

definition tcp_finished :: "ring_inst \<Rightarrow> tcp_cfg \<Rightarrow> bool" where
  "tcp_finished I c \<longleftrightarrow> (\<forall>r < ri_N I. t_pos c r = length (blocking_of I r))"

text \<open>The order of the calls of one step: even ranks send first.\<close>

definition sph :: "nat \<Rightarrow> nat" where
  "sph r = (if even r then 0 else 1)"

definition rph :: "nat \<Rightarrow> nat" where
  "rph r = (if even r then 1 else 0)"

definition part :: "nat \<Rightarrow> nat \<Rightarrow> nat \<Rightarrow> nat \<Rightarrow> nat" where
  "part L q ph k = (if ph < q then 0 else if ph = q then k else L)"

definition sent :: "ring_inst \<Rightarrow> nat \<Rightarrow> nat \<Rightarrow> nat \<Rightarrow> nat" where
  "sent I r p k = (p div 5) * ri_L I + part (ri_L I) (sph r) (p mod 5) k"

definition recvd :: "ring_inst \<Rightarrow> nat \<Rightarrow> nat \<Rightarrow> nat \<Rightarrow> nat" where
  "recvd I r p k = (p div 5) * ri_L I + part (ri_L I) (rph r) (p mod 5) k"

definition mem_ok :: "ring_inst \<Rightarrow> nat \<Rightarrow> nat \<Rightarrow> nat \<Rightarrow> arrays \<Rightarrow> bool" where
  "mem_ok I r s g m \<longleftrightarrow>
     length (buf m) = ri_N I * ri_L I \<and> length (stage m) = 2 * ri_L I \<and>
     (\<forall>c < ri_N I. chunk_of I c (buf m) =
        (if ri_N I - 1 \<le> s \<and> s < ri_steps I \<and> c = rcv_ix (ri_N I) r s
         then overwrite 0 (take g (msg I (left_of (ri_N I) r) s)) (chunk_val I r c (min s (ri_N I - 1)) s)
         else chunk_val I r c (min s (ri_N I - 1)) s)) \<and>
     (s < ri_N I - 1 \<longrightarrow> take g (stage m) = take g (msg I (left_of (ri_N I) r) s))"

definition rank_ok :: "ring_inst \<Rightarrow> nat \<Rightarrow> nat \<Rightarrow> nat \<Rightarrow> arrays \<Rightarrow> bool" where
  "rank_ok I r p k m \<longleftrightarrow> p \<le> ri_steps I * 5 \<and> k < ri_L I \<and> (0 < k \<longrightarrow> p < ri_steps I * 5 \<and> p mod 5 < 2) \<and>
     mem_ok I r (p div 5) (part (ri_L I) (rph r) (p mod 5) k) m"

definition stream :: "ring_inst \<Rightarrow> nat \<Rightarrow> byte list" where
  "stream I r = concat (map (msg I r) [0..<ri_steps I])"

definition chan_ok :: "ring_inst \<Rightarrow> nat \<Rightarrow> tcp_cfg \<Rightarrow> nat \<Rightarrow> bool" where
  "chan_ok I cap c r \<longleftrightarrow>
     (let q = right_of (ri_N I) r; a = recvd I q (t_pos c q) (t_k c q); b = sent I r (t_pos c r) (t_k c r)
      in a \<le> b \<and> b - a \<le> cap \<and> t_chan c r = window a (b - a) (stream I r))"

definition tcp_good :: "ring_inst \<Rightarrow> nat \<Rightarrow> tcp_cfg \<Rightarrow> bool" where
  "tcp_good I cap c \<longleftrightarrow> ring_ok I \<and> 1 \<le> cap \<and>
     (\<forall>r < ri_N I. rank_ok I r (t_pos c r) (t_k c r) (t_mem c r) \<and> chan_ok I cap c r)"

definition tcp_work :: "ring_inst \<Rightarrow> tcp_cfg \<Rightarrow> nat" where
  "tcp_work I c = (\<Sum>r < ri_N I. (ri_steps I * 5 - t_pos c r) * (ri_L I + 1) - t_k c r)"

section \<open>The calls of a step\<close>

lemma blocking_body_eq:
  assumes "ring_ok I" and "r < ri_N I" and "s < ri_steps I"
  shows "blocking_body (int (ri_N I)) (int r) (ri_chunk I) (int s) =
    (let snd = SendRight R_H (chunk_bytes I) (word_of_int (int s)) (off_of I (int (snd_ix (ri_N I) r s)));
         rcv = (if s < ri_N I - 1 then RecvLeft Stage_H (chunk_bytes I) (word_of_int (int s)) 0
           else RecvLeft L_H (chunk_bytes I) (word_of_int (int s)) (off_of I (int (rcv_ix (ri_N I) r s))))
     in (if even r then [snd, rcv] else [rcv, snd]) @
        [PollLeft, PollRight,
         if s < ri_N I - 1
         then AddChunk (word_of_int (int (rcv_ix (ri_N I) r s)) * ri_chunk I) 0 (ri_chunk I) else Skip])"
proof -
  have "(int s < int (ri_N I) - 1) = (s < ri_N I - 1)" using ring_okD(1) [OF assms(1)] by linarith
  then show ?thesis
    using assms ring_okD(1) [OF assms(1)]
    by (simp add: blocking_body_def Let_def c_rem_even send_chunk_int recv_chunk_int off_of_def
        chunk_bytes_def del: c_rem_nonneg)
qed

lemma blocking_calls:
  assumes "ring_ok I" and "r < ri_N I" and "s < ri_steps I"
  shows "blocking_of I r ! (s * 5 + sph r) =
      SendRight R_H (chunk_bytes I) (word_of_int (int s)) (off_of I (int (snd_ix (ri_N I) r s)))"
    and "blocking_of I r ! (s * 5 + rph r) =
      (if s < ri_N I - 1 then RecvLeft Stage_H (chunk_bytes I) (word_of_int (int s)) 0
       else RecvLeft L_H (chunk_bytes I) (word_of_int (int s)) (off_of I (int (rcv_ix (ri_N I) r s))))"
    and "blocking_of I r ! (s * 5 + 2) = PollLeft"
    and "blocking_of I r ! (s * 5 + 3) = PollRight"
    and "blocking_of I r ! (s * 5 + 4) =
      (if s < ri_N I - 1
       then AddChunk (word_of_int (int (rcv_ix (ri_N I) r s)) * ri_chunk I) 0 (ri_chunk I) else Skip)"
proof -
  have nth: "blocking_of I r ! (s * 5 + ph) = blocking_body (int (ri_N I)) (int r) (ri_chunk I) (int s) ! ph"
    if "ph < 5" for ph
    using blocking_of_nth [OF assms(1,3) that] .
  note eval = nth blocking_body_eq [OF assms] Let_def
  show "blocking_of I r ! (s * 5 + sph r) =
      SendRight R_H (chunk_bytes I) (word_of_int (int s)) (off_of I (int (snd_ix (ri_N I) r s)))"
    by (subst nth) (simp_all add: sph_def blocking_body_eq [OF assms] Let_def)
  show "blocking_of I r ! (s * 5 + rph r) =
      (if s < ri_N I - 1 then RecvLeft Stage_H (chunk_bytes I) (word_of_int (int s)) 0
       else RecvLeft L_H (chunk_bytes I) (word_of_int (int s)) (off_of I (int (rcv_ix (ri_N I) r s))))"
    by (subst nth) (simp_all add: rph_def blocking_body_eq [OF assms] Let_def)
  show "blocking_of I r ! (s * 5 + 2) = PollLeft"
    by (subst nth) (simp_all add: blocking_body_eq [OF assms] Let_def)
  show "blocking_of I r ! (s * 5 + 3) = PollRight"
    by (subst nth) (simp_all add: blocking_body_eq [OF assms] Let_def)
  show "blocking_of I r ! (s * 5 + 4) =
      (if s < ri_N I - 1
       then AddChunk (word_of_int (int (rcv_ix (ri_N I) r s)) * ri_chunk I) 0 (ri_chunk I) else Skip)"
    by (subst nth) (simp_all add: blocking_body_eq [OF assms] Let_def)
qed

section \<open>A rank's memory\<close>

lemma mem_ok_init: "ring_ok I \<Longrightarrow> r < ri_N I \<Longrightarrow> mem_ok I r 0 0 (ri_init I r)"
  using ring_okD(1) [of I] by (auto simp: mem_ok_def ring_okD chunk_val_init)

lemma mem_ok_send:
  assumes "ring_ok I" and "r < ri_N I" and "s < ri_steps I" and "mem_ok I r s g m"
  shows "chunk_of I (snd_ix (ri_N I) r s) (buf m) = msg I r s"
proof -
  have N: "2 \<le> ri_N I" using assms(1) by (rule ring_okD)
  have "chunk_of I (snd_ix (ri_N I) r s) (buf m) =
      chunk_val I r (snd_ix (ri_N I) r s) (min s (ri_N I - 1)) s"
    using assms(4) snd_ix_less [OF N assms(2,3)] snd_rcv_neq [OF N assms(2,3)]
    by (simp add: mem_ok_def)
  also have "\<dots> = msg I r s" by (rule chunk_val_send) (use assms in auto)
  finally show ?thesis .
qed

lemma take_window: "k + n \<le> length xs \<Longrightarrow> take k xs @ window k n xs = take (k + n) xs"
  by (simp add: window_def take_add)

lemma overwrite_grow:
  assumes "g + n \<le> length v" and "length v \<le> length b"
  shows "overwrite g (window g n v) (overwrite 0 (take g v) b) = overwrite 0 (take (g + n) v) b"
  using overwrite_append [of 0 "take g v" "window g n v" b] assms by (simp add: take_window)

lemma take_overwrite_grow:
  assumes "g + n \<le> length v" and "g + n \<le> length st" and "take g st = take g v"
  shows "take (g + n) (overwrite g (window g n v) st) = take (g + n) v"
  using assms take_window [OF assms(1)] by (simp add: overwrite_def)

lemma mem_ok_recv_stage:
  assumes "ring_ok I" and "r < ri_N I" and "s < ri_N I - 1" and "mem_ok I r s g m" and "g + n \<le> ri_L I"
  shows "mem_ok I r s (g + n)
    (m\<lparr>stage := overwrite g (window g n (msg I (left_of (ri_N I) r) s)) (stage m)\<rparr>)"
proof -
  have "length (msg I (left_of (ri_N I) r) s) = ri_L I"
    by (rule length_msg) (use assms ring_okD [OF assms(1)] in auto)
  then show ?thesis using assms
    by (auto simp: mem_ok_def take_overwrite_grow)
qed

lemma mem_ok_recv_buf:
  assumes "ring_ok I" and "r < ri_N I" and "ri_N I - 1 \<le> s" and "s < ri_steps I"
    and "mem_ok I r s g m" and "g + n \<le> ri_L I"
  shows "mem_ok I r s (g + n)
    (m\<lparr>buf := overwrite (rcv_ix (ri_N I) r s * ri_L I + g)
        (window g n (msg I (left_of (ri_N I) r) s)) (buf m)\<rparr>)"
proof -
  have N: "2 \<le> ri_N I" using assms(1) by (rule ring_okD)
  have lm: "length (msg I (left_of (ri_N I) r) s) = ri_L I"
    by (rule length_msg) (use assms ring_okD [OF assms(1)] in auto)
  have c: "rcv_ix (ri_N I) r s < ri_N I" by (rule rcv_ix_less [OF N assms(2,4)])
  have "rcv_ix (ri_N I) r s * ri_L I + g + n \<le> ri_N I * ri_L I"
    using chunk_bound [OF c, of "ri_L I"] assms(6) by simp
  then show ?thesis using assms c lm
    by (auto simp: mem_ok_def chunk_of_overwrite overwrite_grow length_chunk_val add.assoc)
qed

lemma mem_ok_next_gather:
  assumes "ring_ok I" and "r < ri_N I" and "ri_N I - 1 \<le> s" and "s < ri_steps I"
    and "mem_ok I r s (ri_L I) m"
  shows "mem_ok I r (Suc s) 0 m"
proof -
  have lm: "length (msg I (left_of (ri_N I) r) s) = ri_L I"
    by (rule length_msg) (use assms ring_okD [OF assms(1)] in auto)
  have "chunk_of I c (buf m) = chunk_val I r c (min s (ri_N I - 1)) (Suc s)" if "c < ri_N I" for c
    using assms that lm length_chunk_val [OF assms(1,2) that]
    by (auto simp: mem_ok_def chunk_val_land overwrite_def)
  moreover have "min (Suc s) (ri_N I - 1) = min s (ri_N I - 1)" using assms(3) by simp
  ultimately show ?thesis using assms by (auto simp: mem_ok_def overwrite_def)
qed

lemma mem_ok_add:
  assumes "ring_ok I" and "r < ri_N I" and "s < ri_N I - 1" and "mem_ok I r s (ri_L I) m"
  shows "mem_ok I r (Suc s) 0
    (add_chunk (ri_fadd I) (word_of_int (int (rcv_ix (ri_N I) r s)) * ri_chunk I) 0 (ri_chunk I) m)"
proof -
  let ?c = "rcv_ix (ri_N I) r s" and ?M = "msg I (left_of (ri_N I) r) s"
  have s: "s < ri_steps I" using assms(3) by simp
  have c: "?c < ri_N I" by (rule rcv_ix_less [OF ring_okD(1) [OF assms(1)] assms(2) s])
  have lb: "length (buf m) = ri_N I * ri_L I" using assms(4) by (simp add: mem_ok_def)
  have st: "window (0 * ri_L I) (ri_L I) (stage m) = ?M"
    using assms(3,4) length_msg [OF assms(1) _ s, of "left_of (ri_N I) r"] ring_okD(2) [OF assms(1)]
    by (simp add: mem_ok_def window_def)
  have u: "unat (0::u64) = 0 * ri_n I" by simp
  note add = add_chunk_chunks [OF assms(1) c lb u]
  have old: "chunk_of I d (buf m) = chunk_val I r d s s" if "d < ri_N I" for d
    using that assms(3,4) by (simp add: mem_ok_def min_def)
  have new: "chunk_val I r d (Suc s) (Suc s) =
      (if d = ?c then add_vec (ri_fadd I) (ri_n I) (chunk_val I r d s s) ?M else chunk_val I r d s s)"
    if "d < ri_N I" for d
    using chunk_val_land [OF assms(1,2) that s] chunk_val_add [OF assms(1,2) that assms(3)] assms(3) by simp
  have "chunk_of I d (buf (add_chunk (ri_fadd I) (word_of_int (int ?c) * ri_chunk I) 0 (ri_chunk I) m)) =
      chunk_val I r d (min (Suc s) (ri_N I - 1)) (Suc s)" if "d < ri_N I" for d
    unfolding add(3) [OF that] st min_absorb1 [OF Suc_leI [OF assms(3)]] new [OF that] old [OF that] old [OF c]
    by simp
  then show ?thesis
    using assms(4) add(1,2) by (simp add: mem_ok_def overwrite_def)
qed

section \<open>Moving along the program\<close>

definition adv :: "nat \<Rightarrow> nat \<Rightarrow> nat \<Rightarrow> nat \<Rightarrow> nat \<times> nat" where
  "adv L n p k = (if k + n = L then (Suc p, 0) else (p, k + n))"

lemma Suc_div_mod_5:
  "p mod 5 \<noteq> 4 \<Longrightarrow> Suc p div 5 = p div 5 \<and> Suc p mod 5 = Suc (p mod 5)"
  "p mod 5 = 4 \<Longrightarrow> Suc p div 5 = Suc (p div 5) \<and> Suc p mod 5 = 0"
  by presburger+

lemma pos_bound: "(p::nat) < n * 5 \<Longrightarrow> p div 5 < n"
  by (simp add: less_mult_imp_div_less)

lemma sph_rph: "sph r < 2" "rph r < 2" "sph r \<noteq> rph r" "ph < 2 \<Longrightarrow> ph = sph r \<or> ph = rph r"
  by (auto simp: sph_def rph_def)

lemma adv_send:
  assumes "p mod 5 = sph r" and "0 < n" and "k + n \<le> ri_L I" and "adv (ri_L I) n p k = (p', k')"
  shows "sent I r p' k' = sent I r p k + n" and "recvd I r p' k' = recvd I r p k"
    and "p' div 5 = p div 5"
    and "part (ri_L I) (rph r) (p' mod 5) k' = part (ri_L I) (rph r) (p mod 5) k"
proof -
  have "p mod 5 \<noteq> 4" using assms(1) sph_rph(1) [of r] by simp
  note d = Suc_div_mod_5(1) [OF this]
  show "p' div 5 = p div 5" using assms(4) d by (auto simp: adv_def split: if_splits)
  show "sent I r p' k' = sent I r p k + n"
    using assms d by (auto simp: adv_def sent_def part_def split: if_splits)
  show pr: "part (ri_L I) (rph r) (p' mod 5) k' = part (ri_L I) (rph r) (p mod 5) k"
    using assms d by (auto simp: adv_def part_def sph_def rph_def split: if_splits)
  show "recvd I r p' k' = recvd I r p k"
    using pr \<open>p' div 5 = p div 5\<close> by (simp add: recvd_def)
qed

lemma adv_recv:
  assumes "p mod 5 = rph r" and "0 < n" and "k + n \<le> ri_L I" and "adv (ri_L I) n p k = (p', k')"
  shows "recvd I r p' k' = recvd I r p k + n" and "sent I r p' k' = sent I r p k"
    and "p' div 5 = p div 5"
    and "part (ri_L I) (rph r) (p' mod 5) k' = k + n"
proof -
  have "p mod 5 \<noteq> 4" using assms(1) sph_rph(2) [of r] by simp
  note d = Suc_div_mod_5(1) [OF this]
  show dv: "p' div 5 = p div 5" using assms(4) d by (auto simp: adv_def split: if_splits)
  show pr: "part (ri_L I) (rph r) (p' mod 5) k' = k + n"
    using assms d by (auto simp: adv_def part_def split: if_splits)
  show "recvd I r p' k' = recvd I r p k + n"
    using pr dv assms(1) by (simp add: recvd_def part_def)
  show "sent I r p' k' = sent I r p k"
    using assms d by (auto simp: adv_def sent_def part_def sph_def rph_def split: if_splits)
qed

lemma next_idle:
  assumes "2 \<le> p mod 5"
  shows "sent I r (Suc p) 0 = sent I r p k" and "recvd I r (Suc p) 0 = recvd I r p k'"
proof -
  have "sph r < p mod 5" "rph r < p mod 5" using assms sph_rph(1,2) [of r] by linarith+
  moreover have "p mod 5 < 5" by simp
  ultimately show "sent I r (Suc p) 0 = sent I r p k" "recvd I r (Suc p) 0 = recvd I r p k'"
    using Suc_div_mod_5 [of p] sph_rph(1,2) [of r]
    by (cases "p mod 5 = 4"; auto simp: sent_def recvd_def part_def)+
qed

lemma rank_ok_adv:
  assumes "rank_ok I r p k m" and "p < ri_steps I * 5" and "p mod 5 < 2" and "0 < n"
    and "k + n \<le> ri_L I" and "adv (ri_L I) n p k = (p', k')"
    and "mem_ok I r (p' div 5) (part (ri_L I) (rph r) (p' mod 5) k') m'"
  shows "rank_ok I r p' k' m'"
  using assms by (auto simp: rank_ok_def adv_def split: if_splits)

lemma rank_ok_idle:
  assumes "rank_ok I r p k m" and "p < ri_steps I * 5" and "p mod 5 = 2 \<or> p mod 5 = 3"
  shows "rank_ok I r (Suc p) 0 m"
proof -
  have k: "k = 0" using assms by (auto simp: rank_ok_def)
  have "p mod 5 \<noteq> 4" using assms(3) by auto
  note d = Suc_div_mod_5(1) [OF this]
  have "part (ri_L I) (rph r) (Suc p mod 5) 0 = part (ri_L I) (rph r) (p mod 5) k"
    using assms(3) d sph_rph(2) [of r] k by (auto simp: part_def)
  with assms d k show ?thesis by (auto simp: rank_ok_def)
qed

lemma rank_ok_end_step:
  assumes "ring_ok I" and "r < ri_N I" and "rank_ok I r p k m" and "p < ri_steps I * 5" and "p mod 5 = 4"
  shows "ri_N I - 1 \<le> p div 5 \<Longrightarrow> rank_ok I r (Suc p) 0 m"
    and "p div 5 < ri_N I - 1 \<Longrightarrow> rank_ok I r (Suc p) 0
      (add_chunk (ri_fadd I) (word_of_int (int (rcv_ix (ri_N I) r (p div 5))) * ri_chunk I) 0 (ri_chunk I) m)"
proof -
  note d = Suc_div_mod_5(2) [OF assms(5)]
  have g: "mem_ok I r (p div 5) (ri_L I) m"
    using assms(3,5) sph_rph(2) [of r] by (auto simp: rank_ok_def part_def)
  have z: "part (ri_L I) (rph r) (Suc p mod 5) 0 = 0" using d by (auto simp: part_def)
  have b: "0 < ri_L I" "Suc p \<le> ri_steps I * 5" using assms ring_okD by auto
  show "rank_ok I r (Suc p) 0 m" if "ri_N I - 1 \<le> p div 5"
    using mem_ok_next_gather [OF assms(1,2) that pos_bound [OF assms(4)] g] d z b
    by (simp add: rank_ok_def)
  show "rank_ok I r (Suc p) 0
      (add_chunk (ri_fadd I) (word_of_int (int (rcv_ix (ri_N I) r (p div 5))) * ri_chunk I) 0 (ri_chunk I) m)"
    if "p div 5 < ri_N I - 1"
    using mem_ok_add [OF assms(1,2) that g] d z b by (simp add: rank_ok_def)
qed

section \<open>Steps keep the invariant\<close>

lemma tcp_act_cases:
  assumes "ring_ok I" and "tcp_act I c r = Some a"
  obtains (Send) p where "p = t_pos c r" "r < ri_N I" "p < ri_steps I * 5" "p mod 5 = sph r"
      "a = SendRight R_H (chunk_bytes I) (word_of_int (int (p div 5))) (off_of I (int (snd_ix (ri_N I) r (p div 5))))"
    | (Stage) p where "p = t_pos c r" "r < ri_N I" "p < ri_steps I * 5" "p mod 5 = rph r" "p div 5 < ri_N I - 1"
      "a = RecvLeft Stage_H (chunk_bytes I) (word_of_int (int (p div 5))) 0"
    | (Land) p where "p = t_pos c r" "r < ri_N I" "p < ri_steps I * 5" "p mod 5 = rph r" "ri_N I - 1 \<le> p div 5"
      "a = RecvLeft L_H (chunk_bytes I) (word_of_int (int (p div 5))) (off_of I (int (rcv_ix (ri_N I) r (p div 5))))"
    | (Poll) p where "p = t_pos c r" "r < ri_N I" "p < ri_steps I * 5" "p mod 5 = 2 \<or> p mod 5 = 3"
      "a = PollLeft \<or> a = PollRight"
    | (Add) p where "p = t_pos c r" "r < ri_N I" "p < ri_steps I * 5" "p mod 5 = 4" "p div 5 < ri_N I - 1"
      "a = AddChunk (word_of_int (int (rcv_ix (ri_N I) r (p div 5))) * ri_chunk I) 0 (ri_chunk I)"
    | (Skip) p where "p = t_pos c r" "r < ri_N I" "p < ri_steps I * 5" "p mod 5 = 4" "ri_N I - 1 \<le> p div 5" "a = Skip"
proof -
  define p where "p = t_pos c r"
  have r: "r < ri_N I" and p: "p < ri_steps I * 5" and a: "a = blocking_of I r ! p"
    using assms by (auto simp: tcp_act_def p_def length_blocking_of split: if_splits)
  note calls = blocking_calls [OF assms(1) r pos_bound [OF p]]
  have eq: "p = (p div 5) * 5 + p mod 5" by simp
  have "p mod 5 < 5" by simp
  then consider "p mod 5 < 2" | "p mod 5 = 2 \<or> p mod 5 = 3" | "p mod 5 = 4" by linarith
  then show thesis
  proof cases
    case 1
    then consider "p mod 5 = sph r" | "p mod 5 = rph r" using sph_rph(4) by blast
    then show thesis
    proof cases
      case 1
      then show thesis using Send [OF p_def r p 1] a calls(1) eq by metis
    next
      case 2
      then have "a = (if p div 5 < ri_N I - 1 then RecvLeft Stage_H (chunk_bytes I) (word_of_int (int (p div 5))) 0
         else RecvLeft L_H (chunk_bytes I) (word_of_int (int (p div 5))) (off_of I (int (rcv_ix (ri_N I) r (p div 5)))))"
        using a calls(2) eq by metis
      then show thesis
        using Stage [OF p_def r p 2] Land [OF p_def r p 2] by (cases "p div 5 < ri_N I - 1") auto
    qed
  next
    case 2
    then show thesis using Poll [OF p_def r p 2] a calls(3,4) eq by metis
  next
    case 3
    then have "a = (if p div 5 < ri_N I - 1
       then AddChunk (word_of_int (int (rcv_ix (ri_N I) r (p div 5))) * ri_chunk I) 0 (ri_chunk I) else Skip)"
      using a calls(5) eq by metis
    then show thesis
      using Add [OF p_def r p 3] Skip [OF p_def r p 3] by (cases "p div 5 < ri_N I - 1") auto
  qed
qed

lemma moved_adv:
  assumes "adv len n (t_pos c r) (t_k c r) = (p', k')"
  shows "t_pos (moved r len n c) = (t_pos c)(r := p')" and "t_k (moved r len n c) = (t_k c)(r := k')"
    and "t_mem (moved r len n c) = t_mem c" and "t_chan (moved r len n c) = t_chan c"
  using assms by (auto simp: moved_def adv_def next_call_def split: if_splits)

lemma adv_exists: "\<exists>p' k'. adv L n p k = (p', k')"
  by (simp add: adv_def)

lemma stream_window:
  assumes "ring_ok I" and "r < ri_N I" and "s < ri_steps I" and "k + n \<le> ri_L I"
  shows "window (s * ri_L I + k) n (stream I r) = window k n (msg I r s)"
  unfolding stream_def by (rule window_concat_uniform) (use assms in \<open>auto simp: length_msg\<close>)

lemma take_drop_window:
  "n \<le> w \<Longrightarrow> take n (window a w xs) = window a n xs"
  "n \<le> w \<Longrightarrow> drop n (window a w xs) = window (a + n) (w - n) xs"
  by (simp_all add: window_def drop_take add.commute)

lemma length_stream: "ring_ok I \<Longrightarrow> r < ri_N I \<Longrightarrow> length (stream I r) = ri_steps I * ri_L I"
  unfolding stream_def by (rule length_concat_uniform) (simp add: length_msg)

text \<open>A channel only looks at the two counters of its ends.\<close>

lemma chan_ok_other:
  assumes "chan_ok I cap c q" and "t_chan d q = t_chan c q"
    and "sent I q (t_pos d q) (t_k d q) = sent I q (t_pos c q) (t_k c q)"
    and "recvd I (right_of (ri_N I) q) (t_pos d (right_of (ri_N I) q)) (t_k d (right_of (ri_N I) q)) =
      recvd I (right_of (ri_N I) q) (t_pos c (right_of (ri_N I) q)) (t_k c (right_of (ri_N I) q))"
  shows "chan_ok I cap d q"
  using assms by (simp add: chan_ok_def Let_def)

lemma tcp_goodD:
  assumes "tcp_good I cap c"
  shows "ring_ok I" "1 \<le> cap" "r < ri_N I \<Longrightarrow> rank_ok I r (t_pos c r) (t_k c r) (t_mem c r)"
    "r < ri_N I \<Longrightarrow> chan_ok I cap c r"
  using assms by (auto simp: tcp_good_def)

lemma tcp_good_send:
  assumes good: "tcp_good I cap c" and r: "r < ri_N I" and p: "t_pos c r < ri_steps I * 5"
    and ph: "t_pos c r mod 5 = sph r" and n: "0 < n" and k: "t_k c r + n \<le> ri_L I"
    and cap: "length (t_chan c r) + n \<le> cap"
    and ch: "t_chan d = (t_chan c)(r := t_chan c r @
      window (snd_ix (ri_N I) r (t_pos c r div 5) * ri_L I + t_k c r) n (buf (t_mem c r)))"
    and d: "t_pos d = (t_pos c)(r := p')" "t_k d = (t_k c)(r := k')" "t_mem d = t_mem c"
    and adv: "adv (ri_L I) n (t_pos c r) (t_k c r) = (p', k')"
  shows "tcp_good I cap d"
proof -
  let ?s = "t_pos c r div 5" and ?q = "right_of (ri_N I) r"
  note g = tcp_goodD [OF good]
  note ad = adv_send [OF ph n k adv]
  have N: "2 \<le> ri_N I" using g(1) by (rule ring_okD)
  have s: "?s < ri_steps I" using p by (rule pos_bound)
  have mem: "mem_ok I r ?s (part (ri_L I) (rph r) (t_pos c r mod 5) (t_k c r)) (t_mem c r)"
    using g(3) [OF r] by (simp add: rank_ok_def)
  have bytes: "window (snd_ix (ri_N I) r ?s * ri_L I + t_k c r) n (buf (t_mem c r)) =
      window (sent I r (t_pos c r) (t_k c r)) n (stream I r)"
    using window_chunk [OF snd_ix_less [OF N r s] k] mem_ok_send [OF g(1) r s mem]
      stream_window [OF g(1) r s k] ph by (simp add: sent_def part_def)
  have qr: "?q \<noteq> r" using right_of_neq [OF N r] .
  have "rank_ok I r p' k' (t_mem c r)"
    by (rule rank_ok_adv [OF g(3) [OF r] p _ n k adv]) (use ph sph_rph(1) [of r] mem ad in auto)
  moreover have "chan_ok I cap d r"
  proof -
    let ?a = "recvd I ?q (t_pos c ?q) (t_k c ?q)" and ?b = "sent I r (t_pos c r) (t_k c r)"
    have a: "?a \<le> ?b" "t_chan c r = window ?a (?b - ?a) (stream I r)"
      using g(4) [OF r] by (auto simp: chan_ok_def Let_def)
    have "?b + n \<le> ri_steps I * ri_L I"
      using chunk_bound [OF s, of "ri_L I"] k ph by (simp add: sent_def part_def)
    then have "length (t_chan c r) = ?b - ?a"
      using a length_stream [OF g(1) r] by simp
    moreover have "t_chan d r = window ?a (?b - ?a + n) (stream I r)"
      using ch bytes a window_append_window [of ?a "?b - ?a" "stream I r" n] by simp
    ultimately show ?thesis
      using a d qr ad(1) cap by (simp add: chan_ok_def Let_def)
  qed
  moreover have "chan_ok I cap d q" if "q < ri_N I" "q \<noteq> r" for q
  proof (rule chan_ok_other [OF g(4) [OF that(1)]])
    show "t_chan d q = t_chan c q" using ch that by simp
    show "sent I q (t_pos d q) (t_k d q) = sent I q (t_pos c q) (t_k c q)" using d that by simp
    show "recvd I (right_of (ri_N I) q) (t_pos d (right_of (ri_N I) q)) (t_k d (right_of (ri_N I) q)) =
      recvd I (right_of (ri_N I) q) (t_pos c (right_of (ri_N I) q)) (t_k c (right_of (ri_N I) q))"
      using d ad(2) by simp
  qed
  ultimately show ?thesis
    using g d by (auto simp: tcp_good_def)
qed

lemma chan_length:
  assumes "tcp_good I cap c" and "r < ri_N I"
  shows "length (t_chan c r) = sent I r (t_pos c r) (t_k c r) -
      recvd I (right_of (ri_N I) r) (t_pos c (right_of (ri_N I) r)) (t_k c (right_of (ri_N I) r))"
proof -
  note g = tcp_goodD [OF assms(1)]
  let ?p = "t_pos c r" and ?k = "t_k c r"
  have ok: "?p \<le> ri_steps I * 5" "?k < ri_L I" "0 < ?k \<longrightarrow> ?p < ri_steps I * 5"
    using g(3) [OF assms(2)] by (auto simp: rank_ok_def)
  have "sent I r ?p ?k \<le> ri_steps I * ri_L I"
  proof (cases "?p = ri_steps I * 5")
    case True
    then show ?thesis using ok(3) by (auto simp: sent_def part_def sph_def)
  next
    case False
    then have "?p div 5 < ri_steps I" using ok(1) by (intro pos_bound) simp
    moreover have "part (ri_L I) (sph r) (?p mod 5) ?k \<le> ri_L I" using ok(2) by (simp add: part_def)
    ultimately show ?thesis using chunk_bound [of "?p div 5" "ri_steps I" "ri_L I"] by (simp add: sent_def)
  qed
  then show ?thesis
    using g(4) [OF assms(2)] length_stream [OF g(1) assms(2)] by (auto simp: chan_ok_def Let_def)
qed

lemma recv_bytes:
  assumes "tcp_good I cap c" and "r < ri_N I" and "t_pos c r < ri_steps I * 5"
    and "t_pos c r mod 5 = rph r" and "t_k c r + n \<le> ri_L I" and "n \<le> length (t_chan c (left_of (ri_N I) r))"
  shows "take n (t_chan c (left_of (ri_N I) r)) =
    window (t_k c r) n (msg I (left_of (ri_N I) r) (t_pos c r div 5))"
proof -
  let ?l = "left_of (ri_N I) r"
  note g = tcp_goodD [OF assms(1)]
  have l: "?l < ri_N I" using ring_okD(2) [OF g(1)] by simp
  have "t_chan c ?l = window (recvd I r (t_pos c r) (t_k c r)) (length (t_chan c ?l)) (stream I ?l)"
    using g(4) [OF l] chan_length [OF assms(1) l] assms(2) by (auto simp: chan_ok_def Let_def)
  then have "take n (t_chan c ?l) = window (recvd I r (t_pos c r) (t_k c r)) n (stream I ?l)"
    using take_drop_window(1) [OF assms(6)] by metis
  also have "recvd I r (t_pos c r) (t_k c r) = t_pos c r div 5 * ri_L I + t_k c r"
    using assms(4) by (simp add: recvd_def part_def)
  finally show ?thesis using stream_window [OF g(1) l pos_bound [OF assms(3)] assms(5)] by simp
qed

lemma tcp_good_recv:
  assumes good: "tcp_good I cap c" and r: "r < ri_N I" and p: "t_pos c r < ri_steps I * 5"
    and ph: "t_pos c r mod 5 = rph r" and n: "0 < n" and k: "t_k c r + n \<le> ri_L I"
    and l: "l = left_of (ri_N I) r" and len: "n \<le> length (t_chan c l)"
    and ch: "t_chan d = (t_chan c)(l := drop n (t_chan c l))"
    and d: "t_pos d = (t_pos c)(r := p')" "t_k d = (t_k c)(r := k')" "t_mem d = (t_mem c)(r := m')"
    and adv: "adv (ri_L I) n (t_pos c r) (t_k c r) = (p', k')"
    and m': "mem_ok I r (t_pos c r div 5) (t_k c r + n) m'"
  shows "tcp_good I cap d"
proof -
  note g = tcp_goodD [OF good]
  note ad = adv_recv [OF ph n k adv]
  have N: "2 \<le> ri_N I" using g(1) by (rule ring_okD)
  have lN: "l < ri_N I" using N l by simp
  have lr: "l \<noteq> r" using left_of_neq [OF N r] l by simp
  have rl: "right_of (ri_N I) l = r" using r l by simp
  have "rank_ok I r p' k' m'"
    by (rule rank_ok_adv [OF g(3) [OF r] p _ n k adv]) (use ph sph_rph(2) [of r] m' ad in auto)
  moreover have "chan_ok I cap d l"
  proof -
    let ?a = "recvd I r (t_pos c r) (t_k c r)" and ?b = "sent I l (t_pos c l) (t_k c l)"
    have a: "?a \<le> ?b" "?b - ?a \<le> cap" "t_chan c l = window ?a (?b - ?a) (stream I l)"
      using g(4) [OF lN] rl by (auto simp: chan_ok_def Let_def)
    have n': "n \<le> ?b - ?a" using len chan_length [OF good lN] rl by simp
    have "t_chan d l = window (?a + n) (?b - ?a - n) (stream I l)"
      using ch a(3) take_drop_window(2) [OF n'] by simp
    moreover have "?b - ?a - n = ?b - (?a + n)" by simp
    moreover have "?a + n \<le> ?b" "?b - (?a + n) \<le> cap" using n' n a(1,2) by linarith+
    ultimately show ?thesis using d rl lr ad(1) by (simp add: chan_ok_def Let_def)
  qed
  moreover have "chan_ok I cap d q" if "q < ri_N I" "q \<noteq> l" for q
  proof (rule chan_ok_other [OF g(4) [OF that(1)]])
    have "right_of (ri_N I) q \<noteq> r" using that l r left_of_eq_iff [of q "ri_N I" r]
      by (metis left_right)
    then show "recvd I (right_of (ri_N I) q) (t_pos d (right_of (ri_N I) q)) (t_k d (right_of (ri_N I) q)) =
      recvd I (right_of (ri_N I) q) (t_pos c (right_of (ri_N I) q)) (t_k c (right_of (ri_N I) q))"
      using d by simp
    show "t_chan d q = t_chan c q" using ch that by simp
    show "sent I q (t_pos d q) (t_k d q) = sent I q (t_pos c q) (t_k c q)" using d ad(2) by simp
  qed
  ultimately show ?thesis using g d by (auto simp: tcp_good_def)
qed

lemma tcp_good_idle:
  assumes good: "tcp_good I cap c" and r: "r < ri_N I" and ph: "2 \<le> t_pos c r mod 5"
    and d: "t_chan d = t_chan c" "t_pos d = (t_pos c)(r := Suc (t_pos c r))" "t_k d = (t_k c)(r := 0)"
      "t_mem d = (t_mem c)(r := m')"
    and m': "rank_ok I r (Suc (t_pos c r)) 0 m'"
  shows "tcp_good I cap d"
proof -
  note g = tcp_goodD [OF good]
  have "chan_ok I cap d q" if "q < ri_N I" for q
    by (rule chan_ok_other [OF g(4) [OF that]]) (use d next_idle [OF ph] in auto)
  then show ?thesis using g d m' by (auto simp: tcp_good_def)
qed

lemma tcp_good_step:
  assumes "tcp_good I cap c" and "tcp_step I cap c d"
  shows "tcp_good I cap d"
  using assms(2)
proof cases
  case (tcp_send r h len i off m)
  note g = tcp_goodD [OF assms(1)]
  let ?p = "t_pos c r"
  have S: "r < ri_N I" "?p < ri_steps I * 5" "?p mod 5 = sph r" "h = R_H" "len = chunk_bytes I"
      "off = off_of I (int (snd_ix (ri_N I) r (?p div 5)))"
    using tcp_send(2) by (auto elim: tcp_act_cases [OF g(1)])
  have N: "2 \<le> ri_N I" using g(1) by (rule ring_okD)
  have off: "unat off = snd_ix (ri_N I) r (?p div 5) * ri_L I"
    using S unat_off_of [OF g(1) snd_ix_less [OF N S(1) pos_bound [OF S(2)]]] by simp
  have len: "unat len = ri_L I" using S unat_chunk_bytes [OF g(1)] by simp
  obtain p' k' where adv: "adv (ri_L I) m ?p (t_k c r) = (p', k')" using adv_exists by blast
  show ?thesis
    by (rule tcp_good_send [OF assms(1) S(1,2,3) tcp_send(4) _ tcp_send(6) _ _ _ _ adv])
      (use tcp_send adv off len S in \<open>simp_all add: moved_adv\<close>)
next
  case (tcp_recv r h len i off l m)
  note g = tcp_goodD [OF assms(1)]
  let ?p = "t_pos c r"
  have N: "2 \<le> ri_N I" using g(1) by (rule ring_okD)
  have R: "r < ri_N I" "?p < ri_steps I * 5" "?p mod 5 = rph r" "len = chunk_bytes I"
      "(?p div 5 < ri_N I - 1 \<and> h = Stage_H \<and> off = 0) \<or>
       (ri_N I - 1 \<le> ?p div 5 \<and> h = L_H \<and> off = off_of I (int (rcv_ix (ri_N I) r (?p div 5))))"
    using tcp_recv(2) by (auto elim: tcp_act_cases [OF g(1)])
  have s: "?p div 5 < ri_steps I" using R(2) by (rule pos_bound)
  have len: "unat len = ri_L I" using R unat_chunk_bytes [OF g(1)] by simp
  have k: "t_k c r + m \<le> ri_L I" using tcp_recv(6) len by simp
  have bts: "take m (t_chan c l) = window (t_k c r) m (msg I (left_of (ri_N I) r) (?p div 5))"
    using recv_bytes [OF assms(1) R(1-3) k] tcp_recv(3,7) by simp
  have mem: "mem_ok I r (?p div 5) (t_k c r) (t_mem c r)"
    using g(3) [OF R(1)] R(3) by (simp add: rank_ok_def part_def)
  have m': "mem_ok I r (?p div 5) (t_k c r + m)
      (put_sel h (overwrite (unat off + t_k c r) (take m (t_chan c l)) (sel h (t_mem c r))) (t_mem c r))"
    using R(5)
  proof
    assume "?p div 5 < ri_N I - 1 \<and> h = Stage_H \<and> off = 0"
    then show ?thesis using mem_ok_recv_stage [OF g(1) R(1) _ mem k] by (simp add: bts)
  next
    assume "ri_N I - 1 \<le> ?p div 5 \<and> h = L_H \<and> off = off_of I (int (rcv_ix (ri_N I) r (?p div 5)))"
    then show ?thesis
      using mem_ok_recv_buf [OF g(1) R(1) _ s mem k] unat_off_of [OF g(1) rcv_ix_less [OF N R(1) s]]
      by (simp add: bts)
  qed
  obtain p' k' where adv: "adv (ri_L I) m ?p (t_k c r) = (p', k')" using adv_exists by blast
  show ?thesis
    by (rule tcp_good_recv [OF assms(1) R(1-3) tcp_recv(5) k tcp_recv(3,7) _ _ _ _ adv m'])
      (use tcp_recv(1) adv len in \<open>simp_all add: moved_adv\<close>)
next
  case (tcp_poll r a)
  note g = tcp_goodD [OF assms(1)]
  let ?p = "t_pos c r"
  have P: "r < ri_N I" "?p < ri_steps I * 5"
      "?p mod 5 = 2 \<or> ?p mod 5 = 3 \<or> (?p mod 5 = 4 \<and> ri_N I - 1 \<le> ?p div 5)"
    using tcp_poll(2,3) by (auto elim!: tcp_act_cases [OF g(1)])
  have "rank_ok I r (Suc ?p) 0 (t_mem c r)"
    using P rank_ok_idle [OF g(3) [OF P(1)] P(2)] rank_ok_end_step(1) [OF g(1) P(1) g(3) [OF P(1)] P(2)]
    by blast
  then show ?thesis
    by (rule tcp_good_idle [OF assms(1) P(1), rotated -1]) (use tcp_poll(1) P in \<open>auto simp: next_call_def\<close>)
next
  case (tcp_add r dst src n)
  note g = tcp_goodD [OF assms(1)]
  let ?p = "t_pos c r"
  have A: "r < ri_N I" "?p < ri_steps I * 5" "?p mod 5 = 4" "?p div 5 < ri_N I - 1"
      "dst = word_of_int (int (rcv_ix (ri_N I) r (?p div 5))) * ri_chunk I" "src = 0" "n = ri_chunk I"
    using tcp_add(2) by (auto elim: tcp_act_cases [OF g(1)])
  have "rank_ok I r (Suc ?p) 0 (add_chunk (ri_fadd I) dst src n (t_mem c r))"
    using rank_ok_end_step(2) [OF g(1) A(1) g(3) [OF A(1)] A(2,3,4)] A by simp
  then show ?thesis
    by (rule tcp_good_idle [OF assms(1) A(1), rotated -1]) (use tcp_add(1) A in \<open>auto simp: next_call_def\<close>)
qed

section \<open>The run ends, and never stops early\<close>

lemma work_adv:
  assumes "p < T" and "k < L" and "0 < n" and "k + n \<le> L" and "adv L n p k = (p', k')"
  shows "(T - p') * (L + 1) - k' < (T - p) * (L + 1) - k"
proof -
  obtain u where u: "T - p = Suc u" using assms(1) by (metis Suc_diff_Suc)
  then have "T - Suc p = u" by simp
  with u assms show ?thesis by (auto simp: adv_def split: if_splits)
qed

lemma work_idle: "p < T \<Longrightarrow> k < L \<Longrightarrow> (T - Suc p) * (L + 1) - 0 < (T - p) * (L + 1) - (k::nat)"
proof -
  assume a: "p < T" "k < L"
  then obtain u where u: "T - p = Suc u" by (metis Suc_diff_Suc)
  then have "T - Suc p = u" by simp
  with u a show ?thesis by simp
qed

lemma tcp_work_step:
  assumes "tcp_good I cap c" and "tcp_step I cap c d"
  shows "tcp_work I d < tcp_work I c"
proof -
  note g = tcp_goodD [OF assms(1)]
  have pos: "r < ri_N I \<and> t_pos c r < ri_steps I * 5 \<and> t_k c r < ri_L I" if "tcp_act I c r = Some a" for r a
    using that g(3) [of r] by (auto simp: tcp_act_def length_blocking_of [OF g(1)] rank_ok_def split: if_splits)
  have len: "unat len = ri_L I" if "tcp_act I c r = Some (SendRight h len i off) \<or>
      tcp_act I c r = Some (RecvLeft h len i off)" for r h len i off
    using that unat_chunk_bytes [OF g(1)] by (auto elim!: tcp_act_cases [OF g(1)])
  show ?thesis
    using assms(2)
  proof cases
    case (tcp_send r h len i off m)
    obtain p' k' where adv: "adv (ri_L I) m (t_pos c r) (t_k c r) = (p', k')" using adv_exists by blast
    show ?thesis unfolding tcp_work_def
      by (rule sum_decreases [of r])
        (use tcp_send pos [OF tcp_send(2)] len [of r h len i off] adv work_adv [OF _ _ tcp_send(4) _ adv]
          in \<open>simp_all add: moved_adv\<close>)
  next
    case (tcp_recv r h len i off l m)
    obtain p' k' where adv: "adv (ri_L I) m (t_pos c r) (t_k c r) = (p', k')" using adv_exists by blast
    show ?thesis unfolding tcp_work_def
      by (rule sum_decreases [of r])
        (use tcp_recv pos [OF tcp_recv(2)] len [of r h len i off] adv work_adv [OF _ _ tcp_recv(5) _ adv]
          in \<open>simp_all add: moved_adv\<close>)
  next
    case (tcp_poll r a)
    show ?thesis unfolding tcp_work_def
      by (rule sum_decreases [of r])
        (use tcp_poll pos [OF tcp_poll(2)] work_idle in \<open>simp_all add: next_call_def\<close>)
  next
    case (tcp_add r dst src n)
    show ?thesis unfolding tcp_work_def
      by (rule sum_decreases [of r])
        (use tcp_add pos [OF tcp_add(2)] work_idle in \<open>simp_all add: next_call_def\<close>)
  qed
qed

text \<open>A rank that cannot move is in the middle of a send into a full stream, or of a receive from an empty one.\<close>

definition send_stuck :: "ring_inst \<Rightarrow> nat \<Rightarrow> tcp_cfg \<Rightarrow> nat \<Rightarrow> bool" where
  "send_stuck I cap c r \<longleftrightarrow> t_pos c r mod 5 = sph r \<and> cap \<le> length (t_chan c r)"

definition recv_stuck :: "ring_inst \<Rightarrow> tcp_cfg \<Rightarrow> nat \<Rightarrow> bool" where
  "recv_stuck I c r \<longleftrightarrow> t_pos c r mod 5 = rph r \<and> t_chan c (left_of (ri_N I) r) = []"

lemma stuck_cases:
  assumes good: "tcp_good I cap c" and r: "r < ri_N I" and p: "t_pos c r < ri_steps I * 5"
    and stuck: "\<nexists>d. tcp_step I cap c d"
  shows "send_stuck I cap c r \<or> recv_stuck I c r"
proof -
  note g = tcp_goodD [OF good]
  let ?m = "t_mem c r" and ?s = "t_pos c r div 5"
  have N: "2 \<le> ri_N I" using g(1) by (rule ring_okD)
  have ok: "t_k c r < ri_L I" "length (buf ?m) = ri_N I * ri_L I" "length (stage ?m) = 2 * ri_L I"
    using g(3) [OF r] by (auto simp: rank_ok_def mem_ok_def)
  have len: "unat (chunk_bytes I) = ri_L I" by (rule unat_chunk_bytes [OF g(1)])
  have bound: "unat (off_of I (int i)) + ri_L I \<le> length (buf ?m)" if "i < ri_N I" for i
    using unat_off_of [OF g(1) that] chunk_bound [OF that] ok(2) by simp
  obtain a where a: "tcp_act I c r = Some a"
    using r p by (simp add: tcp_act_def length_blocking_of [OF g(1)])
  from g(1) a show ?thesis
  proof (cases rule: tcp_act_cases)
    case (Send q)
    have "\<not> length (t_chan c r) + 1 \<le> cap"
      using stuck tcp_step.tcp_send [OF a [unfolded Send(5)], of 1 cap] ok(1) len
        bound [OF snd_ix_less [OF N r pos_bound [OF p]]] Send(1) by auto
    then show ?thesis using Send by (simp add: send_stuck_def)
  next
    case (Stage q)
    have "\<not> 1 \<le> length (t_chan c (left_of (ri_N I) r))"
      using stuck tcp_step.tcp_recv [OF a [unfolded Stage(6)] refl, of 1 cap] ok len by auto
    then show ?thesis using Stage by (simp add: recv_stuck_def not_le)
  next
    case (Land q)
    have "\<not> 1 \<le> length (t_chan c (left_of (ri_N I) r))"
      using stuck tcp_step.tcp_recv [OF a [unfolded Land(6)] refl, of 1 cap] ok len
        bound [OF rcv_ix_less [OF N r pos_bound [OF p]]] Land(1) by auto
    then show ?thesis using Land by (simp add: recv_stuck_def not_le)
  next
    case (Poll q)
    then show ?thesis using stuck tcp_step.tcp_poll [OF a] by blast
  next
    case (Add q)
    then show ?thesis using stuck tcp_step.tcp_add [OF a [unfolded Add(6)]] by blast
  next
    case (Skip q)
    then show ?thesis using stuck tcp_step.tcp_poll [OF a] by blast
  qed
qed

text \<open>
  The least advanced rank: if it waits to receive, its left neighbour is at the same step and
  has not sent, so it waits to receive too and receives first; if it waits to send, its right
  neighbour waits to send and sends first. Around the ring, all ranks would be odd or all even.
\<close>

lemma recv_stuck_left:
  assumes good: "tcp_good I cap c" and stuck: "\<nexists>d. tcp_step I cap c d" and q: "q < ri_N I"
    and least: "\<And>r. r < ri_N I \<Longrightarrow> t_pos c q div 5 \<le> t_pos c r div 5"
    and s: "t_pos c q div 5 < ri_steps I" and rs: "recv_stuck I c q"
  shows "odd (left_of (ri_N I) q) \<and> recv_stuck I c (left_of (ri_N I) q) \<and>
    t_pos c (left_of (ri_N I) q) div 5 = t_pos c q div 5"
proof -
  let ?l = "left_of (ri_N I) q"
  note g = tcp_goodD [OF good]
  have l: "?l < ri_N I" using ring_okD(2) [OF g(1)] by simp
  have k: "t_k c q < ri_L I" using g(3) [OF q] by (simp add: rank_ok_def)
  have "sent I ?l (t_pos c ?l) (t_k c ?l) \<le> recvd I q (t_pos c q) (t_k c q)"
    using chan_length [OF good l] rs q by (simp add: recv_stuck_def)
  also have "\<dots> = t_pos c q div 5 * ri_L I + t_k c q" using rs by (simp add: recvd_def recv_stuck_def part_def)
  finally have se: "t_pos c ?l div 5 * ri_L I + part (ri_L I) (sph ?l) (t_pos c ?l mod 5) (t_k c ?l) <
      Suc (t_pos c q div 5) * ri_L I" using k by (simp add: sent_def)
  then have "t_pos c ?l div 5 * ri_L I < Suc (t_pos c q div 5) * ri_L I" by simp
  then have eq: "t_pos c ?l div 5 = t_pos c q div 5"
    using least [OF l] by (simp only: mult_less_cancel2) linarith
  then have "t_pos c ?l < ri_steps I * 5" using s by linarith
  from stuck_cases [OF good l this stuck] have "recv_stuck I c ?l"
    using rs g(2) by (auto simp: send_stuck_def recv_stuck_def)
  moreover have "t_pos c ?l mod 5 \<le> sph ?l" using se eq by (auto simp: part_def split: if_splits)
  ultimately show ?thesis using eq sph_rph(3) [of ?l] by (auto simp: recv_stuck_def sph_def rph_def split: if_splits)
qed

lemma send_stuck_right:
  assumes good: "tcp_good I cap c" and stuck: "\<nexists>d. tcp_step I cap c d" and q: "q < ri_N I"
    and least: "\<And>r. r < ri_N I \<Longrightarrow> t_pos c q div 5 \<le> t_pos c r div 5"
    and s: "t_pos c q div 5 < ri_steps I" and ss: "send_stuck I cap c q"
  shows "even (right_of (ri_N I) q) \<and> send_stuck I cap c (right_of (ri_N I) q) \<and>
    t_pos c (right_of (ri_N I) q) div 5 = t_pos c q div 5"
proof -
  let ?r = "right_of (ri_N I) q"
  note g = tcp_goodD [OF good]
  have r: "?r < ri_N I" using ring_okD(2) [OF g(1)] by simp
  have k: "t_k c q < ri_L I" using g(3) [OF q] by (simp add: rank_ok_def)
  have ne: "t_chan c q \<noteq> []" using ss g(2) by (auto simp: send_stuck_def)
  then have "recvd I ?r (t_pos c ?r) (t_k c ?r) < sent I q (t_pos c q) (t_k c q)"
    using chan_length [OF good q] by (simp add: length_greater_0_conv [symmetric] del: length_greater_0_conv)
  also have "\<dots> = t_pos c q div 5 * ri_L I + t_k c q" using ss by (simp add: sent_def send_stuck_def part_def)
  finally have re: "t_pos c ?r div 5 * ri_L I + part (ri_L I) (rph ?r) (t_pos c ?r mod 5) (t_k c ?r) <
      Suc (t_pos c q div 5) * ri_L I" using k by (simp add: recvd_def)
  then have "t_pos c ?r div 5 * ri_L I < Suc (t_pos c q div 5) * ri_L I" by simp
  then have eq: "t_pos c ?r div 5 = t_pos c q div 5"
    using least [OF r] by (simp only: mult_less_cancel2) linarith
  then have "t_pos c ?r < ri_steps I * 5" using s by linarith
  from stuck_cases [OF good r this stuck] have "send_stuck I cap c ?r"
    using ne q by (auto simp: send_stuck_def recv_stuck_def)
  moreover have "t_pos c ?r mod 5 \<le> rph ?r" using re eq by (auto simp: part_def split: if_splits)
  ultimately show ?thesis using eq sph_rph(3) [of ?r] by (auto simp: send_stuck_def sph_def rph_def split: if_splits)
qed

lemma tcp_progress:
  assumes good: "tcp_good I cap c" and unfinished: "\<not> tcp_finished I c"
  shows "\<exists>d. tcp_step I cap c d"
proof (rule ccontr)
  assume stuck: "\<nexists>d. tcp_step I cap c d"
  note g = tcp_goodD [OF good]
  have N: "2 \<le> ri_N I" using g(1) by (rule ring_okD)
  define s where "s = Min ((\<lambda>r. t_pos c r div 5) ` {..<ri_N I})"
  have ne: "(\<lambda>r. t_pos c r div 5) ` {..<ri_N I} \<noteq> {}" using N by (auto simp: lessThan_empty_iff)
  have least: "s \<le> t_pos c r div 5" if "r < ri_N I" for r
    using that by (auto simp: s_def intro: Min_le)
  obtain q where q: "q < ri_N I" "t_pos c q div 5 = s"
    using Min_in [OF _ ne] by (auto simp: s_def)
  obtain u where u: "u < ri_N I" "t_pos c u \<noteq> ri_steps I * 5"
    using unfinished by (auto simp: tcp_finished_def length_blocking_of [OF g(1)])
  then have "t_pos c u < ri_steps I * 5" using g(3) [OF u(1)] by (simp add: rank_ok_def)
  then have s: "s < ri_steps I" using least [OF u(1)] pos_bound [of "t_pos c u" "ri_steps I"] by linarith
  then have "t_pos c q < ri_steps I * 5" using q by linarith
  from stuck_cases [OF good q(1) this stuck] show False
  proof
    assume a: "recv_stuck I c q"
    define P where "P r \<longleftrightarrow> recv_stuck I c r \<and> t_pos c r div 5 = s" for r
    have step: "odd (left_of (ri_N I) r) \<and> P (left_of (ri_N I) r)" if "r < ri_N I" "P r" for r
      using recv_stuck_left [OF good stuck that(1)] that(2) least s by (auto simp: P_def)
    have "P 1" by (rule ring_induct_left [of q "ri_N I" P]) (use q a step N in \<open>auto simp: P_def\<close>)
    with step [of 1] N show False by (simp add: left_of_cases)
  next
    assume a: "send_stuck I cap c q"
    define P where "P r \<longleftrightarrow> send_stuck I cap c r \<and> t_pos c r div 5 = s" for r
    have step: "even (right_of (ri_N I) r) \<and> P (right_of (ri_N I) r)" if "r < ri_N I" "P r" for r
      using send_stuck_right [OF good stuck that(1)] that(2) least s by (auto simp: P_def)
    have "P 0" by (rule ring_induct_right [of q "ri_N I" P]) (use q a step N in \<open>auto simp: P_def\<close>)
    with step [of 0] N show False by (simp add: right_of_cases split: if_splits)
  qed
qed

lemma tcp_good_init: "tcp_start I cap c \<Longrightarrow> tcp_good I cap c"
  by (auto simp: tcp_start_def tcp_good_def tcp_init_def rank_ok_def chan_ok_def part_def sent_def
      recvd_def mem_ok_init ring_okD rph_def sph_def Let_def)

interpretation tcp_ring: terminating_system "tcp_step I cap" "tcp_start I cap" "tcp_good I cap"
  "tcp_finished I" "tcp_work I"
  for I cap
proof
  fix c d
  show "tcp_start I cap c \<Longrightarrow> tcp_good I cap c" by (rule tcp_good_init)
  show "tcp_good I cap c \<Longrightarrow> tcp_step I cap c d \<Longrightarrow> tcp_good I cap d" by (rule tcp_good_step)
  show "tcp_good I cap c \<Longrightarrow> tcp_step I cap c d \<Longrightarrow> tcp_work I d < tcp_work I c" by (rule tcp_work_step)
  show "tcp_good I cap c \<Longrightarrow> \<not> tcp_finished I c \<Longrightarrow> \<exists>d. tcp_step I cap c d" by (rule tcp_progress)
qed

text \<open>A finished configuration holds the full sums everywhere.\<close>

lemma tcp_finished_buf:
  assumes good: "tcp_good I cap c" and fin: "tcp_finished I c" and r: "r < ri_N I" and d: "d < ri_N I"
  shows "chunk_of I d (buf (t_mem c r)) = psum I d (ri_N I - 1)"
proof -
  note g = tcp_goodD [OF good]
  have "t_pos c r = ri_steps I * 5" using fin r by (simp add: tcp_finished_def length_blocking_of [OF g(1)])
  moreover have "min (ri_steps I) (ri_N I - 1) = ri_N I - 1" using ring_okD(1) [OF g(1)] by simp
  ultimately show ?thesis
    using g(3) [OF r] chunk_val_final [OF g(1) r d] d by (auto simp: rank_ok_def mem_ok_def)
qed

section \<open>Properties\<close>

text \<open>A small instance, to see the hypotheses hold: two ranks, two floats, bytewise addition.\<close>

definition tiny_add :: "byte list \<Rightarrow> byte list \<Rightarrow> byte list" where
  "tiny_add x y = map (\<lambda>i. x ! i + y ! i) [0..<4]"

definition tiny :: ring_inst where
  "tiny = \<lparr>ri_N = 2, ri_chunk = 1, ri_fadd = tiny_add,
     ri_init = (\<lambda>r. \<lparr>buf = replicate 8 (word_of_nat (Suc r)), stage = replicate 8 0\<rparr>)\<rparr>"

lemma tiny_ok: "ring_ok tiny"
  by (simp add: ring_ok_def tiny_def ri_L_def sizeof_float_def tiny_add_def)

lemma tiny_start: "tcp_start tiny 3 (tcp_init tiny)"
  by (simp add: tcp_start_def tiny_ok)

text \<open>
  C1. The ring all-reduce over blocking transports: whatever the scheduler and the sockets do
  (any split of any transfer, any buffer of at least one byte per link), a run that cannot go
  on has finished on every rank, and every float of every rank's buffer is the sum over all
  ranks, taken in the order of the ring.
\<close>

theorem tcp_allreduce_correct:
  assumes "ring_ok I" and "0 < cap" and "(tcp_step I cap)\<^sup>*\<^sup>* (tcp_init I) c" and "\<nexists>d. tcp_step I cap c d"
    and "r < ri_N I" and "k < ri_N I" and "j < ri_n I"
  shows "t_pos c r = length (blocking_of I r) \<and>
    get_float (buf (t_mem c r)) (k * ri_n I + j) =
      ring_fold (ri_fadd I) (ri_N I) k (\<lambda>q. get_float (buf (ri_init I q)) (k * ri_n I + j)) (ri_N I - 1)"
proof -
  have "tcp_start I cap (tcp_init I)" using assms(1,2) by (simp add: tcp_start_def)
  from tcp_ring.stuck_finished [OF this assms(3,4)] have gf: "tcp_good I cap c" "tcp_finished I c" by auto
  have "get_float (chunk_of I k (buf (t_mem c r))) j = get_float (buf (t_mem c r)) (k * ri_n I + j)"
    by (rule get_float_chunk [OF assms(7)])
  with gf assms(5) tcp_finished_buf [OF gf assms(5,6)] get_float_psum [OF assms(1,7,6)]
  show ?thesis by (simp add: tcp_finished_def)
qed

theorem tcp_allreduce_correct_witness:
  "\<exists>c. (tcp_step tiny 3)\<^sup>*\<^sup>* (tcp_init tiny) c \<and> (\<nexists>d. tcp_step tiny 3 c d) \<and>
     get_float (buf (t_mem c 0)) 1 = [3, 3, 3, 3]"
proof -
  obtain c where c: "(tcp_step tiny 3)\<^sup>*\<^sup>* (tcp_init tiny) c" "\<nexists>d. tcp_step tiny 3 c d"
    using tcp_ring.reaches_stuck [OF tiny_start] by blast
  have "get_float (buf (t_mem c 0)) 1 = [3, 3, 3, 3]"
    using tcp_allreduce_correct [OF tiny_ok _ c, of 0 1 0]
    by (simp add: tiny_def tiny_add_def get_float_def window_def sizeof_float_def eval_nat_numeral)
  with c show ?thesis by blast
qed

text \<open>
  C3. It cannot deadlock: from every configuration a run reaches, either all ranks are done
  or some rank can move, however small the socket buffers; even ranks sending first is what
  this rests on.
\<close>

theorem tcp_no_deadlock:
  assumes "ring_ok I" and "0 < cap" and "(tcp_step I cap)\<^sup>*\<^sup>* (tcp_init I) c"
  shows "tcp_finished I c \<or> (\<exists>d. tcp_step I cap c d)"
proof -
  have "tcp_start I cap (tcp_init I)" using assms(1,2) by (simp add: tcp_start_def)
  from tcp_ring.reach_good [OF this assms(3)] tcp_ring.progress show ?thesis by blast
qed

theorem tcp_no_deadlock_witness: "tcp_finished tiny (tcp_init tiny) \<or> (\<exists>d. tcp_step tiny 1 (tcp_init tiny) d)"
  by (rule tcp_no_deadlock [OF tiny_ok]) auto

end
