(* ===== verification/Ring_Rdma.thy ===== *)
theory Ring_Rdma
  imports Ring_Tcp
begin

text \<open>
  The ring all-reduce over transports whose receives only post a work request. Sends and
  receives are queued; the fabric matches the oldest undelivered send of a link with the
  oldest posted receive at its far end, reads the sender's memory at that moment and not
  when the send was posted, writes it to the receiver's memory, and leaves a completion on
  both sides. A send that finds no receive waits, as with unlimited receiver-not-ready
  retries. This is the model in which the order of the calls in \<open>ring_posted\<close> matters:
  the next receive is up while the previous half of \<open>stage\<close> is being summed and while the
  send of the step may still be reading \<open>buf\<close>.
\<close>

section \<open>Definitions\<close>

type_synonym wr = "bufsel \<times> u64 \<times> u64"   \<comment> \<open>handle, length, offset\<close>

record rdma_cfg =
  p_pos :: "nat \<Rightarrow> nat"
  p_mem :: "nat \<Rightarrow> arrays"
  p_sq :: "nat \<Rightarrow> wr list"    \<comment> \<open>sends posted to the right and not yet delivered\<close>
  p_rq :: "nat \<Rightarrow> wr list"    \<comment> \<open>receives posted to the left and not yet consumed\<close>
  p_scq :: "nat \<Rightarrow> nat"       \<comment> \<open>send completions waiting to be polled\<close>
  p_rcq :: "nat \<Rightarrow> nat"       \<comment> \<open>receive completions waiting to be polled\<close>

definition advance :: "nat \<Rightarrow> rdma_cfg \<Rightarrow> rdma_cfg" where
  "advance r c = c\<lparr>p_pos := (p_pos c)(r := Suc (p_pos c r))\<rparr>"

definition rdma_act :: "ring_inst \<Rightarrow> rdma_cfg \<Rightarrow> nat \<Rightarrow> act option" where
  "rdma_act I c r =
     (if r < ri_N I \<and> p_pos c r < length (posted_of I r) then Some (posted_of I r ! p_pos c r)
      else None)"

text \<open>A request moves its whole length; what the 32 bits of a real request leave of it is the subject of \<open>posted_length_fits\<close>.\<close>

inductive rdma_step :: "ring_inst \<Rightarrow> rdma_cfg \<Rightarrow> rdma_cfg \<Rightarrow> bool" for I where
  rdma_send: "rdma_act I c r = Some (SendRight h len i off) \<Longrightarrow>
     unat off + unat len \<le> length (sel h (p_mem c r)) \<Longrightarrow>
     rdma_step I c (advance r (c\<lparr>p_sq := (p_sq c)(r := p_sq c r @ [(h, len, off)])\<rparr>))"
| rdma_recv: "rdma_act I c r = Some (RecvLeft h len i off) \<Longrightarrow>
     unat off + unat len \<le> length (sel h (p_mem c r)) \<Longrightarrow>
     rdma_step I c (advance r (c\<lparr>p_rq := (p_rq c)(r := p_rq c r @ [(h, len, off)])\<rparr>))"
| rdma_deliver: "r < ri_N I \<Longrightarrow> q = right_of (ri_N I) r \<Longrightarrow>
     p_sq c r = (h, len, off) # ws \<Longrightarrow> p_rq c q = (h', len', off') # vs \<Longrightarrow> unat len \<le> unat len' \<Longrightarrow>
     rdma_step I c (c\<lparr>
       p_mem := (p_mem c)(q := put_sel h'
         (overwrite (unat off') (window (unat off) (unat len) (sel h (p_mem c r))) (sel h' (p_mem c q)))
         (p_mem c q)),
       p_sq := (p_sq c)(r := ws), p_rq := (p_rq c)(q := vs),
       p_scq := (p_scq c)(r := Suc (p_scq c r)), p_rcq := (p_rcq c)(q := Suc (p_rcq c q))\<rparr>)"
| rdma_poll_left: "rdma_act I c r = Some PollLeft \<Longrightarrow> p_rcq c r = Suc n \<Longrightarrow>
     rdma_step I c (advance r (c\<lparr>p_rcq := (p_rcq c)(r := n)\<rparr>))"
| rdma_poll_right: "rdma_act I c r = Some PollRight \<Longrightarrow> p_scq c r = Suc n \<Longrightarrow>
     rdma_step I c (advance r (c\<lparr>p_scq := (p_scq c)(r := n)\<rparr>))"
| rdma_add: "rdma_act I c r = Some (AddChunk dst src n) \<Longrightarrow>
     rdma_step I c (advance r (c\<lparr>p_mem := (p_mem c)(r := add_chunk (ri_fadd I) dst src n (p_mem c r))\<rparr>))"
| rdma_skip: "rdma_act I c r = Some Skip \<Longrightarrow> rdma_step I c (advance r c)"

definition rdma_init :: "ring_inst \<Rightarrow> rdma_cfg" where
  "rdma_init I = \<lparr>p_pos = (\<lambda>_. 0), p_mem = ri_init I, p_sq = (\<lambda>_. []), p_rq = (\<lambda>_. []),
     p_scq = (\<lambda>_. 0), p_rcq = (\<lambda>_. 0)\<rparr>"

definition rdma_start :: "ring_inst \<Rightarrow> rdma_cfg \<Rightarrow> bool" where
  "rdma_start I c \<longleftrightarrow> ring_ok I \<and> c = rdma_init I"

definition rdma_finished :: "ring_inst \<Rightarrow> rdma_cfg \<Rightarrow> bool" where
  "rdma_finished I c \<longleftrightarrow> (\<forall>r < ri_N I. p_pos c r = length (posted_of I r))"

text \<open>Counters of a rank at a position: sends posted, receives posted, completions polled.\<close>

definition n_sent :: "nat \<Rightarrow> nat" where
  "n_sent p = (p - 1) div 5 + (if 0 < p \<and> 1 \<le> (p - 1) mod 5 then 1 else 0)"

definition n_rposted :: "nat \<Rightarrow> nat \<Rightarrow> nat" where
  "n_rposted steps p = (if p = 0 then 0 else min steps ((p - 1) div 5 + 1 + (if 3 \<le> (p - 1) mod 5 then 1 else 0)))"

definition n_lpolled :: "nat \<Rightarrow> nat" where
  "n_lpolled p = (p - 1) div 5 + (if 0 < p \<and> 2 \<le> (p - 1) mod 5 then 1 else 0)"

definition n_rpolled :: "nat \<Rightarrow> nat" where
  "n_rpolled p = (p - 1) div 5 + (if 0 < p \<and> 4 \<le> (p - 1) mod 5 then 1 else 0)"

definition delivered :: "rdma_cfg \<Rightarrow> nat \<Rightarrow> nat" where
  "delivered c r = n_rpolled (p_pos c r) + p_scq c r"

definition send_wr :: "ring_inst \<Rightarrow> nat \<Rightarrow> nat \<Rightarrow> wr" where
  "send_wr I r j = (R_H, chunk_bytes I, off_of I (int (snd_ix (ri_N I) r j)))"

definition recv_wr :: "ring_inst \<Rightarrow> nat \<Rightarrow> nat \<Rightarrow> wr" where
  "recv_wr I r j =
     (if j < ri_N I - 1 then (Stage_H, chunk_bytes I, off_of I (int (j mod 2)))
      else (L_H, chunk_bytes I, off_of I (int (rcv_ix (ri_N I) r j))))"

definition pmem_ok :: "ring_inst \<Rightarrow> nat \<Rightarrow> nat \<Rightarrow> nat \<Rightarrow> arrays \<Rightarrow> bool" where
  "pmem_ok I r s landed m \<longleftrightarrow>
     length (buf m) = ri_N I * ri_L I \<and> length (stage m) = 2 * ri_L I \<and>
     (\<forall>c < ri_N I. chunk_of I c (buf m) = chunk_val I r c (min s (ri_N I - 1)) landed) \<and>
     (\<forall>j. s \<le> j \<and> j < landed \<and> j < ri_N I - 1 \<longrightarrow>
        window ((j mod 2) * ri_L I) (ri_L I) (stage m) = msg I (left_of (ri_N I) r) j)"

definition link_ok :: "ring_inst \<Rightarrow> rdma_cfg \<Rightarrow> nat \<Rightarrow> bool" where
  "link_ok I c r \<longleftrightarrow>
     (let q = right_of (ri_N I) r; d = delivered c r
      in d \<le> n_sent (p_pos c r) \<and> p_sq c r = map (send_wr I r) [d..<n_sent (p_pos c r)] \<and>
         n_lpolled (p_pos c q) \<le> d \<and> p_rcq c q = d - n_lpolled (p_pos c q) \<and>
         d \<le> n_rposted (ri_steps I) (p_pos c q) \<and>
         p_rq c q = map (recv_wr I q) [d..<n_rposted (ri_steps I) (p_pos c q)])"

definition rdma_good :: "ring_inst \<Rightarrow> rdma_cfg \<Rightarrow> bool" where
  "rdma_good I c \<longleftrightarrow> ring_ok I \<and>
     (\<forall>r < ri_N I. p_pos c r \<le> Suc (ri_steps I * 5) \<and> link_ok I c r \<and>
        pmem_ok I r ((p_pos c r - 1) div 5) (delivered c (left_of (ri_N I) r)) (p_mem c r))"

definition rdma_work :: "ring_inst \<Rightarrow> rdma_cfg \<Rightarrow> nat" where
  "rdma_work I c = (\<Sum>r < ri_N I. (Suc (ri_steps I * 5) - p_pos c r) + (ri_steps I - delivered c r))"

section \<open>The calls of the program\<close>

lemma posted_body_eq:
  assumes "ring_ok I" and "r < ri_N I" and "s < ri_steps I"
  shows "posted_body (int (ri_N I)) (int r) (ri_chunk I) (int s) =
    [SendRight R_H (chunk_bytes I) (word_of_int (int s)) (off_of I (int (snd_ix (ri_N I) r s))),
     PollLeft,
     if s + 1 < ri_steps I then post_recv (int (ri_N I)) (int r) (ri_chunk I) (int (s + 1)) else Skip,
     PollRight,
     if s < ri_N I - 1
     then AddChunk (word_of_int (int (rcv_ix (ri_N I) r s)) * ri_chunk I)
       (word_of_int (int (s mod 2)) * ri_chunk I) (ri_chunk I)
     else Skip]"
proof -
  have N: "2 \<le> ri_N I" using assms(1) by (rule ring_okD)
  have "(int s < int (ri_N I) - 1) = (s < ri_N I - 1)"
    "(int s + 1 < 2 * (int (ri_N I) - 1)) = (s + 1 < ri_steps I)" using N by (simp_all, linarith+)
  then show ?thesis
    using assms N
    by (simp add: posted_body_def Let_def send_chunk_int recv_chunk_int off_of_def chunk_bytes_def
        add.commute zmod_int)
qed

lemma post_recv_eq:
  assumes "ring_ok I" and "r < ri_N I" and "s < ri_steps I" and "recv_wr I r s = (h, len, off)"
  shows "post_recv (int (ri_N I)) (int r) (ri_chunk I) (int s) = RecvLeft h len (word_of_int (int s)) off"
proof -
  have N: "2 \<le> ri_N I" using assms(1) by (rule ring_okD)
  have "(int s < int (ri_N I) - 1) = (s < ri_N I - 1)" using N by linarith
  then show ?thesis
    using assms N
    by (auto simp: post_recv_def Let_def recv_chunk_int off_of_def chunk_bytes_def recv_wr_def zmod_int
        split: if_splits)
qed

lemma rdma_act_cases:
  assumes "ring_ok I" and "rdma_act I c r = Some a"
  obtains (First) h len off where "r < ri_N I" "p_pos c r = 0" "recv_wr I r 0 = (h, len, off)"
      "a = RecvLeft h len 0 off"
    | (Send) s where "r < ri_N I" "s < ri_steps I" "p_pos c r = Suc (s * 5)"
      "a = SendRight R_H (chunk_bytes I) (word_of_int (int s)) (off_of I (int (snd_ix (ri_N I) r s)))"
    | (PollL) s where "r < ri_N I" "s < ri_steps I" "p_pos c r = Suc (s * 5 + 1)" "a = PollLeft"
    | (Post) s h len off where "r < ri_N I" "Suc s < ri_steps I" "p_pos c r = Suc (s * 5 + 2)"
      "recv_wr I r (Suc s) = (h, len, off)" "a = RecvLeft h len (word_of_int (int (Suc s))) off"
    | (NoPost) s where "r < ri_N I" "Suc s = ri_steps I" "p_pos c r = Suc (s * 5 + 2)" "a = Skip"
    | (PollR) s where "r < ri_N I" "s < ri_steps I" "p_pos c r = Suc (s * 5 + 3)" "a = PollRight"
    | (Add) s where "r < ri_N I" "s < ri_N I - 1" "p_pos c r = Suc (s * 5 + 4)"
      "a = AddChunk (word_of_int (int (rcv_ix (ri_N I) r s)) * ri_chunk I)
         (word_of_int (int (s mod 2)) * ri_chunk I) (ri_chunk I)"
    | (NoAdd) s where "r < ri_N I" "s < ri_steps I" "ri_N I - 1 \<le> s" "p_pos c r = Suc (s * 5 + 4)" "a = Skip"
proof -
  have r: "r < ri_N I" and p: "p_pos c r < Suc (ri_steps I * 5)" and a: "a = posted_of I r ! p_pos c r"
    using assms by (auto simp: rdma_act_def length_posted_of split: if_splits)
  have N: "2 \<le> ri_N I" using assms(1) by (rule ring_okD)
  show thesis
  proof (cases "p_pos c r")
    case 0
    obtain h len off where w: "recv_wr I r 0 = (h, len, off)" using prod_cases3 by blast
    have "0 < ri_steps I" using N by simp
    from post_recv_eq [OF assms(1) r this w] have "a = RecvLeft h len 0 off"
      using a 0 by (simp add: posted_of_def posted_program_def)
    with First r 0 w show thesis by blast
  next
    case (Suc p')
    define s ph where "s = p' div 5" and "ph = p' mod 5"
    have p': "p' = s * 5 + ph" and ph: "ph < 5" by (simp_all add: s_def ph_def)
    have s: "s < ri_steps I" using p Suc unfolding s_def by (intro pos_bound) simp
    have av: "a = posted_body (int (ri_N I)) (int r) (ri_chunk I) (int s) ! ph"
      using a Suc p' posted_of_nth [OF assms(1) s ph, of r] by simp
    consider "ph = 0" | "ph = 1" | "ph = 2" | "ph = 3" | "ph = 4" using ph by linarith
    then show thesis
    proof cases
      case 1
      with av show thesis using Send [OF r s] Suc p' by (simp add: posted_body_eq [OF assms(1) r s])
    next
      case 2
      with av show thesis using PollL [OF r s] Suc p' by (simp add: posted_body_eq [OF assms(1) r s])
    next
      case 3
      obtain h len off where w: "recv_wr I r (Suc s) = (h, len, off)" using prod_cases3 by blast
      show thesis
      proof (cases "Suc s < ri_steps I")
        case True
        have "a = RecvLeft h len (word_of_int (int (Suc s))) off"
          using av 3 True post_recv_eq [OF assms(1) r True w] by (simp add: posted_body_eq [OF assms(1) r s])
        with Post [OF r True _ w] Suc p' 3 show thesis by simp
      next
        case False
        with s have e: "Suc s = ri_steps I" by simp
        have "a = Skip" using av 3 False by (simp add: posted_body_eq [OF assms(1) r s])
        with NoPost [OF r e] Suc p' 3 show thesis by simp
      qed
    next
      case 4
      with av show thesis using PollR [OF r s] Suc p' by (simp add: posted_body_eq [OF assms(1) r s])
    next
      case 5
      with av show thesis using Add [OF r] NoAdd [OF r s] Suc p'
        by (cases "s < ri_N I - 1") (simp_all add: posted_body_eq [OF assms(1) r s])
    qed
  qed
qed

section \<open>Counting along the program\<close>

lemma counters_0 [simp]:
  "n_sent 0 = 0" "n_rposted t 0 = 0" "n_lpolled 0 = 0" "n_rpolled 0 = 0"
  by (simp_all add: n_sent_def n_rposted_def n_lpolled_def n_rpolled_def)

lemma counters_at:
  assumes "ph < 5"
  shows "n_sent (Suc (s * 5 + ph)) = (if 1 \<le> ph then Suc s else s)"
    and "n_rposted t (Suc (s * 5 + ph)) = min t (if 3 \<le> ph then s + 2 else Suc s)"
    and "n_lpolled (Suc (s * 5 + ph)) = (if 2 \<le> ph then Suc s else s)"
    and "n_rpolled (Suc (s * 5 + ph)) = (if 4 \<le> ph then Suc s else s)"
    and "(Suc (s * 5 + ph) - 1) div 5 = s"
  using assms by (simp_all add: n_sent_def n_rposted_def n_lpolled_def n_rpolled_def)

lemma counters_end:
  "n_sent (Suc (Suc (s * 5 + 4))) = Suc s" "n_rposted t (Suc (Suc (s * 5 + 4))) = min t (s + 2)"
  "n_lpolled (Suc (Suc (s * 5 + 4))) = Suc s" "n_rpolled (Suc (Suc (s * 5 + 4))) = Suc s"
  "(Suc (Suc (s * 5 + 4)) - 1) div 5 = Suc s"
  using counters_at [where ph = 0 and s = "Suc s"] by simp_all

lemma counters_1:
  "n_sent (Suc 0) = 0" "n_rposted t (Suc 0) = min t 1" "n_lpolled (Suc 0) = 0" "n_rpolled (Suc 0) = 0"
  by (simp_all add: n_sent_def n_rposted_def n_lpolled_def n_rpolled_def)

lemma counters_suc:
  "n_sent (Suc (Suc (Suc (Suc (s * 5))))) = Suc s" "n_rposted t (Suc (Suc (Suc (Suc (s * 5))))) = min t (s + 2)"
  "n_lpolled (Suc (Suc (Suc (Suc (s * 5))))) = Suc s" "n_rpolled (Suc (Suc (Suc (Suc (s * 5))))) = s"
  "Suc (Suc (Suc (s * 5))) div 5 = s"
  "n_sent (Suc (Suc (s * 5 + 3))) = Suc s" "n_rposted t (Suc (Suc (s * 5 + 3))) = min t (s + 2)"
  "n_lpolled (Suc (Suc (s * 5 + 3))) = Suc s" "n_rpolled (Suc (Suc (s * 5 + 3))) = Suc s"
  "Suc (s * 5 + 3) div 5 = s"
proof -
  have e: "Suc (Suc (Suc (Suc (s * 5)))) = Suc (s * 5 + 3)" "Suc (Suc (s * 5 + 3)) = Suc (s * 5 + 4)"
    "Suc (Suc (Suc (s * 5))) = s * 5 + 3" "Suc (s * 5 + 3) = s * 5 + 4"
    by simp_all
  show "n_sent (Suc (Suc (Suc (Suc (s * 5))))) = Suc s" "n_rposted t (Suc (Suc (Suc (Suc (s * 5))))) = min t (s + 2)"
    "n_lpolled (Suc (Suc (Suc (Suc (s * 5))))) = Suc s" "n_rpolled (Suc (Suc (Suc (Suc (s * 5))))) = s"
    unfolding e(1) using counters_at [where ph = 3 and s = s] by simp_all
  show "n_sent (Suc (Suc (s * 5 + 3))) = Suc s" "n_rposted t (Suc (Suc (s * 5 + 3))) = min t (s + 2)"
    "n_lpolled (Suc (Suc (s * 5 + 3))) = Suc s" "n_rpolled (Suc (Suc (s * 5 + 3))) = Suc s"
    unfolding e(2) using counters_at [where ph = 4 and s = s] by simp_all
  show "Suc (Suc (Suc (s * 5))) div 5 = s" "Suc (s * 5 + 3) div 5 = s"
    unfolding e(3,4) by simp_all
qed

lemmas counters = counters_1 counters_at [of 0, simplified] counters_at [of 1, simplified] counters_at [of 2, simplified]
  counters_at [of 3, simplified] counters_at [of 4, simplified] counters_end [simplified] counters_suc

lemma counters_finish:
  "n_sent (Suc (t * 5)) = t" "n_lpolled (Suc (t * 5)) = t" "n_rposted t (Suc (t * 5)) = t"
  using counters_at [where ph = 0 and s = t] by simp_all

lemma counters_bounds:
  "n_rpolled p \<le> n_lpolled p" "n_lpolled p \<le> n_sent p" "n_sent p \<le> Suc (n_rpolled p)"
  "(p - 1) div 5 \<le> n_rpolled p" "n_rposted t p \<le> (p - 1) div 5 + 2" "n_sent p \<le> Suc ((p - 1) div 5)"
  by (auto simp: n_sent_def n_rposted_def n_lpolled_def n_rpolled_def)

lemma n_sent_between: "(p - 1) mod 5 = 0 \<Longrightarrow> n_sent p = (p - 1) div 5"
  by (simp only: n_sent_def) simp

section \<open>Steps of a rank keep the invariant\<close>

lemma rdma_goodD:
  assumes "rdma_good I c"
  shows "ring_ok I" "r < ri_N I \<Longrightarrow> p_pos c r \<le> Suc (ri_steps I * 5)"
    "r < ri_N I \<Longrightarrow> link_ok I c r"
    "r < ri_N I \<Longrightarrow> pmem_ok I r ((p_pos c r - 1) div 5) (delivered c (left_of (ri_N I) r)) (p_mem c r)"
  using assms by (auto simp: rdma_good_def)

text \<open>What the two links of a rank say about it.\<close>

lemma rank_links:
  assumes "rdma_good I c" and "r < ri_N I"
  shows "delivered c r \<le> n_sent (p_pos c r)"
    and "p_sq c r = map (send_wr I r) [delivered c r..<n_sent (p_pos c r)]"
    and "n_lpolled (p_pos c r) \<le> delivered c (left_of (ri_N I) r)"
    and "p_rcq c r = delivered c (left_of (ri_N I) r) - n_lpolled (p_pos c r)"
    and "delivered c (left_of (ri_N I) r) \<le> n_rposted (ri_steps I) (p_pos c r)"
    and "p_rq c r = map (recv_wr I r) [delivered c (left_of (ri_N I) r)..<n_rposted (ri_steps I) (p_pos c r)]"
proof -
  have l: "left_of (ri_N I) r < ri_N I" using assms(2) by (intro left_of_less) simp
  show "delivered c r \<le> n_sent (p_pos c r)"
    "p_sq c r = map (send_wr I r) [delivered c r..<n_sent (p_pos c r)]"
    using rdma_goodD(3) [OF assms] by (auto simp: link_ok_def Let_def)
  show "n_lpolled (p_pos c r) \<le> delivered c (left_of (ri_N I) r)"
    "p_rcq c r = delivered c (left_of (ri_N I) r) - n_lpolled (p_pos c r)"
    "delivered c (left_of (ri_N I) r) \<le> n_rposted (ri_steps I) (p_pos c r)"
    "p_rq c r = map (recv_wr I r) [delivered c (left_of (ri_N I) r)..<n_rposted (ri_steps I) (p_pos c r)]"
    using rdma_goodD(3) [OF assms(1) l] assms(2) by (auto simp: link_ok_def Let_def)
qed

definition only_at :: "nat \<Rightarrow> rdma_cfg \<Rightarrow> rdma_cfg \<Rightarrow> bool" where
  "only_at r c d \<longleftrightarrow> p_pos d = (p_pos c)(r := Suc (p_pos c r)) \<and>
     (\<forall>q. q \<noteq> r \<longrightarrow> p_mem d q = p_mem c q \<and> p_sq d q = p_sq c q \<and> p_rq d q = p_rq c q \<and>
        p_scq d q = p_scq c q \<and> p_rcq d q = p_rcq c q)"

text \<open>What a call touches, against the sizes of \<open>buf\<close> and \<open>stage\<close>.\<close>

definition act_in_bounds :: "nat \<Rightarrow> nat \<Rightarrow> act \<Rightarrow> bool" where
  "act_in_bounds lbuf lstage a = (case a of
     SendRight h len i off \<Rightarrow> unat off + unat len \<le> (if h = Stage_H then lstage else lbuf)
   | RecvLeft h len i off \<Rightarrow> unat off + unat len \<le> (if h = Stage_H then lstage else lbuf)
   | AddChunk dst src n \<Rightarrow> sizeof_float * (unat dst + unat n) \<le> lbuf \<and> sizeof_float * (unat src + unat n) \<le> lstage
   | _ \<Rightarrow> True)"

lemma chunk_in_bounds:
  "ring_ok I \<Longrightarrow> c < ri_N I \<Longrightarrow> unat (off_of I (int c)) + unat (chunk_bytes I) \<le> ri_N I * ri_L I"
  by (simp add: unat_off_of unat_chunk_bytes chunk_bound)

lemma stage_in_bounds:
  assumes "ring_ok I" and "k < 2"
  shows "unat (off_of I (int k)) + unat (chunk_bytes I) \<le> 2 * ri_L I"
  using assms ring_okD(1) [OF assms(1)] chunk_bound [OF assms(2), of "ri_L I"]
  by (simp add: unat_off_of unat_chunk_bytes)

lemma recv_wr_in_bounds:
  assumes "ring_ok I" and "r < ri_N I" and "j < ri_steps I" and "recv_wr I r j = (h, len, off)"
  shows "unat off + unat len \<le> (if h = Stage_H then 2 * ri_L I else ri_N I * ri_L I)"
  using assms chunk_in_bounds [OF assms(1) rcv_ix_less [OF ring_okD(1) [OF assms(1)] assms(2,3)]]
    stage_in_bounds [OF assms(1), of "j mod 2"]
  by (auto simp: recv_wr_def split: if_splits)

lemma add_in_bounds:
  assumes "ring_ok I" and "c < ri_N I" and "k < 2"
  shows "sizeof_float * (unat (word_of_int (int c) * ri_chunk I) + ri_n I) \<le> ri_N I * ri_L I \<and>
    sizeof_float * (unat (word_of_int (int k) * ri_chunk I) + ri_n I) \<le> 2 * ri_L I"
proof -
  have k: "k < ri_N I" using assms(3) ring_okD(1) [OF assms(1)] by linarith
  have "sizeof_float * (x * ri_n I + ri_n I) = x * ri_L I + ri_L I" for x
    by (simp add: ri_L_def algebra_simps)
  then show ?thesis
    using unat_chunk_index [OF assms(1,2)] unat_chunk_index [OF assms(1) k]
      chunk_bound [OF assms(2), of "ri_L I"] chunk_bound [OF assms(3), of "ri_L I"] by simp
qed

text \<open>A step that keeps the invariant and uses up some of the work.\<close>

definition rdma_better :: "ring_inst \<Rightarrow> rdma_cfg \<Rightarrow> rdma_cfg \<Rightarrow> bool" where
  "rdma_better I c d \<longleftrightarrow> rdma_good I d \<and> rdma_work I d < rdma_work I c"

lemma rdma_good_local:
  assumes good: "rdma_good I c" and r: "r < ri_N I" and b: "p_pos c r < Suc (ri_steps I * 5)"
    and d: "only_at r c d" and D: "D = delivered c (left_of (ri_N I) r)"
    and del: "n_rpolled (Suc (p_pos c r)) + p_scq d r = delivered c r"
    and snd: "delivered c r \<le> n_sent (Suc (p_pos c r))"
      "p_sq d r = map (send_wr I r) [delivered c r..<n_sent (Suc (p_pos c r))]"
    and rcv: "n_lpolled (Suc (p_pos c r)) \<le> D" "p_rcq d r = D - n_lpolled (Suc (p_pos c r))"
      "D \<le> n_rposted (ri_steps I) (Suc (p_pos c r))"
      "p_rq d r = map (recv_wr I r) [D..<n_rposted (ri_steps I) (Suc (p_pos c r))]"
    and mem: "pmem_ok I r ((Suc (p_pos c r) - 1) div 5) D (p_mem d r)"
  shows "rdma_better I c d"
proof -
  note g = rdma_goodD [OF good]
  have N: "2 \<le> ri_N I" using g(1) by (rule ring_okD)
  have del': "delivered d q = delivered c q" for q
    using del d by (cases "q = r") (auto simp: delivered_def only_at_def)
  have link: "link_ok I d q" if q: "q < ri_N I" for q
  proof -
    have lr: "left_of (ri_N I) (right_of (ri_N I) q) = q" using q by simp
    note lk = g(3) [OF q]
    have 1: "delivered c q \<le> n_sent (p_pos d q) \<and>
        p_sq d q = map (send_wr I q) [delivered c q..<n_sent (p_pos d q)]"
      using lk d snd by (cases "q = r") (auto simp: link_ok_def Let_def only_at_def)
    have 2: "n_lpolled (p_pos d (right_of (ri_N I) q)) \<le> delivered c q \<and>
        p_rcq d (right_of (ri_N I) q) = delivered c q - n_lpolled (p_pos d (right_of (ri_N I) q)) \<and>
        delivered c q \<le> n_rposted (ri_steps I) (p_pos d (right_of (ri_N I) q)) \<and>
        p_rq d (right_of (ri_N I) q) = map (recv_wr I (right_of (ri_N I) q))
          [delivered c q..<n_rposted (ri_steps I) (p_pos d (right_of (ri_N I) q))]"
    proof (cases "right_of (ri_N I) q = r")
      case True
      with lr have "D = delivered c q" using D by simp
      with True d rcv show ?thesis by (simp add: only_at_def)
    next
      case False
      with lk d show ?thesis by (simp add: link_ok_def Let_def only_at_def)
    qed
    from 1 2 show ?thesis unfolding link_ok_def Let_def del' by simp
  qed
  have "pmem_ok I q ((p_pos d q - 1) div 5) (delivered d (left_of (ri_N I) q)) (p_mem d q) \<and>
      p_pos d q \<le> Suc (ri_steps I * 5)" if "q < ri_N I" for q
    using g(2,4) [OF that] d mem D b by (cases "q = r") (simp_all add: del' only_at_def)
  with link g(1) have "rdma_good I d" by (simp add: rdma_good_def)
  moreover have "rdma_work I d < rdma_work I c"
    unfolding rdma_work_def by (rule sum_decreases [OF r]) (use b d in \<open>auto simp: del' only_at_def\<close>)
  ultimately show ?thesis by (simp add: rdma_better_def)
qed

lemma upt_snoc: "i \<le> j \<Longrightarrow> map f [i..<Suc j] = map f [i..<j] @ [f j]"
  by simp

lemma min_next: "Suc s < t \<Longrightarrow> min t (s + 2) = Suc (min t (Suc s)) \<and> min t (Suc s) = Suc s"
  by simp

lemma pmem_ok_add:
  assumes "ring_ok I" and "r < ri_N I" and "s < ri_N I - 1" and "Suc s \<le> D" and "D \<le> s + 2"
    and "pmem_ok I r s D m"
  shows "pmem_ok I r (Suc s) D (add_chunk (ri_fadd I) (word_of_int (int (rcv_ix (ri_N I) r s)) * ri_chunk I)
    (word_of_int (int (s mod 2)) * ri_chunk I) (ri_chunk I) m)"
proof -
  let ?c = "rcv_ix (ri_N I) r s" and ?M = "msg I (left_of (ri_N I) r) s"
  let ?m = "add_chunk (ri_fadd I) (word_of_int (int ?c) * ri_chunk I)
    (word_of_int (int (s mod 2)) * ri_chunk I) (ri_chunk I) m"
  have N: "2 \<le> ri_N I" using assms(1) by (rule ring_okD)
  have s: "s < ri_steps I" using assms(3) by simp
  have c: "?c < ri_N I" by (rule rcv_ix_less [OF N assms(2) s])
  have lb: "length (buf m) = ri_N I * ri_L I" using assms(6) by (simp add: pmem_ok_def)
  have "s mod 2 < 2" by simp
  then have "s mod 2 < ri_N I" using N by linarith
  note u = unat_chunk_index [OF assms(1) this]
  have st: "window ((s mod 2) * ri_L I) (ri_L I) (stage m) = ?M"
    using assms(3,4,6) by (simp add: pmem_ok_def)
  note add = add_chunk_chunks [OF assms(1) c lb u]
  have old: "chunk_of I d (buf m) = chunk_val I r d s D" if "d < ri_N I" for d
    using that assms(3,6) by (simp add: pmem_ok_def min_def)
  have "chunk_of I d (buf ?m) = chunk_val I r d (min (Suc s) (ri_N I - 1)) D" if "d < ri_N I" for d
    unfolding add(3) [OF that] st min_absorb1 [OF Suc_leI [OF assms(3)]]
      chunk_val_add [OF assms(1,2) that assms(3,5)] old [OF that] old [OF c] by simp
  then show ?thesis using assms(6) add(1,2) by (simp add: pmem_ok_def)
qed

lemma pmem_ok_next:
  assumes "ri_N I - 1 \<le> s" and "pmem_ok I r s D m"
  shows "pmem_ok I r (Suc s) D m"
  using assms by (auto simp: pmem_ok_def)

lemma rdma_act_bound:
  assumes "rdma_good I c" and "rdma_act I c r = Some a"
  shows "r < ri_N I" and "p_pos c r < Suc (ri_steps I * 5)"
  using assms rdma_goodD(1) [OF assms(1)]
  by (auto simp: rdma_act_def length_posted_of split: if_splits)

lemma rdma_good_send:
  assumes good: "rdma_good I c" and act: "rdma_act I c r = Some (SendRight h len i off)"
  shows "rdma_better I c (advance r (c\<lparr>p_sq := (p_sq c)(r := p_sq c r @ [(h, len, off)])\<rparr>))"
proof -
  note g = rdma_goodD [OF good] and b = rdma_act_bound [OF good act]
  note lk = rank_links [OF good b(1)] and mem = g(4) [OF b(1)]
  note loc = rdma_good_local [OF good b, where D = "delivered c (left_of (ri_N I) r)"]
  from g(1) act show ?thesis
  proof (cases rule: rdma_act_cases)
    case (Send s)
    then have "(h, len, off) = send_wr I r s" by (simp add: send_wr_def)
    then show ?thesis by (intro loc) (use lk mem Send in \<open>auto simp: advance_def counters delivered_def only_at_def\<close>)
  qed simp_all
qed

lemma rdma_good_recv:
  assumes good: "rdma_good I c" and act: "rdma_act I c r = Some (RecvLeft h len i off)"
  shows "rdma_better I c (advance r (c\<lparr>p_rq := (p_rq c)(r := p_rq c r @ [(h, len, off)])\<rparr>))"
proof -
  note g = rdma_goodD [OF good] and b = rdma_act_bound [OF good act]
  note lk = rank_links [OF good b(1)] and mem = g(4) [OF b(1)]
  note loc = rdma_good_local [OF good b, where D = "delivered c (left_of (ri_N I) r)"]
  from g(1) act show ?thesis
  proof (cases rule: rdma_act_cases)
    case First
    then show ?thesis by (intro loc) (use lk mem First ring_okD(1) [OF g(1)] in \<open>auto simp: advance_def counters delivered_def only_at_def\<close>)
  next
    case (Post s)
    then show ?thesis by (intro loc) (use lk mem Post min_next [OF Post(2)] in \<open>auto simp: advance_def counters delivered_def only_at_def\<close>)
  qed simp_all
qed

lemma rdma_good_poll_left:
  assumes good: "rdma_good I c" and act: "rdma_act I c r = Some PollLeft" and n: "p_rcq c r = Suc n"
  shows "rdma_better I c (advance r (c\<lparr>p_rcq := (p_rcq c)(r := n)\<rparr>))"
proof -
  note g = rdma_goodD [OF good] and b = rdma_act_bound [OF good act]
  note lk = rank_links [OF good b(1)] and mem = g(4) [OF b(1)]
  note loc = rdma_good_local [OF good b, where D = "delivered c (left_of (ri_N I) r)"]
  from g(1) act show ?thesis
  proof (cases rule: rdma_act_cases)
    case (PollL s)
    then show ?thesis by (intro loc) (use lk mem PollL n in \<open>auto simp: advance_def counters delivered_def only_at_def\<close>)
  qed simp_all
qed

lemma rdma_good_poll_right:
  assumes good: "rdma_good I c" and act: "rdma_act I c r = Some PollRight" and n: "p_scq c r = Suc n"
  shows "rdma_better I c (advance r (c\<lparr>p_scq := (p_scq c)(r := n)\<rparr>))"
proof -
  note g = rdma_goodD [OF good] and b = rdma_act_bound [OF good act]
  note lk = rank_links [OF good b(1)] and mem = g(4) [OF b(1)]
  note loc = rdma_good_local [OF good b, where D = "delivered c (left_of (ri_N I) r)"]
  from g(1) act show ?thesis
  proof (cases rule: rdma_act_cases)
    case (PollR s)
    then show ?thesis by (intro loc) (use lk mem PollR n in \<open>auto simp: advance_def counters delivered_def only_at_def\<close>)
  qed simp_all
qed

lemma rdma_good_add:
  assumes good: "rdma_good I c" and act: "rdma_act I c r = Some (AddChunk dst src m)"
  shows "rdma_better I c (advance r (c\<lparr>p_mem := (p_mem c)(r := add_chunk (ri_fadd I) dst src m (p_mem c r))\<rparr>))"
proof -
  note g = rdma_goodD [OF good] and b = rdma_act_bound [OF good act]
  note lk = rank_links [OF good b(1)] and mem = g(4) [OF b(1)]
  note loc = rdma_good_local [OF good b, where D = "delivered c (left_of (ri_N I) r)"]
  from g(1) act show ?thesis
  proof (cases rule: rdma_act_cases)
    case (Add s)
    have "pmem_ok I r (Suc s) (delivered c (left_of (ri_N I) r)) (add_chunk (ri_fadd I) dst src m (p_mem c r))"
      using pmem_ok_add [OF g(1) b(1) Add(2)] lk(3,5) mem Add by (auto simp: counters)
    then show ?thesis by (intro loc) (use lk Add in \<open>auto simp: advance_def counters delivered_def only_at_def\<close>)
  qed simp_all
qed

lemma rdma_good_skip:
  assumes good: "rdma_good I c" and act: "rdma_act I c r = Some Skip"
  shows "rdma_better I c (advance r c)"
proof -
  note g = rdma_goodD [OF good] and b = rdma_act_bound [OF good act]
  note lk = rank_links [OF good b(1)] and mem = g(4) [OF b(1)]
  note loc = rdma_good_local [OF good b, where D = "delivered c (left_of (ri_N I) r)"]
  from g(1) act show ?thesis
  proof (cases rule: rdma_act_cases)
    case (NoPost s)
    then show ?thesis by (intro loc) (use lk mem NoPost in \<open>auto simp: advance_def counters delivered_def only_at_def\<close>)
  next
    case (NoAdd s)
    have "pmem_ok I r (Suc s) (delivered c (left_of (ri_N I) r)) (p_mem c r)"
      using pmem_ok_next [OF NoAdd(3)] mem NoAdd by (simp add: counters)
    then show ?thesis by (intro loc) (use lk NoAdd in \<open>auto simp: advance_def counters delivered_def only_at_def\<close>)
  qed simp_all
qed

section \<open>Deliveries keep the invariant\<close>

text \<open>A pending send: the completion of the previous one was polled, so it is the step's own.\<close>

lemma pending_send:
  assumes good: "rdma_good I c" and r: "r < ri_N I" and sq: "p_sq c r = w # ws"
  shows "delivered c r = (p_pos c r - 1) div 5" and "n_sent (p_pos c r) = Suc (delivered c r)"
    and "delivered c r < ri_steps I" and "w = send_wr I r (delivered c r)" and "ws = []"
proof -
  note lk = rank_links [OF good r] and b = counters_bounds
  let ?p = "p_pos c r" and ?d = "delivered c r"
  have lt: "?d < n_sent ?p" using lk(2) sq by (cases "?d < n_sent ?p") auto
  moreover have "n_rpolled ?p \<le> ?d" by (simp add: delivered_def)
  ultimately show d: "?d = (?p - 1) div 5" and ns: "n_sent ?p = Suc ?d"
    using b(3,4,6) [of ?p] by linarith+
  have "n_sent ?p = Suc ((?p - 1) div 5)" using ns d by (simp only:)
  then have "(?p - 1) mod 5 \<noteq> 0" using n_sent_between [of ?p] by linarith
  then have "?p - 1 \<noteq> ri_steps I * 5" by (rule contrapos_nn) (simp only: mod_mult_self2_is_0)
  then have "?p - 1 < ri_steps I * 5" using rdma_goodD(2) [OF good r] by linarith
  then show "?d < ri_steps I" using d pos_bound by simp
  show "w = send_wr I r ?d" "ws = []" using lk(2) sq ns by auto
qed

text \<open>What the fabric reads there is the message of the step, even as later steps land.\<close>

lemma pending_content:
  assumes good: "rdma_good I c" and r: "r < ri_N I" and sq: "p_sq c r = (h, len, off) # ws"
  shows "window (unat off) (unat len) (sel h (p_mem c r)) = msg I r (delivered c r)"
proof -
  note g = rdma_goodD [OF good] and ps = pending_send [OF good r sq] and b = counters_bounds
  let ?N = "ri_N I" and ?d = "delivered c r"
  let ?l = "left_of ?N r"
  have N: "2 \<le> ?N" using g(1) by (rule ring_okD)
  have l: "?l < ?N" using N by simp
  have ix: "snd_ix ?N r ?d < ?N" by (rule snd_ix_less [OF N r ps(3)])
  note lk = rank_links [OF good r] and lkl = rank_links [OF good l]
  have lo: "?d \<le> delivered c ?l" using lk(3) b(1,4) [of "p_pos c r"] ps(1) by linarith
  have hi: "delivered c ?l \<le> ?d + 2" using lk(5) b(5) [of "ri_steps I" "p_pos c r"] ps(1) by linarith
  have two: "delivered c ?l \<le> 1" if "?N = 2" "?d = 0"
  proof -
    have "left_of ?N ?l = r" using that(1) r by (auto simp: left_of_cases)
    then have "n_lpolled (p_pos c ?l) \<le> ?d" using lkl(3) by simp
    then show ?thesis using lkl(1) b(1,3) [of "p_pos c ?l"] that(2) by linarith
  qed
  have "chunk_of I (snd_ix ?N r ?d) (buf (p_mem c r)) =
      chunk_val I r (snd_ix ?N r ?d) (min ?d (?N - 1)) (delivered c ?l)"
    using g(4) [OF r] ix ps(1) by (simp add: pmem_ok_def)
  also have "\<dots> = msg I r ?d" by (rule chunk_val_send [OF g(1) r ps(3) lo hi two])
  finally show ?thesis
    using ps(4) unat_off_of [OF g(1) ix] unat_chunk_bytes [OF g(1)]
    by (simp add: send_wr_def chunk_of_def)
qed

lemma pmem_ok_land:
  assumes ok: "ring_ok I" and q: "q < ri_N I" and d: "d < ri_steps I" "s \<le> d" "d < s + 2"
    and m: "pmem_ok I q s d m" and w: "recv_wr I q d = (h, len, off)"
    and v: "v = msg I (left_of (ri_N I) q) d"
  shows "pmem_ok I q s (Suc d) (put_sel h (overwrite (unat off) v (sel h m)) m)"
proof -
  let ?N = "ri_N I" and ?L = "ri_L I"
  have N: "2 \<le> ?N" using ok by (rule ring_okD)
  have lv: "length v = ?L" using v N d(1) by (simp add: length_msg [OF ok])
  have lens: "length (buf m) = ?N * ?L" "length (stage m) = 2 * ?L"
    and ch: "\<And>c. c < ?N \<Longrightarrow> chunk_of I c (buf m) = chunk_val I q c (min s (?N - 1)) d"
    and st: "\<And>j. s \<le> j \<Longrightarrow> j < d \<Longrightarrow> j < ?N - 1 \<Longrightarrow>
      window ((j mod 2) * ?L) ?L (stage m) = msg I (left_of ?N q) j"
    using m by (auto simp: pmem_ok_def)
  show ?thesis
  proof (cases "d < ?N - 1")
    case True
    have m2: "d mod 2 < 2" by simp
    then have "d mod 2 < ?N" using N by linarith
    then have h: "h = Stage_H" "unat off = (d mod 2) * ?L"
      using w True unat_off_of [OF ok] by (auto simp: recv_wr_def)
    have fit: "(d mod 2) * ?L + length v \<le> length (stage m)"
      using chunk_bound [OF m2, of ?L] lv lens by simp
    have half: "window ((j mod 2) * ?L) ?L (overwrite ((d mod 2) * ?L) v (stage m)) = msg I (left_of ?N q) j"
      if "s \<le> j" "j < Suc d" "j < ?N - 1" for j
    proof (cases "j = d")
      case True
      then show ?thesis using fit lv v by simp
    next
      case False
      then have "d = Suc j" using that d by linarith
      then have "j mod 2 = 0 \<and> d mod 2 = 1 \<or> j mod 2 = 1 \<and> d mod 2 = 0" by presburger
      then have "window ((j mod 2) * ?L) ?L (overwrite ((d mod 2) * ?L) v (stage m)) =
          window ((j mod 2) * ?L) ?L (stage m)"
        using lens lv by (auto intro!: window_overwrite_disjoint)
      then show ?thesis using st [OF that(1) _ that(3)] False that(2) by simp
    qed
    show ?thesis using True h half fit lens ch chunk_val_land [OF ok q _ d(1)]
      by (auto simp: pmem_ok_def)
  next
    case False
    let ?c = "rcv_ix ?N q d"
    have c: "?c < ?N" by (rule rcv_ix_less [OF N q d(1)])
    have h: "h = L_H" "unat off = ?c * ?L + 0"
      using w False unat_off_of [OF ok c] by (auto simp: recv_wr_def)
    have fit: "?c * ?L + length v \<le> length (buf m)" using chunk_bound [OF c, of ?L] lv lens by simp
    have "chunk_of I x (overwrite (unat off) v (buf m)) = chunk_val I q x (min s (?N - 1)) (Suc d)"
      if x: "x < ?N" for x
    proof -
      have "overwrite 0 v (chunk_of I ?c (buf m)) = v"
        using length_chunk_of [OF c lens(1)] lv by (simp add: overwrite_def)
      then show ?thesis
        using chunk_of_overwrite [OF c x lens(1), of 0 v] lv h(2) ch x
          chunk_val_land [OF ok q x d(1), of "min s (?N - 1)"] False v by auto
    qed
    then show ?thesis using False h fit lens st by (auto simp: pmem_ok_def)
  qed
qed

lemma rdma_good_deliver:
  assumes good: "rdma_good I c" and r: "r < ri_N I" and q: "q = right_of (ri_N I) r"
    and sq: "p_sq c r = (h, len, off) # ws" and rq: "p_rq c q = (h', len', off') # vs"
    and d: "d = c\<lparr>
       p_mem := (p_mem c)(q := put_sel h'
         (overwrite (unat off') (window (unat off) (unat len) (sel h (p_mem c r))) (sel h' (p_mem c q)))
         (p_mem c q)),
       p_sq := (p_sq c)(r := ws), p_rq := (p_rq c)(q := vs),
       p_scq := (p_scq c)(r := Suc (p_scq c r)), p_rcq := (p_rcq c)(q := Suc (p_rcq c q))\<rparr>"
  shows "rdma_better I c d"
proof -
  let ?N = "ri_N I" and ?d = "delivered c r" and ?T = "n_rposted (ri_steps I) (p_pos c q)"
  note g = rdma_goodD [OF good] and ps = pending_send [OF good r sq] and b = counters_bounds
  have N: "2 \<le> ?N" using g(1) by (rule ring_okD)
  have qN: "q < ?N" and lq: "left_of ?N q = r" using N q r by simp_all
  note lk = rank_links [OF good qN, unfolded lq]
  have lt: "?d < ?T" using lk(6) rq by (cases "?d < ?T") auto
  have rq': "(h', len', off') = recv_wr I q ?d" "vs = map (recv_wr I q) [Suc ?d..<?T]"
    using lk(6) rq lt by (auto simp: upt_conv_Cons)
  have f: "p_pos d = p_pos c" "p_sq d = (p_sq c)(r := ws)" "p_rq d = (p_rq c)(q := vs)"
    "p_rcq d = (p_rcq c)(q := Suc (p_rcq c q))" "p_scq d = (p_scq c)(r := Suc (p_scq c r))"
    "p_mem d = (p_mem c)(q := put_sel h'
       (overwrite (unat off') (msg I r ?d) (sel h' (p_mem c q))) (p_mem c q))"
    using d pending_content [OF good r sq] by simp_all
  have del: "delivered d x = (if x = r then Suc ?d else delivered c x)" for x
    by (simp add: delivered_def f)
  have inj: "right_of ?N x = q \<longleftrightarrow> x = r" if "x < ?N" for x
    using that r q lq by (metis left_right)
  have link: "link_ok I d x" if x: "x < ?N" for x
  proof (cases "x = r")
    case True
    then show ?thesis using lk(3,4) lt rq' ps(2,5) q
      by (simp add: link_ok_def Let_def del f Suc_diff_le)
  next
    case False
    then show ?thesis using g(3) [OF x] inj [OF x] by (simp add: link_ok_def Let_def del f)
  qed
  have "(p_pos c q - 1) div 5 \<le> ?d" "?d < (p_pos c q - 1) div 5 + 2"
    using b(1,4) [of "p_pos c q"] b(5) [of "ri_steps I" "p_pos c q"] lk(3) lt by linarith+
  from pmem_ok_land [OF g(1) qN ps(3) this _ rq'(1) [symmetric], of _ "msg I r ?d"] g(4) [OF qN]
  have "pmem_ok I q ((p_pos c q - 1) div 5) (Suc ?d) (p_mem d q)" unfolding f lq by simp
  then have mem: "pmem_ok I x ((p_pos d x - 1) div 5) (delivered d (left_of ?N x)) (p_mem d x)" if "x < ?N" for x
    using that g(4) [OF that] lq left_of_eq_iff [OF r that] q by (cases "x = q") (simp_all add: del f)
  have "rdma_good I d" using g(1,2) link mem by (simp add: rdma_good_def f)
  moreover have "rdma_work I d < rdma_work I c"
    unfolding rdma_work_def by (rule sum_decreases [OF r]) (use ps(3) in \<open>auto simp: del f\<close>)
  ultimately show ?thesis by (simp add: rdma_better_def)
qed

lemma rdma_step_better:
  assumes "rdma_good I c" and "rdma_step I c d"
  shows "rdma_better I c d"
  using assms(2,1)
proof cases
  case rdma_deliver
  with rdma_good_deliver [OF assms(1)] show ?thesis by blast
qed (auto intro: rdma_good_send rdma_good_recv rdma_good_poll_left rdma_good_poll_right rdma_good_add
  rdma_good_skip)

section \<open>A run that is not finished can go on\<close>

lemma deliver_possible:
  assumes good: "rdma_good I c" and r: "r < ri_N I" and q: "q = right_of (ri_N I) r"
    and d: "delivered c r < n_sent (p_pos c r)" "delivered c r < n_rposted (ri_steps I) (p_pos c q)"
  shows "\<exists>d. rdma_step I c d"
proof -
  let ?d = "delivered c r"
  have qN: "q < ri_N I" and lq: "left_of (ri_N I) q = r" using r q by simp_all
  obtain ws where sq: "p_sq c r = send_wr I r ?d # ws"
    using rank_links(2) [OF good r] d(1) by (simp add: upt_conv_Cons)
  obtain vs where rq: "p_rq c q = recv_wr I q ?d # vs"
    using rank_links(6) [OF good qN] d(2) lq by (simp add: upt_conv_Cons)
  obtain h off where w: "recv_wr I q ?d = (h, chunk_bytes I, off)" by (cases "?d < ri_N I - 1") (simp_all add: recv_wr_def)
  show ?thesis
    using rdma_step.rdma_deliver [OF r q sq [unfolded send_wr_def] rq [unfolded w]] by blast
qed

lemma rdma_stuck_cases:
  assumes good: "rdma_good I c" and r: "r < ri_N I" and p: "p_pos c r < Suc (ri_steps I * 5)"
    and stuck: "\<nexists>d. rdma_step I c d"
  shows "\<exists>s < ri_steps I. p_pos c r = Suc (s * 5 + 1) \<and> p_rcq c r = 0 \<or>
    p_pos c r = Suc (s * 5 + 3) \<and> p_scq c r = 0"
proof -
  note g = rdma_goodD [OF good]
  have N: "2 \<le> ri_N I" using g(1) by (rule ring_okD)
  have len: "length (buf (p_mem c r)) = ri_N I * ri_L I" "length (stage (p_mem c r)) = 2 * ri_L I"
    using g(4) [OF r] by (auto simp: pmem_ok_def)
  have bound: "unat (off_of I (int i)) + unat (chunk_bytes I) \<le> M * ri_L I" if "i < M" "M \<le> ri_N I" for i M
    using that unat_off_of [OF g(1)] unat_chunk_bytes [OF g(1)] chunk_bound [OF that(1), of "ri_L I"] by simp
  have rb: "unat off + unat len \<le> length (sel h (p_mem c r))" if "recv_wr I r j = (h, len, off)" "j < ri_steps I" for h len off j
    using that len bound [of "j mod 2" 2] bound [OF rcv_ix_less [OF N r that(2)]] N
    by (auto simp: recv_wr_def split: if_splits)
  obtain a where a: "rdma_act I c r = Some a"
    using r p by (simp add: rdma_act_def length_posted_of [OF g(1)])
  from g(1) a show ?thesis
  proof (cases rule: rdma_act_cases)
    case First
    then show ?thesis using stuck rdma_step.rdma_recv [OF a [unfolded First(4)] rb [OF First(3)]] N by auto
  next
    case (Send s)
    then show ?thesis using stuck rdma_step.rdma_send [OF a [unfolded Send(4)]] len
        bound [OF snd_ix_less [OF N r Send(2)]] by auto
  next
    case (PollL s)
    then show ?thesis using stuck rdma_step.rdma_poll_left [OF a [unfolded PollL(4)]] by (cases "p_rcq c r") auto
  next
    case (Post s)
    then show ?thesis using stuck rdma_step.rdma_recv [OF a [unfolded Post(5)] rb [OF Post(4,2)]] by auto
  next
    case (PollR s)
    then show ?thesis using stuck rdma_step.rdma_poll_right [OF a [unfolded PollR(4)]] by (cases "p_scq c r") auto
  next
    case (Add s)
    then show ?thesis using stuck rdma_step.rdma_add [OF a [unfolded Add(4)]] by blast
  qed (use stuck rdma_step.rdma_skip a in blast)+
qed

text \<open>
  No receive of the slowest rank, and no receive its right neighbour must have up, is missing:
  whichever completion the slowest rank waits for, the delivery that raises it is possible.
\<close>

lemma rdma_progress:
  assumes good: "rdma_good I c" and unfinished: "\<not> rdma_finished I c"
  shows "\<exists>d. rdma_step I c d"
proof (rule ccontr)
  assume stuck: "\<nexists>d. rdma_step I c d"
  note g = rdma_goodD [OF good]
  let ?T = "ri_steps I"
  have N: "2 \<le> ri_N I" using g(1) by (rule ring_okD)
  define s where "s = Min ((\<lambda>r. (p_pos c r - 1) div 5) ` {..<ri_N I})"
  have ne: "(\<lambda>r. (p_pos c r - 1) div 5) ` {..<ri_N I} \<noteq> {}" using N by (auto simp: lessThan_empty_iff)
  have least: "s \<le> (p_pos c r - 1) div 5" if "r < ri_N I" for r
    using that by (auto simp: s_def intro: Min_le)
  obtain q where q: "q < ri_N I" "(p_pos c q - 1) div 5 = s" using Min_in [OF _ ne] by (auto simp: s_def)
  obtain u where u: "u < ri_N I" "p_pos c u < Suc (?T * 5)"
    using unfinished g(2) by (auto simp: rdma_finished_def length_posted_of [OF g(1)] le_less)
  have s: "s < ?T" using least [OF u(1)] rdma_stuck_cases [OF good u stuck] by (auto simp: counters)
  have ahead: "s < n_sent (p_pos c r) \<and> s < n_rposted ?T (p_pos c r)" if r: "r < ri_N I" for r
  proof (cases "p_pos c r < Suc (?T * 5)")
    case True
    from rdma_stuck_cases [OF good r True stuck] least [OF r] show ?thesis by (auto simp: counters)
  next
    case False
    then have "p_pos c r = Suc (?T * 5)" using g(2) [OF r] by simp
    then show ?thesis using s counters_finish [of ?T] by (simp only:)
  qed
  have "p_pos c q < Suc (?T * 5)" using q(2) s by linarith
  from rdma_stuck_cases [OF good q(1) this stuck]
  consider (L) "p_pos c q = Suc (s * 5 + 1)" "p_rcq c q = 0" | (R) "p_pos c q = Suc (s * 5 + 3)" "p_scq c q = 0"
    using q(2) by (auto simp: counters)
  then show False
  proof cases
    case L
    have "delivered c (left_of (ri_N I) q) = s"
      using rank_links(3,4) [OF good q(1)] L by (simp add: counters)
    then show False
      using stuck deliver_possible [OF good _ right_left [OF q(1), symmetric]] ahead q(1) N by auto
  next
    case R
    then have "delivered c q = s" by (simp add: delivered_def counters)
    then show False using stuck deliver_possible [OF good q(1) refl] ahead q(1) N by auto
  qed
qed

lemma rdma_good_init: "rdma_start I c \<Longrightarrow> rdma_good I c"
  by (auto simp: rdma_start_def rdma_good_def rdma_init_def link_ok_def pmem_ok_def delivered_def Let_def
      chunk_val_init ring_okD)

interpretation rdma_ring: terminating_system "rdma_step I" "rdma_start I" "rdma_good I"
  "rdma_finished I" "rdma_work I"
  for I
proof
  fix c d
  show "rdma_start I c \<Longrightarrow> rdma_good I c" by (rule rdma_good_init)
  show "rdma_good I c \<Longrightarrow> rdma_step I c d \<Longrightarrow> rdma_good I d"
    and "rdma_good I c \<Longrightarrow> rdma_step I c d \<Longrightarrow> rdma_work I d < rdma_work I c"
    using rdma_step_better by (auto simp: rdma_better_def)
  show "rdma_good I c \<Longrightarrow> \<not> rdma_finished I c \<Longrightarrow> \<exists>d. rdma_step I c d" by (rule rdma_progress)
qed

lemma rdma_finished_buf:
  assumes good: "rdma_good I c" and fin: "rdma_finished I c" and r: "r < ri_N I" and d: "d < ri_N I"
  shows "chunk_of I d (buf (p_mem c r)) = psum I d (ri_N I - 1)"
proof -
  note g = rdma_goodD [OF good]
  have p: "p_pos c x = Suc (ri_steps I * 5)" if "x < ri_N I" for x
    using fin that by (simp add: rdma_finished_def length_posted_of [OF g(1)])
  have l: "left_of (ri_N I) r < ri_N I" using r by (intro left_of_less) simp
  have "delivered c (left_of (ri_N I) r) = ri_steps I"
    using rank_links(3) [OF good r] rank_links(1) [OF good l] p [OF r] p [OF l] counters_finish [of "ri_steps I"]
    by (simp only:)
  moreover have "min (ri_steps I) (ri_N I - 1) = ri_N I - 1" using ring_okD(1) [OF g(1)] by simp
  ultimately show ?thesis
    using g(4) [OF r] p [OF r] chunk_val_final [OF g(1) r d] d by (auto simp: pmem_ok_def)
qed

section \<open>Memory in flight\<close>

lemma recv_wr_pending:
  assumes good: "rdma_good I c" and r: "r < ri_N I" and w: "w \<in> set (p_rq c r)"
  obtains j where "w = recv_wr I r j" "delivered c (left_of (ri_N I) r) \<le> j" "j < n_rposted (ri_steps I) (p_pos c r)"
  using rank_links(6) [OF good r] w by auto

text \<open>Two distinct chunks do not overlap.\<close>

lemma chunks_disjoint:
  "ring_ok I \<Longrightarrow> a < ri_N I \<Longrightarrow> b < ri_N I \<Longrightarrow> a \<noteq> b \<Longrightarrow>
    unat (off_of I (int a)) + ri_L I \<le> unat (off_of I (int b)) \<or> unat (off_of I (int b)) + ri_L I \<le> unat (off_of I (int a))"
  using mult_le_mono1 [of "Suc a" b "ri_L I"] mult_le_mono1 [of "Suc b" a "ri_L I"]
  by (cases "a < b") (auto simp: unat_off_of)

lemma snd_rcv_next_neq:
  assumes "3 \<le> N" and "r < N" and "Suc s < 2 * (N - 1)" and "N - 1 \<le> Suc s"
  shows "snd_ix N r s \<noteq> rcv_ix N r (Suc s)"
proof
  assume "snd_ix N r s = rcv_ix N r (Suc s)"
  then have "dist N r (snd_ix N r s) = dist N r (rcv_ix N r (Suc s))" by simp
  then show False using assms by (auto simp: dist_snd dist_rcv split: if_splits)
qed

section \<open>Properties\<close>

lemma tiny_rdma_start: "rdma_start tiny (rdma_init tiny)"
  by (simp add: rdma_start_def tiny_ok)

text \<open>
  C2. The ring all-reduce over posted receives: the fabric reads a chunk when it delivers it,
  not when the send is posted, and deliveries happen in any order the queues allow; still a
  run that cannot go on has finished on every rank with the sum of every float over all
  ranks, taken in the order of the ring.
\<close>

theorem rdma_allreduce_correct:
  assumes "ring_ok I" and "(rdma_step I)\<^sup>*\<^sup>* (rdma_init I) c" and "\<nexists>d. rdma_step I c d"
    and "r < ri_N I" and "k < ri_N I" and "j < ri_n I"
  shows "p_pos c r = length (posted_of I r) \<and>
    get_float (buf (p_mem c r)) (k * ri_n I + j) =
      ring_fold (ri_fadd I) (ri_N I) k (\<lambda>q. get_float (buf (ri_init I q)) (k * ri_n I + j)) (ri_N I - 1)"
proof -
  have "rdma_start I (rdma_init I)" using assms(1) by (simp add: rdma_start_def)
  from rdma_ring.stuck_finished [OF this assms(2,3)] have gf: "rdma_good I c" "rdma_finished I c" by auto
  have "get_float (chunk_of I k (buf (p_mem c r))) j = get_float (buf (p_mem c r)) (k * ri_n I + j)"
    by (rule get_float_chunk [OF assms(6)])
  with gf assms(4) rdma_finished_buf [OF gf assms(4,5)] get_float_psum [OF assms(1,6,5)]
  show ?thesis by (simp add: rdma_finished_def)
qed

theorem rdma_allreduce_correct_witness:
  "\<exists>c. (rdma_step tiny)\<^sup>*\<^sup>* (rdma_init tiny) c \<and> (\<nexists>d. rdma_step tiny c d) \<and>
     get_float (buf (p_mem c 1)) 0 = [3, 3, 3, 3]"
proof -
  obtain c where c: "(rdma_step tiny)\<^sup>*\<^sup>* (rdma_init tiny) c" "\<nexists>d. rdma_step tiny c d"
    using rdma_ring.reaches_stuck [OF tiny_rdma_start] by blast
  have "get_float (buf (p_mem c 1)) 0 = [3, 3, 3, 3]"
    using rdma_allreduce_correct [OF tiny_ok c, of 1 0 0]
    by (simp add: tiny_def tiny_add_def get_float_def window_def sizeof_float_def eval_nat_numeral)
  with c show ?thesis by blast
qed

text \<open>
  C4. It cannot stall and it ends: every configuration a run reaches is finished or can go
  on, and no run is infinite. In particular every send finds a receive.
\<close>

theorem rdma_no_deadlock:
  assumes "ring_ok I" and "(rdma_step I)\<^sup>*\<^sup>* (rdma_init I) c"
  shows "(rdma_finished I c \<or> (\<exists>d. rdma_step I c d)) \<and> (\<forall>f. f 0 = c \<longrightarrow> (\<exists>i. \<not> rdma_step I (f i) (f (Suc i))))"
proof -
  have "rdma_start I (rdma_init I)" using assms(1) by (simp add: rdma_start_def)
  then have good: "rdma_good I c" by (rule rdma_ring.reach_good [OF _ assms(2)])
  have "\<exists>i. \<not> rdma_step I (f i) (f (Suc i))" if "f 0 = c" for f
    using rdma_ring.good_no_infinite_run [where f = f, OF good that] by blast
  with good rdma_ring.progress show ?thesis by blast
qed

theorem rdma_no_deadlock_witness:
  "(rdma_finished tiny (rdma_init tiny) \<or> (\<exists>d. rdma_step tiny (rdma_init tiny) d)) \<and>
   (\<exists>i. \<not> rdma_step tiny ((\<lambda>_. rdma_init tiny) i) ((\<lambda>_. rdma_init tiny) (Suc i)))"
  using rdma_no_deadlock [OF tiny_ok rtranclp.rtrancl_refl] spec [of _ "\<lambda>_. rdma_init tiny"] by fast

text \<open>
  C10. With three ranks or more, no receive a rank has posted covers memory a send of the same
  rank may still be read from. (With two ranks the receive of the first all-gather step is
  posted on the chunk the first send reads; that the peer cannot send into it early is part
  of the correctness theorem.)
\<close>

theorem rdma_no_overlap:
  assumes "ring_ok I" and "3 \<le> ri_N I" and "(rdma_step I)\<^sup>*\<^sup>* (rdma_init I) c" and "r < ri_N I"
    and "(h, len, off) \<in> set (p_sq c r)" and "(h', len', off') \<in> set (p_rq c r)"
  shows "h' = Stage_H \<or> unat off + unat len \<le> unat off' \<or> unat off' + unat len' \<le> unat off"
proof -
  have good: "rdma_good I c"
    by (rule rdma_ring.reach_good [OF _ assms(3)]) (use assms(1) in \<open>simp add: rdma_start_def\<close>)
  obtain w ws where sq: "p_sq c r = w # ws" using assms(5) by (cases "p_sq c r") auto
  note ps = pending_send [OF good assms(4) sq] and b = counters_bounds [where p = "p_pos c r"]
  let ?N = "ri_N I" and ?s = "delivered c r"
  have N: "2 \<le> ?N" using assms(2) by simp
  have snd: "(h, len, off) = send_wr I r ?s" using assms(5) sq ps(4,5) by simp
  obtain j where j: "(h', len', off') = recv_wr I r j" "delivered c (left_of ?N r) \<le> j" "j < n_rposted (ri_steps I) (p_pos c r)"
    using recv_wr_pending [OF good assms(4,6)] by metis
  have jb: "?s \<le> j" "j < ?s + 2" "j < ri_steps I"
    using j(2,3) rank_links(3) [OF good assms(4)] b ps(1) by (auto simp: n_rposted_def split: if_splits)
  show ?thesis
  proof (cases "j < ?N - 1")
    case True
    then show ?thesis using j(1) by (simp add: recv_wr_def)
  next
    case False
    have "snd_ix ?N r ?s \<noteq> rcv_ix ?N r j"
    proof (cases "j = ?s")
      case True
      then show ?thesis using snd_rcv_neq [OF N assms(4) ps(3)] by simp
    next
      case n: False
      then have "j = Suc ?s" using jb by linarith
      then show ?thesis using snd_rcv_next_neq [OF assms(2,4), of ?s] jb(3) False by simp
    qed
    with chunks_disjoint [OF assms(1) snd_ix_less [OF N assms(4) ps(3)] rcv_ix_less [OF N assms(4) jb(3)]]
    show ?thesis using snd j(1) False unat_chunk_bytes [OF assms(1)] by (simp add: send_wr_def recv_wr_def)
  qed
qed

definition tiny3 :: ring_inst where
  "tiny3 = \<lparr>ri_N = 3, ri_chunk = 1, ri_fadd = tiny_add,
     ri_init = (\<lambda>r. \<lparr>buf = replicate 12 (word_of_nat r), stage = replicate 8 0\<rparr>)\<rparr>"

lemma tiny3_ok: "ring_ok tiny3"
  by (simp add: ring_ok_def tiny3_def ri_L_def sizeof_float_def tiny_add_def)

lemma posted_of_tiny3:
  "posted_of tiny3 0 ! 0 = RecvLeft Stage_H 4 0 0" "posted_of tiny3 0 ! 1 = SendRight R_H 4 0 0"
  "length (posted_of tiny3 0) = 21"
  by (simp_all add: posted_of_def tiny3_def) code_simp+

theorem rdma_no_overlap_witness:
  "\<exists>c. (rdma_step tiny3)\<^sup>*\<^sup>* (rdma_init tiny3) c \<and> p_sq c 0 = [(R_H, 4, 0)] \<and> p_rq c 0 = [(Stage_H, 4, 0)] \<and>
     (Stage_H = Stage_H \<or> unat (0::u64) + unat (4::u64) \<le> unat (0::u64) \<or> unat (0::u64) + unat (4::u64) \<le> unat (0::u64))"
proof -
  let ?c1 = "advance 0 ((rdma_init tiny3)\<lparr>p_rq := (p_rq (rdma_init tiny3))(0 := p_rq (rdma_init tiny3) 0 @ [(Stage_H, 4, 0)])\<rparr>)"
  let ?c2 = "advance 0 (?c1\<lparr>p_sq := (p_sq ?c1)(0 := p_sq ?c1 0 @ [(R_H, 4, 0)])\<rparr>)"
  have "rdma_step tiny3 (rdma_init tiny3) ?c1"
    by (rule rdma_step.rdma_recv [where i = 0])
      (simp_all add: rdma_act_def posted_of_tiny3 rdma_init_def, simp_all add: tiny3_def)
  moreover have "rdma_step tiny3 ?c1 ?c2"
    by (rule rdma_step.rdma_send [where i = 0])
      (simp_all add: rdma_act_def posted_of_tiny3 [simplified] rdma_init_def advance_def, simp_all add: tiny3_def)
  ultimately have r: "(rdma_step tiny3)\<^sup>*\<^sup>* (rdma_init tiny3) ?c2"
    by (meson converse_rtranclp_into_rtranclp rtranclp.rtrancl_refl)
  have q: "p_sq ?c2 0 = [(R_H, 4, 0)]" "p_rq ?c2 0 = [(Stage_H, 4, 0)]" by (simp_all add: rdma_init_def advance_def)
  have "3 \<le> ri_N tiny3" "0 < ri_N tiny3" by (simp_all add: tiny3_def)
  from rdma_no_overlap [OF tiny3_ok this(1) r this(2), of R_H 4 0 Stage_H 4 0] q r show ?thesis by auto
qed

text \<open>
  The requests carry the lengths that the calls ask for. The transport cuts a length to 32 bits; for
  chunks below 4 GiB, which is all that the \<open>int\<close> count of the benchmark can ask for on two ranks or
  more, the cut changes nothing.
\<close>

lemma posted_length_fits:
  assumes "ring_ok I" and "ri_L I < 2 ^ 32" and "rdma_act I c r = Some (SendRight h len i off) \<or> rdma_act I c r = Some (RecvLeft h len i off)"
  shows "ucast (ucast len :: u32) = len"
proof -
  have "len = chunk_bytes I"
    using assms(3)
  proof
    assume "rdma_act I c r = Some (SendRight h len i off)"
    from assms(1) this show ?thesis by (cases rule: rdma_act_cases) simp_all
  next
    assume "rdma_act I c r = Some (RecvLeft h len i off)"
    from assms(1) this show ?thesis by (cases rule: rdma_act_cases) (auto simp: recv_wr_def split: if_splits)
  qed
  then have "unat len < 2 ^ 32" using unat_chunk_bytes [OF assms(1)] assms(2) by simp
  then show ?thesis by (simp add: word_unat_eq_iff unsigned_ucast_eq unsigned_take_bit_eq take_bit_nat_eq_self)
qed

text \<open>
  C11. No call of either loop leaves the arrays \<open>collective.hpp\<close> asks for: \<open>count\<close> floats in
  \<open>buf\<close> and two chunks in \<open>stage\<close>. The 64-bit offsets and indices do not wrap.
\<close>

theorem ring_calls_in_bounds:
  assumes "ring_ok I" and "r < ri_N I" and "a \<in> set (blocking_of I r) \<union> set (posted_of I r)"
  shows "act_in_bounds (ri_N I * ri_L I) (2 * ri_L I) a"
proof -
  have N: "2 \<le> ri_N I" using assms(1) by (rule ring_okD)
  note in_buf = chunk_in_bounds [OF assms(1)]
  from assms(3) consider i where "i < length (blocking_of I r)" "a = blocking_of I r ! i"
    | i where "i < length (posted_of I r)" "a = posted_of I r ! i"
    by (auto simp: in_set_conv_nth)
  then show ?thesis
  proof cases
    case 1
    then have "tcp_act I ((tcp_init I)\<lparr>t_pos := (\<lambda>_. i)\<rparr>) r = Some a" using assms(2) by (simp add: tcp_act_def)
    from assms(1) this show ?thesis
    proof (cases rule: tcp_act_cases)
      case (Send q)
      then show ?thesis using in_buf snd_ix_less [OF N assms(2)] by (simp add: act_in_bounds_def)
    next
      case (Stage q)
      then show ?thesis using stage_in_bounds [OF assms(1), of 0] by (simp add: act_in_bounds_def off_of_def)
    next
      case (Land q)
      then show ?thesis using in_buf rcv_ix_less [OF N assms(2)] by (simp add: act_in_bounds_def)
    next
      case (Add q)
      then show ?thesis
        using add_in_bounds [OF assms(1) rcv_ix_less [OF N assms(2) pos_bound [OF Add(3)]], of 0] by (simp add: act_in_bounds_def)
    qed (auto simp: act_in_bounds_def)
  next
    case 2
    then have "rdma_act I ((rdma_init I)\<lparr>p_pos := (\<lambda>_. i)\<rparr>) r = Some a" using assms(2) by (simp add: rdma_act_def)
    from assms(1) this show ?thesis
    proof (cases rule: rdma_act_cases)
      case First
      then show ?thesis using recv_wr_in_bounds [OF assms(1,2) _ First(3)] N by (simp add: act_in_bounds_def)
    next
      case (Send s)
      then show ?thesis using in_buf snd_ix_less [OF N assms(2)] by (simp add: act_in_bounds_def)
    next
      case (Post s)
      then show ?thesis using recv_wr_in_bounds [OF assms(1,2) _ Post(4)] by (simp add: act_in_bounds_def)
    next
      case (Add s)
      have s: "s < ri_steps I" using Add(2) by simp
      show ?thesis
        using Add add_in_bounds [OF assms(1) rcv_ix_less [OF N assms(2) s], of "s mod 2"] by (simp add: act_in_bounds_def)
    qed (auto simp: act_in_bounds_def)
  qed
qed

theorem ring_calls_in_bounds_witness: "act_in_bounds (3 * 4) 8 (SendRight R_H 4 0 0)"
proof -
  have "SendRight R_H 4 0 0 \<in> set (posted_of tiny3 0)"
    using posted_of_tiny3(2,3) by (metis nth_mem one_less_numeral_iff semiring_norm(76,77))
  then show ?thesis using ring_calls_in_bounds [OF tiny3_ok, of 0]
    by (simp add: tiny3_def ri_L_def sizeof_float_def)
qed

end
