(* ===== verification/Barrier.thy ===== *)
theory Barrier
  imports Runs Ring_Program
begin

text \<open>
  The barrier of the process group (\<open>world_barrier\<close> in world.cpp) with all its ranks: every rank
  runs \<open>barrier_program\<close>, over byte streams (\<open>btcp_step\<close>) or over posted receives
  (\<open>brdma_step\<close>). The lemmas say that it always ends, and who has arrived when a rank returns.
\<close>

section \<open>Definitions\<close>

text \<open>The next call of each rank and, on TCP, the bytes on the way to its right neighbour.\<close>

record btcp_cfg =
  b_pos :: "nat \<Rightarrow> nat"
  b_wire :: "nat \<Rightarrow> nat"

definition bar_act :: "bool \<Rightarrow> nat \<Rightarrow> (nat \<Rightarrow> nat) \<Rightarrow> nat \<Rightarrow> act option" where
  "bar_act blocks N pos r =
     (if r < N \<and> pos r < length (barrier_program blocks (int r)) then Some (barrier_program blocks (int r) ! pos r) else None)"

inductive btcp_step :: "nat \<Rightarrow> nat \<Rightarrow> btcp_cfg \<Rightarrow> btcp_cfg \<Rightarrow> bool" for N cap where
  btcp_send: "bar_act True N (b_pos c) r = Some (SendRight h len i off) \<Longrightarrow> b_wire c r + unat len \<le> cap \<Longrightarrow>
     btcp_step N cap c (c\<lparr>b_pos := (b_pos c)(r := Suc (b_pos c r)), b_wire := (b_wire c)(r := b_wire c r + unat len)\<rparr>)"
| btcp_recv: "bar_act True N (b_pos c) r = Some (RecvLeft h len i off) \<Longrightarrow> unat len \<le> b_wire c (left_of N r) \<Longrightarrow>
     btcp_step N cap c (c\<lparr>b_pos := (b_pos c)(r := Suc (b_pos c r)),
       b_wire := (b_wire c)(left_of N r := b_wire c (left_of N r) - unat len)\<rparr>)"
| btcp_poll: "bar_act True N (b_pos c) r = Some a \<Longrightarrow> a = PollLeft \<or> a = PollRight \<Longrightarrow>
     btcp_step N cap c (c\<lparr>b_pos := (b_pos c)(r := Suc (b_pos c r))\<rparr>)"

text \<open>On RDMA: sends and receives posted and not delivered, and completions not polled.\<close>

record brdma_cfg =
  r_pos :: "nat \<Rightarrow> nat"
  r_sq :: "nat \<Rightarrow> nat"
  r_rq :: "nat \<Rightarrow> nat"
  r_scq :: "nat \<Rightarrow> nat"
  r_rcq :: "nat \<Rightarrow> nat"

inductive brdma_step :: "nat \<Rightarrow> brdma_cfg \<Rightarrow> brdma_cfg \<Rightarrow> bool" for N where
  brdma_send: "bar_act False N (r_pos c) r = Some (SendRight h len i off) \<Longrightarrow>
     brdma_step N c (c\<lparr>r_pos := (r_pos c)(r := Suc (r_pos c r)), r_sq := (r_sq c)(r := Suc (r_sq c r))\<rparr>)"
| brdma_recv: "bar_act False N (r_pos c) r = Some (RecvLeft h len i off) \<Longrightarrow>
     brdma_step N c (c\<lparr>r_pos := (r_pos c)(r := Suc (r_pos c r)), r_rq := (r_rq c)(r := Suc (r_rq c r))\<rparr>)"
| brdma_deliver: "r < N \<Longrightarrow> q = right_of N r \<Longrightarrow> r_sq c r = Suc m \<Longrightarrow> r_rq c q = Suc n \<Longrightarrow>
     brdma_step N c (c\<lparr>r_sq := (r_sq c)(r := m), r_rq := (r_rq c)(q := n),
       r_scq := (r_scq c)(r := Suc (r_scq c r)), r_rcq := (r_rcq c)(q := Suc (r_rcq c q))\<rparr>)"
| brdma_poll_left: "bar_act False N (r_pos c) r = Some PollLeft \<Longrightarrow> r_rcq c r = Suc n \<Longrightarrow>
     brdma_step N c (c\<lparr>r_pos := (r_pos c)(r := Suc (r_pos c r)), r_rcq := (r_rcq c)(r := n)\<rparr>)"
| brdma_poll_right: "bar_act False N (r_pos c) r = Some PollRight \<Longrightarrow> r_scq c r = Suc n \<Longrightarrow>
     brdma_step N c (c\<lparr>r_pos := (r_pos c)(r := Suc (r_pos c r)), r_scq := (r_scq c)(r := n)\<rparr>)"

definition btcp_init :: btcp_cfg where
  "btcp_init = \<lparr>b_pos = (\<lambda>_. 0), b_wire = (\<lambda>_. 0)\<rparr>"

definition brdma_init :: brdma_cfg where
  "brdma_init = \<lparr>r_pos = (\<lambda>_. 0), r_sq = (\<lambda>_. 0), r_rq = (\<lambda>_. 0), r_scq = (\<lambda>_. 0), r_rcq = (\<lambda>_. 0)\<rparr>"

text \<open>A rank has arrived when it has made a call of the barrier, and has returned after the last.\<close>

definition arrived :: "(nat \<Rightarrow> nat) \<Rightarrow> nat \<Rightarrow> bool" where
  "arrived pos r \<longleftrightarrow> 0 < pos r"

definition returned :: "(nat \<Rightarrow> nat) \<Rightarrow> nat \<Rightarrow> bool" where
  "returned pos r \<longleftrightarrow> pos r = 4"

section \<open>The calls of the barrier\<close>

lemma barrier_program_eq:
  "barrier_program b (int r) =
     (if b \<and> even r then [SendRight R_H 1 (- 1) 0, RecvLeft L_H 1 (- 1) 0, PollLeft, PollRight]
      else [RecvLeft L_H 1 (- 1) 0, SendRight R_H 1 (- 1) 0, PollLeft, PollRight])"
  by (simp add: barrier_program_def Let_def c_rem_even del: c_rem_nonneg)

lemma below_4: "(n :: nat) < 4 \<longleftrightarrow> n = 0 \<or> n = 1 \<or> n = 2 \<or> n = 3"
  by auto

lemma bar_act_some:
  "bar_act b N pos r = Some a \<longleftrightarrow> r < N \<and>
     (pos r = 0 \<and> a = (if b \<and> even r then SendRight R_H 1 (- 1) 0 else RecvLeft L_H 1 (- 1) 0) \<or>
      pos r = 1 \<and> a = (if b \<and> even r then RecvLeft L_H 1 (- 1) 0 else SendRight R_H 1 (- 1) 0) \<or>
      pos r = 2 \<and> a = PollLeft \<or> pos r = 3 \<and> a = PollRight)"
proof -
  have "length (barrier_program b (int r)) = 4" by (simp add: barrier_program_eq)
  then show ?thesis by (auto simp: bar_act_def barrier_program_eq below_4 split: if_splits)
qed

text \<open>How many bytes a rank has sent and received at a position, on TCP.\<close>

definition sent_at :: "nat \<Rightarrow> nat \<Rightarrow> nat" where
  "sent_at r p = (if even r then (if 0 < p then 1 else 0) else (if 1 < p then 1 else 0))"

definition rcvd_at :: "nat \<Rightarrow> nat \<Rightarrow> nat" where
  "rcvd_at r p = (if even r then (if 1 < p then 1 else 0) else (if 0 < p then 1 else 0))"

definition btcp_good :: "nat \<Rightarrow> nat \<Rightarrow> btcp_cfg \<Rightarrow> bool" where
  "btcp_good N cap c \<longleftrightarrow> 2 \<le> N \<and> 1 \<le> cap \<and>
     (\<forall>r < N. b_pos c r \<le> 4 \<and> b_wire c r + rcvd_at (right_of N r) (b_pos c (right_of N r)) = sent_at r (b_pos c r))"

definition btcp_finished :: "nat \<Rightarrow> btcp_cfg \<Rightarrow> bool" where
  "btcp_finished N c \<longleftrightarrow> (\<forall>r < N. returned (b_pos c) r)"

definition btcp_work :: "nat \<Rightarrow> btcp_cfg \<Rightarrow> nat" where
  "btcp_work N c = (\<Sum>r < N. 4 - b_pos c r)"

definition btcp_start :: "nat \<Rightarrow> nat \<Rightarrow> btcp_cfg \<Rightarrow> bool" where
  "btcp_start N cap c \<longleftrightarrow> 2 \<le> N \<and> 1 \<le> cap \<and> c = btcp_init"

lemma right_of_inj: "r < N \<Longrightarrow> q < N \<Longrightarrow> right_of N r = right_of N q \<longleftrightarrow> r = q"
  by (auto simp: right_of_cases split: if_splits)

text \<open>Moving one rank changes the account of its own link and of its left neighbour's.\<close>

lemma btcp_good_moved:
  assumes "btcp_good N cap c" and "r < N" and "p \<le> 4"
    and "w r + rcvd_at (right_of N r) (b_pos c (right_of N r)) = sent_at r p"
    and "w (left_of N r) + rcvd_at r p = sent_at (left_of N r) (b_pos c (left_of N r))"
    and "\<And>q. q \<noteq> r \<Longrightarrow> q \<noteq> left_of N r \<Longrightarrow> w q = b_wire c q"
  shows "btcp_good N cap (c\<lparr>b_pos := (b_pos c)(r := p), b_wire := w\<rparr>)"
proof -
  have N: "2 \<le> N" "0 < N" using assms(1) by (simp_all add: btcp_good_def)
  have "w q + rcvd_at (right_of N q) (((b_pos c)(r := p)) (right_of N q)) = sent_at q (((b_pos c)(r := p)) q)" if "q < N" for q
    using assms that right_of_neq [OF N(1) assms(2)] left_of_neq [OF N(1) assms(2)] left_right [OF that]
    by (cases "q = r"; cases "q = left_of N r") (auto simp: btcp_good_def)
  with assms(1,3) show ?thesis by (auto simp: btcp_good_def)
qed

lemma btcp_good_step:
  assumes "btcp_good N cap c" and "btcp_step N cap c d"
  shows "btcp_good N cap d"
  using assms(2)
proof cases
  case (btcp_send r h len i off)
  then have r: "r < N" "unat len = 1" "b_pos c r = (if even r then 0 else 1)" by (auto simp: bar_act_some split: if_splits)
  have g: "b_wire c q + rcvd_at (right_of N q) (b_pos c (right_of N q)) = sent_at q (b_pos c q)" if "q < N" for q
    using assms(1) that by (simp add: btcp_good_def)
  show ?thesis
    unfolding btcp_send(1)
    by (rule btcp_good_moved [OF assms(1) r(1)])
      (use g [OF r(1)] g [of "left_of N r"] r assms(1) left_of_neq [of N r] in
        \<open>auto simp: sent_at_def rcvd_at_def btcp_good_def split: if_splits\<close>)
next
  case (btcp_recv r h len i off)
  then have r: "r < N" "unat len = 1" "b_pos c r = (if even r then 1 else 0)" by (auto simp: bar_act_some split: if_splits)
  have g: "b_wire c q + rcvd_at (right_of N q) (b_pos c (right_of N q)) = sent_at q (b_pos c q)" if "q < N" for q
    using assms(1) that by (simp add: btcp_good_def)
  show ?thesis
    unfolding btcp_recv(1)
    by (rule btcp_good_moved [OF assms(1) r(1)])
      (use g [OF r(1)] g [of "left_of N r"] r assms(1) left_of_neq [of N r] btcp_recv(3) in
        \<open>auto simp: sent_at_def rcvd_at_def btcp_good_def split: if_splits\<close>)
next
  case (btcp_poll r a)
  then have r: "r < N" "b_pos c r = 2 \<or> b_pos c r = 3" by (auto simp: bar_act_some split: if_splits)
  have g: "b_wire c q + rcvd_at (right_of N q) (b_pos c (right_of N q)) = sent_at q (b_pos c q)" if "q < N" for q
    using assms(1) that by (simp add: btcp_good_def)
  have "btcp_good N cap (c\<lparr>b_pos := (b_pos c)(r := Suc (b_pos c r)), b_wire := b_wire c\<rparr>)"
    by (rule btcp_good_moved [OF assms(1) r(1)])
      (use g [OF r(1)] g [of "left_of N r"] r assms(1) in \<open>auto simp: sent_at_def rcvd_at_def btcp_good_def split: if_splits\<close>)
  then show ?thesis unfolding btcp_poll(1) by simp
qed

lemma btcp_work_step:
  assumes "btcp_good N cap c" and "btcp_step N cap c d"
  shows "btcp_work N d < btcp_work N c"
proof -
  have "\<exists>r < N. b_pos c r < 4 \<and> b_pos d = (b_pos c)(r := Suc (b_pos c r))"
    using assms(2) by cases (auto simp: bar_act_some)
  then obtain r where "r < N" "b_pos c r < 4" "b_pos d = (b_pos c)(r := Suc (b_pos c r))" by blast
  then show ?thesis unfolding btcp_work_def by (intro sum_decreases [of r]) auto
qed

text \<open>
  A rank that cannot receive waits for a left neighbour that has not sent; if that one waits too,
  it is odd, and its left neighbour, also waiting, would be odd as well.
\<close>

lemma btcp_can_step:
  assumes "btcp_good N cap c" and "r < N" and "b_pos c r < 4"
    and "b_pos c r = rph \<Longrightarrow> b_wire c (left_of N r) \<noteq> 0" and "rph = (if even r then 1 else 0)"
  shows "\<exists>d. btcp_step N cap c d"
proof -
  have w: "b_pos c r \<le> 1 - rph \<Longrightarrow> b_pos c r \<noteq> rph \<Longrightarrow> b_wire c r = 0" and cap: "1 \<le> cap"
    using assms(1,2,5) by (auto simp: btcp_good_def sent_at_def split: if_splits)
  consider "b_pos c r = rph" | "b_pos c r = 1 - rph" | "b_pos c r = 2" | "b_pos c r = 3"
    using assms(3,5) by (auto simp: below_4 split: if_splits)
  then show ?thesis
  proof cases
    case 1
    then have "bar_act True N (b_pos c) r = Some (RecvLeft L_H 1 (- 1) 0)" using assms(2,5) by (auto simp: bar_act_some)
    from btcp_recv [OF this] 1 assms(4) show ?thesis by fastforce
  next
    case 2
    then have "bar_act True N (b_pos c) r = Some (SendRight R_H 1 (- 1) 0)" using assms(2,5) by (auto simp: bar_act_some)
    from btcp_send [OF this, of cap] 2 w cap assms(5) show ?thesis by (auto split: if_splits)
  next
    case 3
    then have "bar_act True N (b_pos c) r = Some PollLeft" using assms(2) by (auto simp: bar_act_some)
    from btcp_poll [OF this] show ?thesis by blast
  next
    case 4
    then have "bar_act True N (b_pos c) r = Some PollRight" using assms(2) by (auto simp: bar_act_some)
    from btcp_poll [OF this] show ?thesis by blast
  qed
qed

lemma btcp_progress:
  assumes "btcp_good N cap c" and "\<not> btcp_finished N c"
  shows "\<exists>d. btcp_step N cap c d"
proof (rule ccontr)
  assume none: "\<nexists>d. btcp_step N cap c d"
  have N: "2 \<le> N" "0 < N" using assms(1) by (simp_all add: btcp_good_def)
  let ?rp = "\<lambda>r. if even r then 1 else 0 :: nat"
  have stuck: "b_pos c r = ?rp r \<and> b_wire c (left_of N r) = 0" if "r < N" "b_pos c r < 4" for r
    using btcp_can_step [OF assms(1) that, of "?rp r"] none by blast
  have unsent: "b_pos c (left_of N r) = 0 \<and> odd (left_of N r)" if r: "r < N" "b_pos c r < 4" for r
  proof -
    let ?l = "left_of N r"
    have "b_wire c ?l + rcvd_at r (b_pos c r) = sent_at ?l (b_pos c ?l)"
      using assms(1) N r(1) right_left [OF r(1)] by (auto simp: btcp_good_def dest: spec [of _ ?l])
    with stuck [OF r] have z: "sent_at ?l (b_pos c ?l) = 0" by (simp add: rcvd_at_def split: if_splits)
    then have "b_pos c ?l < 4" by (simp add: sent_at_def split: if_splits)
    with stuck [of ?l] N z show ?thesis by (auto simp: sent_at_def split: if_splits)
  qed
  obtain r where r: "r < N" "b_pos c r < 4"
    using assms by (auto simp: btcp_finished_def returned_def btcp_good_def le_less)
  let ?l = "left_of N r"
  have l: "?l < N" "b_pos c ?l < 4" "odd ?l" using unsent [OF r] N by simp_all
  have "odd (left_of N ?l)" using unsent [OF l(1,2)] by simp
  moreover have "left_of N ?l = ?l - 1" using l(1,3) by (cases "?l") (simp_all add: left_of_cases)
  ultimately show False using l(3) by simp
qed

interpretation btcp: terminating_system "btcp_step N cap" "btcp_start N cap" "btcp_good N cap" "btcp_finished N" "btcp_work N"
  for N cap
proof
  show "btcp_start N cap c \<Longrightarrow> btcp_good N cap c" for c
    by (auto simp: btcp_start_def btcp_good_def btcp_init_def sent_at_def rcvd_at_def)
qed (fact btcp_good_step btcp_work_step btcp_progress)+

section \<open>Posted receives\<close>

text \<open>The account of the link from a rank, at position \<open>p\<close>, to its right neighbour, at position \<open>p'\<close>.\<close>

definition link_ok :: "nat \<Rightarrow> nat \<Rightarrow> nat \<Rightarrow> nat \<Rightarrow> nat \<Rightarrow> nat \<Rightarrow> bool" where
  "link_ok p sq scq p' rq rcq \<longleftrightarrow>
     (let delivered = scq + (if p = 4 then 1 else 0)
      in p \<le> 4 \<and> sq + delivered = (if 2 \<le> p then 1 else 0) \<and> rq + delivered = (if 1 \<le> p' then 1 else 0) \<and>
         rcq + (if 3 \<le> p' then 1 else 0) = delivered)"

definition brdma_good :: "nat \<Rightarrow> brdma_cfg \<Rightarrow> bool" where
  "brdma_good N c \<longleftrightarrow> 2 \<le> N \<and>
     (\<forall>r < N. link_ok (r_pos c r) (r_sq c r) (r_scq c r) (r_pos c (right_of N r)) (r_rq c (right_of N r)) (r_rcq c (right_of N r)))"

definition brdma_finished :: "nat \<Rightarrow> brdma_cfg \<Rightarrow> bool" where
  "brdma_finished N c \<longleftrightarrow> (\<forall>r < N. returned (r_pos c) r)"

definition brdma_work :: "nat \<Rightarrow> brdma_cfg \<Rightarrow> nat" where
  "brdma_work N c = (\<Sum>r < N. 2 * (4 - r_pos c r) + r_sq c r)"

definition brdma_start :: "nat \<Rightarrow> brdma_cfg \<Rightarrow> bool" where
  "brdma_start N c \<longleftrightarrow> 2 \<le> N \<and> c = brdma_init"

lemma brdma_goodI:
  assumes "brdma_good N c" and "r < N"
    and "link_ok (r_pos d r) (r_sq d r) (r_scq d r) (r_pos d (right_of N r)) (r_rq d (right_of N r)) (r_rcq d (right_of N r))"
    and "link_ok (r_pos d (left_of N r)) (r_sq d (left_of N r)) (r_scq d (left_of N r)) (r_pos d r) (r_rq d r) (r_rcq d r)"
    and "\<And>q. q \<noteq> r \<Longrightarrow> r_pos d q = r_pos c q \<and> r_sq d q = r_sq c q \<and> r_scq d q = r_scq c q"
    and "\<And>q. q \<noteq> r \<Longrightarrow> q \<noteq> right_of N r \<Longrightarrow> r_rq d q = r_rq c q \<and> r_rcq d q = r_rcq c q"
  shows "brdma_good N d"
proof -
  have N: "2 \<le> N" "0 < N" using assms(1) by (simp_all add: brdma_good_def)
  have "link_ok (r_pos d q) (r_sq d q) (r_scq d q) (r_pos d (right_of N q)) (r_rq d (right_of N q)) (r_rcq d (right_of N q))"
    if q: "q < N" for q
  proof -
    consider "q = r" | "q = left_of N r" | "q \<noteq> r" "right_of N q \<noteq> r" "right_of N q \<noteq> right_of N r"
      using left_right [OF q] right_of_inj [OF q assms(2)] by metis
    then show ?thesis
      using assms(1,3,4,5) assms(6) [of "right_of N q"] q right_left [OF assms(2)]
      by cases (simp_all add: brdma_good_def)
  qed
  with N(1) show ?thesis by (simp add: brdma_good_def)
qed

lemma brdma_goodD:
  assumes "brdma_good N c" and "r < N"
  shows "link_ok (r_pos c r) (r_sq c r) (r_scq c r) (r_pos c (right_of N r)) (r_rq c (right_of N r)) (r_rcq c (right_of N r))"
    and "link_ok (r_pos c (left_of N r)) (r_sq c (left_of N r)) (r_scq c (left_of N r)) (r_pos c r) (r_rq c r) (r_rcq c r)"
proof -
  show "link_ok (r_pos c r) (r_sq c r) (r_scq c r) (r_pos c (right_of N r)) (r_rq c (right_of N r)) (r_rcq c (right_of N r))"
    using assms by (simp add: brdma_good_def)
  have "left_of N r < N" using assms(2) by simp
  then show "link_ok (r_pos c (left_of N r)) (r_sq c (left_of N r)) (r_scq c (left_of N r)) (r_pos c r) (r_rq c r) (r_rcq c r)"
    using assms by (auto simp: brdma_good_def dest: spec [of _ "left_of N r"])
qed

lemma brdma_good_step:
  assumes "brdma_good N c" and "brdma_step N c d"
  shows "brdma_good N d"
proof -
  have N: "2 \<le> N" using assms(1) by (simp add: brdma_good_def)
  show ?thesis
    using assms(2)
  proof cases
    case (brdma_send r h len i off)
    then have r: "r < N" "r_pos c r = 1" by (auto simp: bar_act_some split: if_splits)
    show ?thesis
      by (rule brdma_goodI [OF assms(1) r(1)])
        (use brdma_goodD [OF assms(1) r(1)] r left_of_neq [OF N r(1)] right_of_neq [OF N r(1)] brdma_send(1) in
          \<open>auto simp: link_ok_def Let_def split: if_splits\<close>)
  next
    case (brdma_recv r h len i off)
    then have r: "r < N" "r_pos c r = 0" by (auto simp: bar_act_some split: if_splits)
    show ?thesis
      by (rule brdma_goodI [OF assms(1) r(1)])
        (use brdma_goodD [OF assms(1) r(1)] r left_of_neq [OF N r(1)] right_of_neq [OF N r(1)] brdma_recv(1) in
          \<open>auto simp: link_ok_def Let_def split: if_splits\<close>)
  next
    case (brdma_deliver r q m n)
    show ?thesis
      by (rule brdma_goodI [OF assms(1) brdma_deliver(2)])
        (use brdma_goodD [OF assms(1) brdma_deliver(2)] brdma_deliver left_of_neq [OF N brdma_deliver(2)]
          right_of_neq [OF N brdma_deliver(2)] in \<open>auto simp: link_ok_def Let_def split: if_splits\<close>)
  next
    case (brdma_poll_left r n)
    then have r: "r < N" "r_pos c r = 2" by (auto simp: bar_act_some split: if_splits)
    show ?thesis
      by (rule brdma_goodI [OF assms(1) r(1)])
        (use brdma_goodD [OF assms(1) r(1)] r left_of_neq [OF N r(1)] right_of_neq [OF N r(1)] brdma_poll_left(1,3) in
          \<open>auto simp: link_ok_def Let_def split: if_splits\<close>)
  next
    case (brdma_poll_right r n)
    then have r: "r < N" "r_pos c r = 3" by (auto simp: bar_act_some split: if_splits)
    show ?thesis
      by (rule brdma_goodI [OF assms(1) r(1)])
        (use brdma_goodD [OF assms(1) r(1)] r left_of_neq [OF N r(1)] right_of_neq [OF N r(1)] brdma_poll_right(1,3) in
          \<open>auto simp: link_ok_def Let_def split: if_splits\<close>)
  qed
qed

lemma brdma_work_step:
  assumes "brdma_good N c" and "brdma_step N c d"
  shows "brdma_work N d < brdma_work N c"
proof -
  have "\<exists>r < N. 2 * (4 - r_pos d r) + r_sq d r < 2 * (4 - r_pos c r) + r_sq c r \<and>
      (\<forall>q. q \<noteq> r \<longrightarrow> r_pos d q = r_pos c q \<and> r_sq d q = r_sq c q)"
    using assms(2) by cases (auto simp: bar_act_some)
  then obtain r where "r < N" "2 * (4 - r_pos d r) + r_sq d r < 2 * (4 - r_pos c r) + r_sq c r"
    "\<forall>q. q \<noteq> r \<longrightarrow> r_pos d q = r_pos c q \<and> r_sq d q = r_sq c q" by blast
  then show ?thesis unfolding brdma_work_def by (intro sum_decreases [of r]) auto
qed

lemma brdma_progress:
  assumes "brdma_good N c" and "\<not> brdma_finished N c"
  shows "\<exists>d. brdma_step N c d"
proof (cases "\<exists>r < N. r_pos c r < 2")
  case True
  then obtain r where r: "r < N" "r_pos c r = 0 \<or> r_pos c r = 1" by (auto simp: less_2_cases_iff)
  then show ?thesis
    using brdma_recv [of N c r L_H 1 "-1" 0] brdma_send [of N c r R_H 1 "-1" 0]
    by (auto simp: bar_act_some)
next
  case False
  then have all: "\<And>r. r < N \<Longrightarrow> 2 \<le> r_pos c r" by (meson not_less)
  obtain r where r: "r < N" "r_pos c r \<noteq> 4"
    using assms by (auto simp: brdma_finished_def returned_def)
  have deliver: "\<exists>d. brdma_step N c d" if x: "x < N" "r_scq c x = 0" "r_pos c x \<noteq> 4" for x
  proof -
    have "2 \<le> r_pos c x" "2 \<le> r_pos c (right_of N x)" using all x by simp_all
    with brdma_goodD(1) [OF assms(1) x(1)] x have "r_sq c x = Suc 0" "r_rq c (right_of N x) = Suc 0"
      by (auto simp: link_ok_def Let_def)
    from brdma_deliver [OF x(1) refl this] show ?thesis by blast
  qed
  show ?thesis
  proof (cases "r_pos c r = 2")
    case True
    let ?l = "left_of N r"
    show ?thesis
    proof (cases "r_rcq c r")
      case (Suc n)
      from brdma_poll_left [OF _ Suc] True r(1) show ?thesis by (auto simp: bar_act_some)
    next
      case 0
      then have "r_scq c ?l = 0" "r_pos c ?l \<noteq> 4"
        using brdma_goodD(2) [OF assms(1) r(1)] True by (auto simp: link_ok_def Let_def split: if_splits)
      then show ?thesis using deliver [of ?l] r(1) by simp
    qed
  next
    case False
    have "r_pos c r \<le> 4" using brdma_goodD(1) [OF assms(1) r(1)] by (simp add: link_ok_def Let_def)
    then have 3: "r_pos c r = 3" using all [OF r(1)] False r(2) by simp
    show ?thesis
    proof (cases "r_scq c r")
      case (Suc n)
      from brdma_poll_right [OF _ Suc] 3 r(1) show ?thesis by (auto simp: bar_act_some)
    next
      case 0
      then show ?thesis using deliver [OF r(1)] 3 by simp
    qed
  qed
qed

interpretation brdma: terminating_system "brdma_step N" "brdma_start N" "brdma_good N" "brdma_finished N" "brdma_work N"
  for N
proof
  show "brdma_start N c \<Longrightarrow> brdma_good N c" for c
    by (auto simp: brdma_start_def brdma_good_def brdma_init_def link_ok_def)
qed (fact brdma_good_step brdma_work_step brdma_progress)+

section \<open>Properties\<close>

text \<open>
  C19. The barrier always ends: over byte streams of any capacity and over posted receives, no run is
  infinite, and a run that cannot go on has every rank returned.
\<close>

theorem barrier_ends:
  assumes "2 \<le> N" and "1 \<le> cap"
  shows "(\<forall>c. (btcp_step N cap)\<^sup>*\<^sup>* btcp_init c \<and> (\<nexists>d. btcp_step N cap c d) \<longrightarrow> (\<forall>r < N. returned (b_pos c) r)) \<and>
    (\<forall>c. (brdma_step N)\<^sup>*\<^sup>* brdma_init c \<and> (\<nexists>d. brdma_step N c d) \<longrightarrow> (\<forall>r < N. returned (r_pos c) r)) \<and>
    (\<forall>f. f 0 = btcp_init \<longrightarrow> \<not> (\<forall>i. btcp_step N cap (f i) (f (Suc i)))) \<and>
    (\<forall>f. f 0 = brdma_init \<longrightarrow> \<not> (\<forall>i. brdma_step N (f i) (f (Suc i))))"
proof -
  have s: "btcp_start N cap btcp_init" "brdma_start N brdma_init" using assms by (simp_all add: btcp_start_def brdma_start_def)
  show ?thesis
    using btcp.stuck_finished [OF s(1)] brdma.stuck_finished [OF s(2)]
      btcp.no_infinite_run [OF s(1)] brdma.no_infinite_run [OF s(2)]
    by (simp add: btcp_finished_def brdma_finished_def)
qed

theorem barrier_ends_witness:
  "\<exists>c. (btcp_step 3 1)\<^sup>*\<^sup>* btcp_init c \<and> (\<forall>r < 3. returned (b_pos c) r)"
proof -
  have "btcp_start 3 1 btcp_init" by (simp add: btcp_start_def)
  then obtain c where c: "(btcp_step 3 1)\<^sup>*\<^sup>* btcp_init c" "\<nexists>d. btcp_step 3 1 c d" using btcp.reaches_stuck by blast
  have "\<forall>r < 3. returned (b_pos c) r" using barrier_ends [of 3 1] c by simp
  with c(1) show ?thesis by blast
qed

text \<open>
  C20. Who has arrived when a rank returns from the barrier: over posted receives both neighbours, over
  byte streams the left one.
\<close>

theorem barrier_arrivals:
  assumes "2 \<le> N" and "1 \<le> cap" and "r < N"
  shows "((brdma_step N)\<^sup>*\<^sup>* brdma_init c \<and> returned (r_pos c) r \<longrightarrow>
      arrived (r_pos c) (left_of N r) \<and> arrived (r_pos c) (right_of N r)) \<and>
    ((btcp_step N cap)\<^sup>*\<^sup>* btcp_init d \<and> returned (b_pos d) r \<longrightarrow> arrived (b_pos d) (left_of N r))"
proof (intro conjI impI; (elim conjE)?)
  assume run: "(brdma_step N)\<^sup>*\<^sup>* brdma_init c" and ret: "returned (r_pos c) r"
  have "brdma_good N c" using brdma.reach_good [OF _ run] assms(1) by (simp add: brdma_start_def)
  note g = brdma_goodD [OF this assms(3)]
  show "arrived (r_pos c) (left_of N r)"
    using g(2) ret by (cases "r_pos c (left_of N r)") (auto simp: link_ok_def Let_def returned_def arrived_def)
  show "arrived (r_pos c) (right_of N r)"
    using g(1) ret by (cases "r_pos c (right_of N r)") (auto simp: link_ok_def Let_def returned_def arrived_def)
next
  assume run: "(btcp_step N cap)\<^sup>*\<^sup>* btcp_init d" and ret: "returned (b_pos d) r"
  have "btcp_good N cap d" using btcp.reach_good [OF _ run] assms(1,2) by (simp add: btcp_start_def)
  moreover have "left_of N r < N" using assms(3) by simp
  ultimately have "b_wire d (left_of N r) + rcvd_at r (b_pos d r) = sent_at (left_of N r) (b_pos d (left_of N r))"
    using right_left [OF assms(3)] by (auto simp: btcp_good_def dest: spec [of _ "left_of N r"])
  with ret show "arrived (b_pos d) (left_of N r)"
    by (auto simp: returned_def arrived_def rcvd_at_def sent_at_def split: if_splits)
qed

theorem barrier_arrivals_witness:
  "\<exists>c. (brdma_step 2)\<^sup>*\<^sup>* brdma_init c \<and> returned (r_pos c) 0 \<and> arrived (r_pos c) 1"
proof -
  have "brdma_start 2 brdma_init" by (simp add: brdma_start_def)
  then obtain c where c: "(brdma_step 2)\<^sup>*\<^sup>* brdma_init c" "brdma_finished 2 c" using brdma.reaches_finished by blast
  then have r: "returned (r_pos c) 0" by (simp add: brdma_finished_def)
  have "right_of 2 0 = 1" by (simp add: right_of_def)
  with barrier_arrivals [of 2 1 0 c] c(1) r show ?thesis by auto
qed

text \<open>
  Over byte streams a rank of three can return from the barrier while its right neighbour has not
  arrived: rank 2 has sent, rank 0 sends into the stream to rank 1, receives and returns.
\<close>

theorem barrier_tcp_right_absent:
  "\<exists>c. (btcp_step 3 1)\<^sup>*\<^sup>* btcp_init c \<and> returned (b_pos c) 0 \<and> \<not> arrived (b_pos c) (right_of 3 0)"
proof -
  let ?c1 = "\<lparr>b_pos = (\<lambda>_. 0)(2 := 1), b_wire = (\<lambda>_. 0)(2 := 1)\<rparr>"
  let ?c2 = "\<lparr>b_pos = (\<lambda>_. 0)(2 := 1, 0 := 1), b_wire = (\<lambda>_. 0)(2 := 1, 0 := 1)\<rparr>"
  let ?c3 = "\<lparr>b_pos = (\<lambda>_. 0)(2 := 1, 0 := 2), b_wire = (\<lambda>_. 0)(2 := 0, 0 := 1)\<rparr>"
  let ?c4 = "\<lparr>b_pos = (\<lambda>_. 0)(2 := 1, 0 := 3), b_wire = (\<lambda>_. 0)(2 := 0, 0 := 1)\<rparr>"
  let ?c5 = "\<lparr>b_pos = (\<lambda>_. 0)(2 := 1, 0 := 4), b_wire = (\<lambda>_. 0)(2 := 0, 0 := 1)\<rparr>"
  have s1: "btcp_step 3 1 btcp_init ?c1"
    using btcp_send [of 3 btcp_init 2 R_H 1 "-1" 0 1] by (simp add: bar_act_some btcp_init_def)
  have s2: "btcp_step 3 1 ?c1 ?c2"
    using btcp_send [of 3 ?c1 0 R_H 1 "-1" 0 1] by (simp add: bar_act_some)
  have s3: "btcp_step 3 1 ?c2 ?c3"
    using btcp_recv [of 3 ?c2 0 L_H 1 "-1" 0 1] by (simp add: bar_act_some left_of_def fun_upd_twist numeral_2_eq_2)
  have s4: "btcp_step 3 1 ?c3 ?c4"
    using btcp_poll [of 3 ?c3 0 PollLeft 1] by (simp add: bar_act_some)
  have s5: "btcp_step 3 1 ?c4 ?c5"
    using btcp_poll [of 3 ?c4 0 PollRight 1] by (simp add: bar_act_some)
  have "(btcp_step 3 1)\<^sup>*\<^sup>* btcp_init ?c5"
    by (rule converse_rtranclp_into_rtranclp, rule s1, rule converse_rtranclp_into_rtranclp, rule s2,
        rule converse_rtranclp_into_rtranclp, rule s3, rule converse_rtranclp_into_rtranclp, rule s4, rule r_into_rtranclp, rule s5)
  then show ?thesis by (intro exI [of _ ?c5]) (simp add: returned_def arrived_def right_of_def)
qed


end
