(* ===== verification/Env.thy ===== *)
theory Env
  imports Prelude "HOL-Library.State_Monad" "HOL-Library.Multiset"
begin

text \<open>
  The outside of the program: the calls it makes to libc, the sockets, libibverbs and
  librdmacm, whose code is not part of the repository. An environment \<open>env\<close> answers every
  call as it likes, from the history of all the calls so far, so a theorem about every
  environment covers every behaviour of the outside. Running code extends the history
  (\<open>trace\<close>, newest event first): what the program did is then a fact about its trace, and
  \<open>live\<close> counts what it has acquired and not yet released.
\<close>

section \<open>Definitions\<close>

subsection \<open>Calls\<close>

type_synonym handle = int     \<comment> \<open>a pointer to an object of a library; 0 is NULL\<close>

text \<open>The flags of libibverbs the program uses; a combination is a set of them.\<close>

datatype send_flag = SEND_SIGNALED | SEND_INLINE

datatype access_flag = ACCESS_LOCAL_WRITE | ACCESS_REMOTE_READ | ACCESS_REMOTE_WRITE

datatype qp_attr =
    Attr_init int int "access_flag set"             \<comment> \<open>port, pkey_index, qp_access_flags\<close>
  | Attr_rtr int u32 u32 int int "byte list" int int int   \<comment> \<open>mtu, dest_qp_num, rq_psn, max_dest_rd_atomic, min_rnr_timer, dgid, sgid_index, hop_limit, port\<close>
  | Attr_rts u32 int int int int                   \<comment> \<open>sq_psn, max_rd_atomic, timeout, retry_cnt, rnr_retry\<close>
  | Attr_rnr int                                   \<comment> \<open>min_rnr_timer\<close>

datatype opcode = WR_SEND | WR_RDMA_WRITE | WR_RDMA_READ

record sge =
  sge_addr :: u64
  sge_length :: u32
  sge_lkey :: u32

record send_wr =
  wr_id :: u64
  wr_sge :: sge
  wr_opcode :: opcode
  wr_flags :: "send_flag set"
  wr_remote_addr :: u64
  wr_rkey :: u32

datatype call =
    Socket | Set_reuseaddr int | Set_nodelay int | Bind int int | Listen int int | Accept int
  | Inet_pton string | Connect int string int | Send int "byte list" | Recv int nat | Close int
  | Sysconf_pagesize | Posix_memalign int u64 | Malloc u64 | Free u64 | Usleep int | Clock_gettime
  | Load u64 | Store u64 "byte list" | Memset u64 byte u64     \<comment> \<open>memory the other end writes, or reads\<close>
  | Get_device_list | Get_device_name handle | Open_device handle | Query_device handle
  | Close_device handle | Free_device_list
  | Query_port handle int | Query_gid_ex handle int int | Query_gid handle int int
  | Alloc_pd handle | Dealloc_pd handle
  | Create_cq handle int | Destroy_cq handle
  | Create_qp handle handle int int int | Destroy_qp handle   \<comment> \<open>pd, cq, max_send_wr, max_recv_wr, max_inline_data\<close>
  | Modify_qp handle qp_attr
  | Reg_mr handle u64 u64 "access_flag set" | Dereg_mr handle    \<comment> \<open>pd, address, length, access flags\<close>
  | Post_send handle send_wr | Post_recv handle u64 sge | Poll_cq handle
  | Poll_cq_batch handle int      \<comment> \<open>room for more than one completion\<close>
  | Create_event_channel | Destroy_event_channel handle
  | Create_id handle | Destroy_id handle
  | Bind_addr handle int | Cm_listen handle int | Resolve_addr handle string int int | Resolve_route handle int
  | Get_cm_event handle | Ack_cm_event handle
  | Cm_create_qp handle handle handle int int int | Cm_destroy_qp handle
  | Cm_accept handle int int int | Cm_connect handle int int int

text \<open>An event is a call, what it returned, and the bytes it delivered.\<close>

type_synonym event = "call \<times> int \<times> byte list"
type_synonym trace = "event list"

datatype cm_event = CONNECT_REQUEST | ADDR_RESOLVED | ROUTE_RESOLVED | ESTABLISHED | OTHER_EVENT nat

text \<open>
  The environment. \<open>e_ret\<close> is the return value (the handle, for a call that returns a
  pointer) and \<open>e_data\<close> the bytes a \<open>recv\<close> stores; the other fields are what a call leaves
  behind a pointer argument, or a field of an object of the libraries, as of the trace that
  ends with the call.
\<close>

record env =
  e_ret :: "trace \<Rightarrow> call \<Rightarrow> int"
  e_data :: "trace \<Rightarrow> call \<Rightarrow> byte list"
  e_getenv_device :: "string option"
  e_devices :: "trace \<Rightarrow> handle list"          \<comment> \<open>the NULL-terminated device list\<close>
  e_device_name :: "handle \<Rightarrow> string"
  e_node_guid :: "trace \<Rightarrow> u64"
  e_gid_tbl_len :: "trace \<Rightarrow> nat"
  e_active_mtu :: "trace \<Rightarrow> int"
  e_gid_type_v2 :: "trace \<Rightarrow> bool"            \<comment> \<open>\<open>entry.gid_type == IBV_GID_TYPE_ROCE_V2\<close>\<close>
  e_gid :: "trace \<Rightarrow> byte list"
  e_qp_num :: "handle \<Rightarrow> u32"
  e_max_inline :: "trace \<Rightarrow> u32"               \<comment> \<open>\<open>cap.max_inline_data\<close> as updated\<close>
  e_mr_lkey :: "handle \<Rightarrow> u32"
  e_mr_rkey :: "handle \<Rightarrow> u32"
  e_mr_addr :: "handle \<Rightarrow> u64"
  e_memory :: "trace \<Rightarrow> u64"                   \<comment> \<open>the block \<open>posix_memalign\<close> returns\<close>
  e_wc_success :: "trace \<Rightarrow> bool"             \<comment> \<open>\<open>wc.status == IBV_WC_SUCCESS\<close>\<close>
  e_wc_wr_id :: "trace \<Rightarrow> u64"
  e_wc_ok :: "trace \<Rightarrow> nat \<Rightarrow> bool"           \<comment> \<open>\<open>wc[k].status == IBV_WC_SUCCESS\<close>\<close>
  e_cm_event :: "trace \<Rightarrow> cm_event"
  e_cm_event_id :: "trace \<Rightarrow> handle"           \<comment> \<open>\<open>event->id\<close>\<close>
  e_cm_new_id :: "trace \<Rightarrow> handle"             \<comment> \<open>what \<open>rdma_create_id\<close> stores\<close>
  e_cm_verbs :: "handle \<Rightarrow> handle"             \<comment> \<open>\<open>id->verbs\<close>\<close>
  e_cm_qp :: "trace \<Rightarrow> handle \<Rightarrow> handle"       \<comment> \<open>\<open>id->qp\<close>\<close>

definition exec_call :: "env \<Rightarrow> call \<Rightarrow> (trace, int) state" where
  "exec_call E c = State (\<lambda>t. (e_ret E t c, (c, e_ret E t c, e_data E t c) # t))"

definition look :: "(trace \<Rightarrow> 'a) \<Rightarrow> (trace, 'a) state" where
  "look f = State (\<lambda>t. (f t, t))"

abbreviation ret :: "'a \<Rightarrow> (trace, 'a) state" where
  "ret \<equiv> State_Monad.return"

subsection \<open>What is held\<close>

datatype res =
    Fd int | Memory u64 | Dev_list | Dev handle | Pd handle | Cq handle | Qp handle | Mr handle
  | Cm_id handle | Cm_channel handle | Cm_qp handle | Cm_event

text \<open>
  What a call that returned \<open>r\<close> adds to the held resources; the handle it stores through a
  pointer argument is read as of the trace \<open>t\<close> that ends with it. A call that releases
  counts as made: the program is held to making it, and what a library does when it then
  reports a failure is not the program's to undo.
\<close>

fun acquired :: "env \<Rightarrow> trace \<Rightarrow> call \<Rightarrow> int \<Rightarrow> res multiset" where
  "acquired E t Socket r = (if 0 \<le> r then {#Fd r#} else {#})"
| "acquired E t (Accept fd) r = (if 0 \<le> r then {#Fd r#} else {#})"
| "acquired E t (Posix_memalign a n) r = (if r = 0 then {#Memory (e_memory E t)#} else {#})"
| "acquired E t (Malloc n) r = (if r \<noteq> 0 then {#Memory (word_of_int r)#} else {#})"
| "acquired E t Get_device_list r = (if r \<noteq> 0 then {#Dev_list#} else {#})"
| "acquired E t (Open_device d) r = (if r \<noteq> 0 then {#Dev r#} else {#})"
| "acquired E t (Alloc_pd d) r = (if r \<noteq> 0 then {#Pd r#} else {#})"
| "acquired E t (Create_cq d n) r = (if r \<noteq> 0 then {#Cq r#} else {#})"
| "acquired E t (Create_qp p q a b c) r = (if r \<noteq> 0 then {#Qp r#} else {#})"
| "acquired E t (Reg_mr p a n f) r = (if r \<noteq> 0 then {#Mr r#} else {#})"
| "acquired E t Create_event_channel r = (if r \<noteq> 0 then {#Cm_channel r#} else {#})"
| "acquired E t (Create_id ec) r = (if r = 0 then {#Cm_id (e_cm_new_id E t)#} else {#})"
| "acquired E t (Cm_create_qp i p q a b c) r = (if r = 0 then {#Cm_qp i#} else {#})"
| "acquired E t (Get_cm_event ec) r =
     (if r = 0 then {#Cm_event#} +
        (if e_cm_event E t = CONNECT_REQUEST then {#Cm_id (e_cm_event_id E t)#} else {#})
      else {#})"
| "acquired E t c r = {#}"

fun released :: "call \<Rightarrow> res multiset" where
  "released (Close fd) = {#Fd fd#}"
| "released (Free p) = {#Memory p#}"
| "released Free_device_list = {#Dev_list#}"
| "released (Close_device d) = {#Dev d#}"
| "released (Dealloc_pd d) = {#Pd d#}"
| "released (Destroy_cq d) = {#Cq d#}"
| "released (Destroy_qp d) = {#Qp d#}"
| "released (Dereg_mr d) = {#Mr d#}"
| "released (Destroy_event_channel d) = {#Cm_channel d#}"
| "released (Destroy_id d) = {#Cm_id d#}"
| "released (Cm_destroy_qp d) = {#Cm_qp d#}"
| "released (Ack_cm_event ec) = {#Cm_event#}"
| "released c = {#}"

primrec live :: "env \<Rightarrow> trace \<Rightarrow> res multiset" where
  "live E [] = {#}"
| "live E (e # t) =
     (case e of (c, r, d) \<Rightarrow> (live E t + acquired E (e # t) c r) - released c)"

section \<open>Running\<close>

lemma run_bind [run_simps]:
  "run_state (State_Monad.bind m f) t = (case run_state m t of (a, u) \<Rightarrow> run_state (f a) u)"
  by (simp add: State_Monad.bind_def)

lemma run_call [run_simps]:
  "run_state (exec_call E c) t = (e_ret E t c, (c, e_ret E t c, e_data E t c) # t)"
  by (simp add: exec_call_def)

lemma run_look [run_simps]: "run_state (look f) t = (f t, t)"
  by (simp add: look_def)

lemma run_if [run_simps]: "run_state (if b then m else n) t = (if b then run_state m t else run_state n t)"
  by simp

text \<open>An environment in which every call succeeds.\<close>

definition calm :: env where
  "calm = \<lparr>e_ret = (\<lambda>t c. case c of
       Socket \<Rightarrow> 3 | Accept fd \<Rightarrow> 4 | Inet_pton s \<Rightarrow> 1 | Send fd xs \<Rightarrow> int (length xs) | Recv fd n \<Rightarrow> int n
     | Sysconf_pagesize \<Rightarrow> 4096 | Get_device_list \<Rightarrow> 1 | Open_device d \<Rightarrow> 11 | Alloc_pd d \<Rightarrow> 12
     | Create_cq d n \<Rightarrow> 13 | Create_qp p q a b c \<Rightarrow> 14 | Reg_mr p a n f \<Rightarrow> 15
     | Create_event_channel \<Rightarrow> 16 | Poll_cq q \<Rightarrow> 1 | Malloc n \<Rightarrow> 8192 | _ \<Rightarrow> 0),
     e_data = (\<lambda>t c. case c of Recv fd n \<Rightarrow> replicate n 1 | _ \<Rightarrow> []),
     e_getenv_device = None, e_devices = (\<lambda>t. [7]), e_device_name = (\<lambda>d. ''dev0''),
     e_node_guid = (\<lambda>t. 5), e_gid_tbl_len = (\<lambda>t. 1), e_active_mtu = (\<lambda>t. 5), e_gid_type_v2 = (\<lambda>t. True),
     e_gid = (\<lambda>t. replicate 10 0 @ [255, 255, 10, 0, 0, 1]), e_qp_num = (\<lambda>h. 99), e_max_inline = (\<lambda>t. 220),
     e_mr_lkey = (\<lambda>h. 21), e_mr_rkey = (\<lambda>h. 22), e_mr_addr = (\<lambda>h. 4096), e_memory = (\<lambda>t. 4096),
     e_wc_success = (\<lambda>t. True), e_wc_wr_id = (\<lambda>t. 0), e_wc_ok = (\<lambda>t k. True),
     e_cm_event = (\<lambda>t. CONNECT_REQUEST), e_cm_event_id = (\<lambda>t. 31), e_cm_new_id = (\<lambda>t. 30),
     e_cm_verbs = (\<lambda>h. 32), e_cm_qp = (\<lambda>t h. 33)\<rparr>"

end
