(* ===== verification/Bytes.thy ===== *)
theory Bytes
  imports Prelude
begin

text \<open>
  Objects as the bytes they occupy in memory, little-endian as on the machines the program
  is built for: unsigned numbers of any width, and C's 32-bit \<open>int\<close>. A structure sent over a
  socket is sent as these bytes, so reading back what was written is what makes two peers
  agree.
\<close>

section \<open>Definitions\<close>

primrec le_bytes :: "nat \<Rightarrow> nat \<Rightarrow> byte list" where
  "le_bytes 0 v = []"
| "le_bytes (Suc n) v = word_of_nat (v mod 256) # le_bytes n (v div 256)"

primrec le_val :: "byte list \<Rightarrow> nat" where
  "le_val [] = 0"
| "le_val (b # bs) = unat b + 256 * le_val bs"

definition u64_bytes :: "u64 \<Rightarrow> byte list" where
  "u64_bytes w = le_bytes 8 (unat w)"

definition u64_val :: "byte list \<Rightarrow> u64" where
  "u64_val bs = word_of_nat (le_val bs)"

definition u32_bytes :: "u32 \<Rightarrow> byte list" where
  "u32_bytes w = le_bytes 4 (unat w)"

definition u32_val :: "byte list \<Rightarrow> u32" where
  "u32_val bs = word_of_nat (le_val bs)"

text \<open>A C \<open>int\<close>, as the number it stands for.\<close>

definition int32_bytes :: "int \<Rightarrow> byte list" where
  "int32_bytes i = u32_bytes (word_of_int i)"

definition int32_val :: "byte list \<Rightarrow> int" where
  "int32_val bs = sint (u32_val bs)"

definition is_int32 :: "int \<Rightarrow> bool" where
  "is_int32 i \<longleftrightarrow> - (2 ^ 31) \<le> i \<and> i < 2 ^ 31"

section \<open>Reading back what was written\<close>

lemma length_le_bytes [simp]: "length (le_bytes n v) = n"
  by (induction n arbitrary: v) auto

lemma le_val_bytes: "le_val (le_bytes n v) = v mod 256 ^ n"
proof (induction n arbitrary: v)
  case (Suc n)
  have "unat (word_of_nat (v mod 256) :: byte) = v mod 256"
    by (simp add: unat_of_nat take_bit_eq_mod)
  with Suc show ?case by (simp add: mod_mult2_eq add.commute mult.commute)
qed simp

lemma le_val_less: "le_val bs < 256 ^ length bs"
proof (induction bs)
  case (Cons b bs)
  have "unat b < 256" using unsigned_less [of b, where ?'a = nat] by simp
  moreover have "256 * le_val bs + 256 \<le> 256 * 256 ^ length bs"
    using Cons by (metis Suc_leI mult_Suc_right add.commute mult_le_mono2)
  ultimately show ?case by simp
qed simp

lemma le_bytes_val: "length bs = n \<Longrightarrow> le_bytes n (le_val bs) = bs"
proof (induction bs arbitrary: n)
  case (Cons b bs)
  have "unat b < 256" using unsigned_less [of b, where ?'a = nat] by simp
  with Cons show ?case by (cases n) auto
qed simp

lemma u64_round [simp]: "u64_val (u64_bytes w) = w"
proof -
  have "unat w < 256 ^ 8" using unsigned_less [of w, where ?'a = nat] by simp
  then show ?thesis by (simp add: u64_val_def u64_bytes_def le_val_bytes)
qed

lemma u32_round [simp]: "u32_val (u32_bytes w) = w"
proof -
  have "unat w < 256 ^ 4" using unsigned_less [of w, where ?'a = nat] by simp
  then show ?thesis by (simp add: u32_val_def u32_bytes_def le_val_bytes)
qed

lemma u64_bytes_val: "length bs = 8 \<Longrightarrow> u64_bytes (u64_val bs) = bs"
  using le_val_less [of bs] le_bytes_val [of bs 8]
  by (simp add: u64_bytes_def u64_val_def unat_of_nat take_bit_eq_mod)

lemma u32_bytes_val: "length bs = 4 \<Longrightarrow> u32_bytes (u32_val bs) = bs"
  using le_val_less [of bs] le_bytes_val [of bs 4]
  by (simp add: u32_bytes_def u32_val_def unat_of_nat take_bit_eq_mod)

lemma length_u64_bytes [simp]: "length (u64_bytes w) = 8"
  by (simp add: u64_bytes_def)

lemma length_u32_bytes [simp]: "length (u32_bytes w) = 4"
  by (simp add: u32_bytes_def)

lemma length_int32_bytes [simp]: "length (int32_bytes i) = 4"
  by (simp add: int32_bytes_def)

lemma int32_round: "is_int32 i \<Longrightarrow> int32_val (int32_bytes i) = i"
  by (simp add: int32_val_def int32_bytes_def is_int32_def sint_sbintrunc' signed_take_bit_int_eq_self)

lemma is_int32_val: "is_int32 (int32_val bs)"
  using sint_greater_eq [of "u32_val bs"] sint_less [of "u32_val bs"]
  by (simp add: is_int32_def int32_val_def)

end
