(* ===== verification/Rai_Types.thy ===== *)
theory Rai_Types
  imports Env Bytes
begin

text \<open>
  The structures of rdma_common.h: connection information as it goes over the wire, memory
  regions and queue pairs. A pointer to an object of libibverbs or librdmacm is a handle,
  NULL is 0; a pointer argument of a function that may be NULL is an \<open>option\<close>.
\<close>

section \<open>Definitions\<close>

definition RAI_QP_MAX_WR :: int where
  "RAI_QP_MAX_WR = 128"

definition RAI_MAX_INLINE :: int where
  "RAI_MAX_INLINE = 220"

datatype rai_conn_mode = RAI_CONN_CM | RAI_CONN_VERBS

text \<open>
  \<open>ci_pad\<close> is the tail padding: the fields take 36 bytes and the structure is aligned to the
  8 bytes of its first field, so the verbatim copy on the wire has four more.
\<close>

record rai_conn_info =
  ci_addr :: u64
  ci_gid :: "byte list"
  ci_rkey :: u32
  ci_qpn :: u32
  ci_psn :: u32
  ci_pad :: u32

record rai_mr =
  mr_mr :: handle
  mr_buf :: u64
  mr_size :: u64
  owns_buf :: bool

record rai_qp =
  q_ctx :: handle
  q_pd :: handle
  q_cq :: handle
  q_qp :: handle
  q_mode :: rai_conn_mode
  q_cm_id :: handle
  q_ec :: handle
  q_port_num :: int
  q_gid_index :: int
  q_max_inline :: u32
  q_local :: rai_conn_info
  q_remote :: rai_conn_info

text \<open>What \<open>memset(..., 0, sizeof ...)\<close> leaves.\<close>

definition conn_info_zero :: rai_conn_info where
  "conn_info_zero = \<lparr>ci_addr = 0, ci_gid = replicate 16 0, ci_rkey = 0, ci_qpn = 0, ci_psn = 0, ci_pad = 0\<rparr>"

definition mr_zero :: rai_mr where
  "mr_zero = \<lparr>mr_mr = 0, mr_buf = 0, mr_size = 0, owns_buf = False\<rparr>"

definition qp_zero :: rai_qp where
  "qp_zero = \<lparr>q_ctx = 0, q_pd = 0, q_cq = 0, q_qp = 0, q_mode = RAI_CONN_CM, q_cm_id = 0, q_ec = 0,
     q_port_num = 0, q_gid_index = 0, q_max_inline = 0, q_local = conn_info_zero, q_remote = conn_info_zero\<rparr>"

text \<open>
  The structure has no encoding code: \<open>sizeof\<close> bytes of its memory are sent and received as they are.
  These are its bytes as the platform lays them out (little endian, no gap before the tail), and
  the structure that such bytes are.
\<close>

definition conn_info_bytes :: "rai_conn_info \<Rightarrow> byte list" where
  "conn_info_bytes i = u64_bytes (ci_addr i) @ ci_gid i @ u32_bytes (ci_rkey i) @ u32_bytes (ci_qpn i) @
     u32_bytes (ci_psn i) @ u32_bytes (ci_pad i)"

definition sizeof_conn_info :: nat where
  "sizeof_conn_info = 40"

definition conn_info_of :: "byte list \<Rightarrow> rai_conn_info" where
  "conn_info_of bs = \<lparr>ci_addr = u64_val (window 0 8 bs), ci_gid = window 8 16 bs,
     ci_rkey = u32_val (window 24 4 bs), ci_qpn = u32_val (window 28 4 bs),
     ci_psn = u32_val (window 32 4 bs), ci_pad = u32_val (window 36 4 bs)\<rparr>"

definition conn_info_wf :: "rai_conn_info \<Rightarrow> bool" where
  "conn_info_wf i \<longleftrightarrow> length (ci_gid i) = 16"

section \<open>The structure on the wire\<close>

lemma length_conn_info_bytes [simp]: "conn_info_wf i \<Longrightarrow> length (conn_info_bytes i) = sizeof_conn_info"
  by (simp add: conn_info_bytes_def conn_info_wf_def sizeof_conn_info_def)

lemma conn_info_round: "conn_info_wf i \<Longrightarrow> conn_info_of (conn_info_bytes i) = i"
  by (simp add: conn_info_of_def conn_info_bytes_def conn_info_wf_def window_def)

lemma conn_info_bytes_of:
  assumes "length bs = sizeof_conn_info"
  shows "conn_info_bytes (conn_info_of bs) = bs"
proof -
  have len: "length bs = 40" using assms by (simp add: sizeof_conn_info_def)
  then have "window 0 8 bs @ window 8 16 bs @ window 24 4 bs @ window 28 4 bs @ window 32 4 bs @ window 36 4 bs = bs"
    using window_append_window [of 0 8 bs 32] window_append_window [of 8 16 bs 16]
      window_append_window [of 24 4 bs 12] window_append_window [of 28 4 bs 8] window_append_window [of 32 4 bs 4]
    by simp
  with len show ?thesis
    unfolding conn_info_bytes_def conn_info_of_def
    by (simp add: u64_bytes_val u32_bytes_val)
qed

lemma conn_info_of_wf: "length bs = sizeof_conn_info \<Longrightarrow> conn_info_wf (conn_info_of bs)"
  by (simp add: conn_info_of_def conn_info_wf_def sizeof_conn_info_def)

lemma conn_info_zero_wf [simp]: "conn_info_wf conn_info_zero"
  by (simp add: conn_info_zero_def conn_info_wf_def)

end
