(* ===== verification/Oob.thy ===== *)
theory Oob
  imports Rai_Types
begin

text \<open>
  The out-of-band TCP side channel of rdma_oob_connect.c: the loops that move a whole buffer
  through a socket that may move any part of it, the listening socket, and the two ends of
  the exchange of connection information. The lemmas say which bytes went where for every
  way the kernel may split the transfers, that no function leaves a socket open on failure,
  and that the two ends of an exchange learn each other's information.
\<close>

section \<open>Definitions\<close>

function send_loop :: "env \<Rightarrow> int \<Rightarrow> byte list \<Rightarrow> nat \<Rightarrow> trace \<Rightarrow> int \<times> trace" where
  "send_loop E fd buf sent t =
     (if sent < length buf
      then let c = Send fd (drop sent buf); n = e_ret E t c; t' = (c, n, e_data E t c) # t
           in if n \<le> 0 then (-1, t') else send_loop E fd buf (sent + nat n) t'
      else (0, t))"
  by pat_completeness auto
termination
  by (relation "measure (\<lambda>(E, fd, buf, sent, t). length buf - sent)") auto

declare send_loop.simps [simp del]

definition send_all :: "env \<Rightarrow> int \<Rightarrow> byte list \<Rightarrow> (trace, int) state" where
  "send_all E fd buf = State (send_loop E fd buf 0)"

text \<open>The kernel stores what it received at \<open>buf + recved\<close>, never past the length it was given.\<close>

function recv_loop :: "env \<Rightarrow> int \<Rightarrow> nat \<Rightarrow> byte list \<Rightarrow> nat \<Rightarrow> trace \<Rightarrow> (int \<times> byte list) \<times> trace" where
  "recv_loop E fd len buf recved t =
     (if recved < len
      then let c = Recv fd (len - recved); n = e_ret E t c; t' = (c, n, e_data E t c) # t
           in if n \<le> 0 then ((-1, buf), t')
              else recv_loop E fd len
                     (overwrite recved (take (min (nat n) (len - recved)) (e_data E t c)) buf)
                     (recved + nat n) t'
      else ((0, buf), t))"
  by pat_completeness auto
termination
  by (relation "measure (\<lambda>(E, fd, len, buf, recved, t). len - recved)") auto

declare recv_loop.simps [simp del]

definition recv_all :: "env \<Rightarrow> int \<Rightarrow> byte list \<Rightarrow> nat \<Rightarrow> (trace, int \<times> byte list) state" where
  "recv_all E fd buf len = State (recv_loop E fd len buf 0)"

text \<open>Returns 0 and the listening descriptor, or -1 and what the caller's variable held.\<close>

definition rai_oob_listen :: "env \<Rightarrow> int \<Rightarrow> int \<Rightarrow> (trace, int \<times> int) state" where
  "rai_oob_listen E port listen_fd = do {
     fd \<leftarrow> exec_call E Socket;
     if fd < 0 then ret (-1, listen_fd)
     else do {
       _ \<leftarrow> exec_call E (Set_reuseaddr fd);
       b \<leftarrow> exec_call E (Bind fd port);
       if b < 0 then do { _ \<leftarrow> exec_call E (Close fd); ret (-1, listen_fd) }
       else do {
         l \<leftarrow> exec_call E (Listen fd 1);
         if l < 0 then do { _ \<leftarrow> exec_call E (Close fd); ret (-1, listen_fd) }
         else ret (0, fd) } } }"

definition rai_oob_accept :: "env \<Rightarrow> int \<Rightarrow> rai_qp option \<Rightarrow> (trace, int \<times> rai_qp option) state" where
  "rai_oob_accept E listen_fd qp =
     (case qp of None \<Rightarrow> ret (-1, None)
      | Some q \<Rightarrow> do {
          conn_fd \<leftarrow> exec_call E (Accept listen_fd);
          if conn_fd < 0 then ret (-1, Some q)
          else do {
            s \<leftarrow> send_all E conn_fd (conn_info_bytes (q_local q));
            if s \<noteq> 0 then do { _ \<leftarrow> exec_call E (Close conn_fd); ret (-1, Some q) }
            else do {
              (r, b) \<leftarrow> recv_all E conn_fd (conn_info_bytes (q_remote q)) sizeof_conn_info;
              let q' = q\<lparr>q_remote := conn_info_of b\<rparr>;
              if r \<noteq> 0 then do { _ \<leftarrow> exec_call E (Close conn_fd); ret (-1, Some q') }
              else do { _ \<leftarrow> exec_call E (Close conn_fd); ret (0, Some q') } } } })"

definition rai_oob_connect :: "env \<Rightarrow> rai_qp option \<Rightarrow> string option \<Rightarrow> int \<Rightarrow> (trace, int \<times> rai_qp option) state" where
  "rai_oob_connect E qp server_ip port =
     (case qp of None \<Rightarrow> ret (-1, None)
      | Some q \<Rightarrow> (case server_ip of None \<Rightarrow> ret (-1, Some q)
      | Some ip \<Rightarrow> do {
          p \<leftarrow> exec_call E (Inet_pton ip);
          if p \<noteq> 1 then ret (-1, Some q)
          else do {
            conn_fd \<leftarrow> exec_call E Socket;
            (r, q') \<leftarrow>
              (if conn_fd < 0 then ret (-1, q)
               else do {
                 c \<leftarrow> exec_call E (Connect conn_fd ip port);
                 if c < 0 then ret (-1, q)
                 else do {
                   (r, b) \<leftarrow> recv_all E conn_fd (conn_info_bytes (q_remote q)) sizeof_conn_info;
                   let q' = q\<lparr>q_remote := conn_info_of b\<rparr>;
                   if r \<noteq> 0 then ret (-1, q')
                   else do {
                     s \<leftarrow> send_all E conn_fd (conn_info_bytes (q_local q'));
                     ret (if s \<noteq> 0 then -1 else 0, q') } } });
            if 0 \<le> conn_fd then do { _ \<leftarrow> exec_call E (Close conn_fd); ret (r, Some q') }
            else ret (r, Some q') } }))"

text \<open>
  The socket interface: a transfer moves at most what it was asked to, and a receive that
  reports \<open>n\<close> bytes stored \<open>n\<close> bytes.
\<close>

definition sock_ok :: "env \<Rightarrow> bool" where
  "sock_ok E \<longleftrightarrow> (\<forall>t fd xs. e_ret E t (Send fd xs) \<le> int (length xs)) \<and>
     (\<forall>t fd n. e_ret E t (Recv fd n) \<le> int n \<and>
        (0 < e_ret E t (Recv fd n) \<longrightarrow> length (e_data E t (Recv fd n)) = nat (e_ret E t (Recv fd n))))"

text \<open>The bytes that went into a descriptor and came out of it, in order.\<close>

fun sent_by :: "int \<Rightarrow> event \<Rightarrow> byte list" where
  "sent_by fd (Send fd' xs, n, d) = (if fd' = fd \<and> 0 < n then take (nat n) xs else [])"
| "sent_by fd e = []"

fun rcvd_by :: "int \<Rightarrow> event \<Rightarrow> byte list" where
  "rcvd_by fd (Recv fd' k, n, d) = (if fd' = fd \<and> 0 < n then d else [])"
| "rcvd_by fd e = []"

definition sent_on :: "int \<Rightarrow> trace \<Rightarrow> byte list" where
  "sent_on fd t = concat (map (sent_by fd) (rev t))"

definition rcvd_on :: "int \<Rightarrow> trace \<Rightarrow> byte list" where
  "rcvd_on fd t = concat (map (rcvd_by fd) (rev t))"

section \<open>Transfers\<close>

lemma sent_on_Cons [simp]: "sent_on fd (e # t) = sent_on fd t @ sent_by fd e"
  by (simp add: sent_on_def)

lemma rcvd_on_Cons [simp]: "rcvd_on fd (e # t) = rcvd_on fd t @ rcvd_by fd e"
  by (simp add: rcvd_on_def)

lemma sock_okD:
  assumes "sock_ok E"
  shows "e_ret E t (Send fd xs) \<le> int (length xs)" "e_ret E t (Recv fd n) \<le> int n"
    "0 < e_ret E t (Recv fd n) \<Longrightarrow> length (e_data E t (Recv fd n)) = nat (e_ret E t (Recv fd n))"
  using assms by (auto simp: sock_ok_def)

text \<open>Calls that hold and release nothing leave the held resources alone.\<close>

lemma send_loop_frame:
  "send_loop E fd buf sent t = (r, u) \<Longrightarrow>
     live E u = live E t \<and> rcvd_on i u = rcvd_on i t \<and> (i \<noteq> fd \<longrightarrow> sent_on i u = sent_on i t) \<and> (r = 0 \<or> r = -1)"
proof (induction E fd buf sent t rule: send_loop.induct)
  case (1 E fd buf sent t)
  show ?case
    using 1(1) [OF _ refl refl refl] 1(2) unfolding send_loop.simps [of E fd buf sent t]
    by (auto simp: Let_def split: if_splits)
qed

lemma recv_loop_frame:
  "recv_loop E fd len buf recved t = ((r, b), u) \<Longrightarrow>
     live E u = live E t \<and> sent_on i u = sent_on i t \<and> (i \<noteq> fd \<longrightarrow> rcvd_on i u = rcvd_on i t) \<and> (r = 0 \<or> r = -1)"
proof (induction E fd len buf recved t rule: recv_loop.induct)
  case (1 E fd len buf recved t)
  show ?case
    using 1(1) [OF _ refl refl refl] 1(2) unfolding recv_loop.simps [of E fd len buf recved t]
    by (auto simp: Let_def split: if_splits)
qed

lemma send_loop_data:
  assumes "sock_ok E" and "sent \<le> length buf" and "send_loop E fd buf sent t = (r, u)"
  shows "if r = 0 then sent_on fd u = sent_on fd t @ drop sent buf
    else \<exists>k < length buf. sent \<le> k \<and> sent_on fd u = sent_on fd t @ window sent (k - sent) buf"
  using assms
proof (induction E fd buf sent t rule: send_loop.induct)
  case (1 E fd buf sent t)
  let ?c = "Send fd (drop sent buf)"
  let ?n = "e_ret E t ?c"
  let ?t = "(?c, ?n, e_data E t ?c) # t"
  show ?case
  proof (cases "sent < length buf")
    case False
    then show ?thesis using 1(3,4) unfolding send_loop.simps [of E fd buf sent t] by auto
  next
    case lt: True
    show ?thesis
    proof (cases "?n \<le> 0")
      case True
      then have "r = -1" "u = ?t"
        using 1(4) lt by (auto simp: send_loop.simps [of E fd buf sent] Let_def)
      with True lt show ?thesis by (auto intro: exI [of _ sent])
    next
      case False
      have n: "sent + nat ?n \<le> length buf" using sock_okD(1) [OF 1(2), of t fd "drop sent buf"] False lt by simp
      have "send_loop E fd buf (sent + nat ?n) ?t = (r, u)"
        using 1(4) lt False by (simp add: send_loop.simps [of E fd buf sent] Let_def)
      note IH = 1(1) [OF lt refl refl refl False 1(2) _ this]
      have t: "sent_on fd ?t = sent_on fd t @ window sent (nat ?n) buf"
        using False by (simp add: window_def)
      show ?thesis
      proof (cases "r = 0")
        case True
        have "window sent (nat ?n) buf @ drop (sent + nat ?n) buf = drop sent buf" by (rule window_append_drop)
        with IH [OF n] t True show ?thesis by (simp only: if_True append_assoc) simp
      next
        case False
        with IH [OF n] obtain k where k: "k < length buf" "sent + nat ?n \<le> k"
          "sent_on fd u = sent_on fd ?t @ window (sent + nat ?n) (k - (sent + nat ?n)) buf"
          by (auto simp del: sent_on_Cons)
        have "window sent (nat ?n) buf @ window (sent + nat ?n) (k - (sent + nat ?n)) buf = window sent (k - sent) buf"
          using k(2) window_append_window [of sent "nat ?n" buf "k - (sent + nat ?n)"] by simp
        with k False t show ?thesis by (auto simp del: sent_on_Cons intro!: exI [of _ k])
      qed
    qed
  qed
qed

text \<open>For every way the kernel splits the transfer, the whole buffer goes out in order, or a proper prefix.\<close>

lemma send_all_spec:
  assumes "sock_ok E" and "run_state (send_all E fd buf) t = (r, u)"
  shows "r = 0 \<and> sent_on fd u = sent_on fd t @ buf \<or>
    r = -1 \<and> (\<exists>k < length buf. sent_on fd u = sent_on fd t @ take k buf)"
  using send_loop_data [OF assms(1), of 0 buf fd t r u] send_loop_frame [of E fd buf 0 t r u fd] assms(2)
  by (cases "r = 0") (auto simp: send_all_def window_def)

lemma recv_loop_data:
  assumes "sock_ok E" and "recved \<le> len" and "length buf = len"
    and "recv_loop E fd len buf recved t = ((r, b), u)"
  shows "length b = len \<and>
    (if r = 0 then rcvd_on fd u = rcvd_on fd t @ drop recved b \<and> take recved b = take recved buf
     else \<exists>k < len. recved \<le> k \<and> rcvd_on fd u = rcvd_on fd t @ window recved (k - recved) b \<and>
       take recved b = take recved buf \<and> drop k b = drop k buf)"
  using assms
proof (induction E fd len buf recved t rule: recv_loop.induct)
  case (1 E fd len buf recved t)
  let ?c = "Recv fd (len - recved)"
  let ?n = "e_ret E t ?c" and ?d = "e_data E t ?c"
  let ?t = "(?c, ?n, ?d) # t"
  show ?case
  proof (cases "recved < len")
    case False
    then show ?thesis using 1(3,4,5) unfolding recv_loop.simps [of E fd len buf recved t] by auto
  next
    case lt: True
    show ?thesis
    proof (cases "?n \<le> 0")
      case True
      then have "r = -1" "u = ?t" "b = buf"
        using 1(5) lt by (auto simp: recv_loop.simps [of E fd len buf recved] Let_def)
      with True lt 1(4) show ?thesis by (auto intro: exI [of _ recved])
    next
      case False
      have n: "nat ?n \<le> len - recved" "length ?d = nat ?n"
        using sock_okD(2,3) [OF 1(2), of t fd "len - recved"] False lt by auto
      let ?b = "overwrite recved ?d buf"
      have lb: "length ?b = len" using n lt 1(4) by simp
      have "min (nat ?n) (len - recved) = length ?d" using n by simp
      then have st: "take (min (nat ?n) (len - recved)) ?d = ?d" by simp
      have "recv_loop E fd len (overwrite recved (take (min (nat ?n) (len - recved)) ?d) buf) (recved + nat ?n) ?t = ((r, b), u)"
        using 1(5) lt False by (simp add: recv_loop.simps [of E fd len buf recved t] Let_def)
      note IH = 1(1) [OF lt refl refl refl False 1(2) _ _ this, unfolded st]
      have fit: "recved + length ?d \<le> length buf" "recved + nat ?n \<le> len" using n lt 1(4) by linarith+
      have tb: "take (recved + nat ?n) ?b = take recved buf @ ?d" and db: "k \<ge> recved + nat ?n \<Longrightarrow> drop k ?b = drop k buf" for k
        using take_overwrite [OF fit(1)] drop_overwrite [OF _ fit(1), of k] n(2) by simp_all
      have t: "rcvd_on fd ?t = rcvd_on fd t @ ?d" using False by simp
      have pre: "take recved b = take recved buf \<and> window recved (nat ?n) b = ?d"
        if "take (recved + nat ?n) b = take (recved + nat ?n) ?b"
      proof -
        have "take recved (take (recved + nat ?n) b) = take recved buf"
          "drop recved (take (recved + nat ?n) b) = ?d"
          using that tb lt 1(4) by simp_all
        then show ?thesis by (simp add: window_def take_drop add.commute)
      qed
      show ?thesis
      proof (cases "r = 0")
        case True
        with IH [OF fit(2) lb] have *: "length b = len" "rcvd_on fd u = rcvd_on fd ?t @ drop (recved + nat ?n) b"
          "take (recved + nat ?n) b = take (recved + nat ?n) ?b" by (simp_all del: rcvd_on_Cons)
        have "window recved (nat ?n) b @ drop (recved + nat ?n) b = drop recved b" by (rule window_append_drop)
        with * pre t True show ?thesis by (simp del: rcvd_on_Cons)
      next
        case False
        with IH [OF fit(2) lb] obtain k where k: "length b = len" "k < len" "recved + nat ?n \<le> k"
          "rcvd_on fd u = rcvd_on fd ?t @ window (recved + nat ?n) (k - (recved + nat ?n)) b"
          "take (recved + nat ?n) b = take (recved + nat ?n) ?b" "drop k b = drop k ?b"
          by (auto simp del: rcvd_on_Cons)
        have "window recved (nat ?n) b @ window (recved + nat ?n) (k - (recved + nat ?n)) b = window recved (k - recved) b"
          using k(3) window_append_window [of recved "nat ?n" b "k - (recved + nat ?n)"] by simp
        with k pre [OF k(5)] db [OF k(3)] False t show ?thesis
          by (auto simp del: rcvd_on_Cons intro!: exI [of _ k])
      qed
    qed
  qed
qed

text \<open>A receive that succeeds filled the buffer with the next bytes of the stream, and nothing else.\<close>

lemma recv_all_spec:
  assumes "sock_ok E" and "length buf = len" and "run_state (recv_all E fd buf len) t = ((r, b), u)"
  shows "length b = len \<and>
    (r = 0 \<and> rcvd_on fd u = rcvd_on fd t @ b \<or>
     r = -1 \<and> (\<exists>k < len. rcvd_on fd u = rcvd_on fd t @ take k b \<and> drop k b = drop k buf))"
  using recv_loop_data [OF assms(1) _ assms(2), of 0 fd t r b u] recv_loop_frame [of E fd len buf 0 t r b u fd] assms(3)
  by (cases "r = 0") (auto simp: recv_all_def window_def)

section \<open>Sockets held\<close>

lemma run_send_all: "run_state (send_all E fd buf) t = send_loop E fd buf 0 t"
  by (simp add: send_all_def)

lemma run_recv_all: "run_state (recv_all E fd buf len) t = recv_loop E fd len buf 0 t"
  by (simp add: recv_all_def)

lemma send_all_frame:
  "run_state (send_all E fd buf) t = (r, u) \<Longrightarrow> live E u = live E t \<and> rcvd_on i u = rcvd_on i t"
  using send_loop_frame [of E fd buf 0 t r u i] by (simp add: run_send_all)

lemma recv_all_frame:
  "run_state (recv_all E fd buf len) t = ((r, b), u) \<Longrightarrow> live E u = live E t \<and> sent_on i u = sent_on i t"
  using recv_loop_frame [of E fd len buf 0 t r b u i] by (simp add: run_recv_all)

lemma oob_listen_spec:
  assumes "run_state (rai_oob_listen E port fd0) t = ((r, fd), u)"
  shows "r = 0 \<and> 0 \<le> fd \<and> live E u = add_mset (Fd fd) (live E t) \<or> r = -1 \<and> fd = fd0 \<and> live E u = live E t"
  using assms by (auto simp: rai_oob_listen_def run_simps split: if_splits)

text \<open>Both ends close the connection they opened, whatever happens in between.\<close>

lemma oob_accept_live:
  assumes "run_state (rai_oob_accept E lfd qp) t = ((r, qp'), u)"
  shows "live E u = live E t"
proof (cases qp)
  case None
  with assms show ?thesis by (simp add: rai_oob_accept_def)
next
  case (Some q)
  with assms show ?thesis
    by (auto simp: rai_oob_accept_def run_simps Let_def
        split: if_splits prod.splits dest!: send_all_frame recv_all_frame)
qed

lemma oob_connect_live:
  assumes "run_state (rai_oob_connect E qp ip port) t = ((r, qp'), u)"
  shows "live E u = live E t"
proof (cases "qp = None \<or> ip = None")
  case True
  with assms show ?thesis by (auto simp: rai_oob_connect_def split: option.splits)
next
  case False
  with assms show ?thesis
    by (auto simp: rai_oob_connect_def run_simps Let_def
        split: if_splits prod.splits dest!: send_all_frame recv_all_frame)
qed

section \<open>The exchange\<close>

lemma oob_accept_ok:
  assumes "sock_ok E" and "conn_info_wf (q_remote q)"
    and "run_state (rai_oob_accept E lfd (Some q)) t = ((0, qp'), (Close fd, e) # u)"
  shows "\<exists>b. qp' = Some (q\<lparr>q_remote := conn_info_of b\<rparr>) \<and> length b = sizeof_conn_info \<and>
    sent_on fd u = sent_on fd t @ conn_info_bytes (q_local q) \<and> rcvd_on fd u = rcvd_on fd t @ b"
proof -
  obtain s u1 where s: "run_state (send_all E fd (conn_info_bytes (q_local q))) ((Accept lfd, fd, e_data E t (Accept lfd)) # t) = (s, u1)"
    by (cases "run_state (send_all E fd (conn_info_bytes (q_local q))) ((Accept lfd, fd, e_data E t (Accept lfd)) # t)")
  obtain r b u2 where r: "run_state (recv_all E fd (conn_info_bytes (q_remote q)) sizeof_conn_info) u1 = ((r, b), u2)"
    by (metis surj_pair)
  have "e_ret E t (Accept lfd) = fd \<and> s = 0 \<and> r = 0 \<and> qp' = Some (q\<lparr>q_remote := conn_info_of b\<rparr>) \<and> u = u2"
    using assms(3) s r by (auto simp: rai_oob_accept_def run_simps Let_def split: if_splits prod.splits)
  with send_all_spec [OF assms(1) s] send_all_frame [OF s, of fd]
    recv_all_spec [OF assms(1) length_conn_info_bytes [OF assms(2)] r] recv_all_frame [OF r, of fd]
  show ?thesis by auto
qed

lemma oob_connect_ok:
  assumes "sock_ok E" and "conn_info_wf (q_remote q)"
    and "run_state (rai_oob_connect E (Some q) ip port) t = ((0, qp'), (Close fd, e) # u)"
  shows "\<exists>b. qp' = Some (q\<lparr>q_remote := conn_info_of b\<rparr>) \<and> length b = sizeof_conn_info \<and>
    sent_on fd u = sent_on fd t @ conn_info_bytes (q_local q) \<and> rcvd_on fd u = rcvd_on fd t @ b"
proof -
  obtain a where ip: "ip = Some a" using assms(3) by (cases ip) (auto simp: rai_oob_connect_def)
  let ?t1 = "(Inet_pton a, e_ret E t (Inet_pton a), e_data E t (Inet_pton a)) # t"
  let ?t2 = "(Socket, e_ret E ?t1 Socket, e_data E ?t1 Socket) # ?t1"
  let ?f = "e_ret E ?t1 Socket"
  let ?t3 = "(Connect ?f a port, e_ret E ?t2 (Connect ?f a port), e_data E ?t2 (Connect ?f a port)) # ?t2"
  obtain r b u1 where r: "run_state (recv_all E ?f (conn_info_bytes (q_remote q)) sizeof_conn_info) ?t3 = ((r, b), u1)"
    by (metis surj_pair)
  obtain s u2 where s: "run_state (send_all E ?f (conn_info_bytes (q_local q))) u1 = (s, u2)"
    by (metis surj_pair)
  have "?f = fd \<and> s = 0 \<and> r = 0 \<and> qp' = Some (q\<lparr>q_remote := conn_info_of b\<rparr>) \<and> u = u2"
    using assms(3) s r ip by (auto simp: rai_oob_connect_def run_simps Let_def split: if_splits prod.splits)
  with send_all_spec [OF assms(1) s] send_all_frame [OF s, of ?f]
    recv_all_spec [OF assms(1) length_conn_info_bytes [OF assms(2)] r] recv_all_frame [OF r, of ?f]
  show ?thesis by auto
qed

text \<open>
  A connection between two descriptors over a span of the two histories: what came out of
  each end in that span is what went into the other.
\<close>

definition connected :: "int \<Rightarrow> trace \<Rightarrow> trace \<Rightarrow> int \<Rightarrow> trace \<Rightarrow> trace \<Rightarrow> bool" where
  "connected a t u b t' u' \<longleftrightarrow>
     drop (length (rcvd_on a t)) (rcvd_on a u) = drop (length (sent_on b t')) (sent_on b u') \<and>
     drop (length (rcvd_on b t')) (rcvd_on b u') = drop (length (sent_on a t)) (sent_on a u)"

lemma oob_exchange_pair:
  assumes "sock_ok Es" "sock_ok Ec" "conn_info_wf (q_remote qs)" "conn_info_wf (q_remote qc)"
    and "conn_info_wf (q_local qs)" "conn_info_wf (q_local qc)"
    and "run_state (rai_oob_accept Es lfd (Some qs)) ts = ((0, qs'), (Close sfd, e) # us)"
    and "run_state (rai_oob_connect Ec (Some qc) ip port) tc = ((0, qc'), (Close cfd, e') # uc)"
    and "connected sfd ts us cfd tc uc"
  shows "qs' = Some (qs\<lparr>q_remote := q_local qc\<rparr>) \<and> qc' = Some (qc\<lparr>q_remote := q_local qs\<rparr>)"
  using oob_accept_ok [OF assms(1,3,7)] oob_connect_ok [OF assms(2,4,8)] assms(5,6,9)
  by (auto simp: connected_def conn_info_round)

section \<open>Properties\<close>

lemma calm_sock: "sock_ok calm"
  by (simp add: sock_ok_def calm_def)

text \<open>
  C14. Bytes get through whole and in order: when one side sends a buffer with \<open>send_all\<close>, the
  other reads as many bytes with \<open>recv_all\<close> on the other end of the connection, and both
  report success, then the buffer read is the buffer sent, for every way the two kernels split
  the transfers; and \<open>send_all\<close> reports a failure only with a proper prefix sent.
\<close>

theorem transfer_end_to_end:
  assumes "sock_ok Ea" and "sock_ok Eb" and "length buf = length xs"
    and "run_state (send_all Ea a xs) t = (r, u)" and "run_state (recv_all Eb b buf (length xs)) t' = ((r', ys), u')"
    and "drop (length (rcvd_on b t')) (rcvd_on b u') = take (length (drop (length (rcvd_on b t')) (rcvd_on b u')))
      (drop (length (sent_on a t)) (sent_on a u))"
  shows "(r' = 0 \<and> r = 0 \<longrightarrow> ys = xs) \<and> (r = 0 \<or> r = -1 \<and> (\<exists>k < length xs. sent_on a u = sent_on a t @ take k xs)) \<and>
    (r' = 0 \<longrightarrow> length ys = length xs)"
  using send_all_spec [OF assms(1,4)] recv_all_spec [OF assms(2,3,5)] assms(6) by auto

theorem transfer_end_to_end_witness:
  "let (r, u) = run_state (send_all calm 3 [1, 1]) []; ((r', ys), u') = run_state (recv_all calm 4 [0, 0] 2) []
   in r = 0 \<and> r' = 0 \<and> ys = [1, 1]"
proof -
  have s: "run_state (send_all calm 3 [1, 1]) [] = (0, [(Send 3 [1, 1], 2, [])])"
    by (simp add: send_all_def send_loop.simps Let_def calm_def)
  have r: "run_state (recv_all calm 4 [0, 0] 2) [] = ((0, [1, 1]), [(Recv 4 2, 2, [1, 1])])"
    by (simp add: recv_all_def recv_loop.simps Let_def calm_def overwrite_def eval_nat_numeral)
  show ?thesis
    using transfer_end_to_end [of calm calm "[0, 0]" "[1, 1]" 3 "[]" _ _ 4 "[]", OF calm_sock calm_sock _ s] s r
    by (simp add: sent_on_def rcvd_on_def eval_nat_numeral)
qed

text \<open>
  C13. The out-of-band exchange: when the accepting and the connecting side both succeed over one
  connection, each has the other's connection information and nothing else of its queue pair
  changed.
\<close>

theorem oob_exchange:
  assumes "sock_ok Es" "sock_ok Ec" "conn_info_wf (q_remote qs)" "conn_info_wf (q_remote qc)"
    and "conn_info_wf (q_local qs)" "conn_info_wf (q_local qc)"
    and "run_state (rai_oob_accept Es lfd (Some qs)) ts = ((0, qs'), (Close sfd, e) # us)"
    and "run_state (rai_oob_connect Ec (Some qc) ip port) tc = ((0, qc'), (Close cfd, e') # uc)"
    and "connected sfd ts us cfd tc uc"
  shows "qs' = Some (qs\<lparr>q_remote := q_local qc\<rparr>) \<and> qc' = Some (qc\<lparr>q_remote := q_local qs\<rparr>)"
  by (rule oob_exchange_pair [OF assms])

text \<open>A kernel that moves everything at once.\<close>

lemma send_once:
  "e_ret E t (Send fd xs) = int (length xs) \<Longrightarrow> 0 < length xs \<Longrightarrow>
     send_loop E fd xs 0 t = (0, (Send fd xs, int (length xs), e_data E t (Send fd xs)) # t)"
  by (subst send_loop.simps, simp add: Let_def, subst send_loop.simps, simp)

lemma recv_once:
  "e_ret E t (Recv fd n) = int n \<Longrightarrow> e_data E t (Recv fd n) = ys \<Longrightarrow> length ys = n \<Longrightarrow> 0 < n \<Longrightarrow> length b = n \<Longrightarrow>
     recv_loop E fd n b 0 t = ((0, ys), (Recv fd n, int n, ys) # t)"
  by (subst recv_loop.simps, simp add: Let_def, subst recv_loop.simps, simp add: overwrite_def)

lemma calm_send: "0 < length xs \<Longrightarrow> send_loop calm fd xs 0 t = (0, (Send fd xs, int (length xs), []) # t)"
  by (simp add: send_once calm_def)

lemma calm_recv:
  "0 < n \<Longrightarrow> length b = n \<Longrightarrow> recv_loop calm fd n b 0 t = ((0, replicate n 1), (Recv fd n, int n, replicate n 1) # t)"
  by (rule recv_once) (simp_all add: calm_def)

definition ones :: rai_conn_info where
  "ones = conn_info_of (replicate 40 1)"

lemma ones_bytes: "conn_info_bytes ones = replicate 40 1" "conn_info_wf ones"
  using conn_info_bytes_of [of "replicate 40 1"] conn_info_of_wf [of "replicate 40 1"]
  by (simp_all add: ones_def sizeof_conn_info_def)

lemma zero_bytes: "length (conn_info_bytes conn_info_zero) = 40"
  using length_conn_info_bytes [OF conn_info_zero_wf] by (simp add: sizeof_conn_info_def)

theorem oob_exchange_witness:
  "\<exists>us uc. run_state (rai_oob_accept calm 9 (Some (qp_zero\<lparr>q_local := ones\<rparr>))) [] =
       ((0, Some (qp_zero\<lparr>q_local := ones, q_remote := ones\<rparr>)), us) \<and>
     run_state (rai_oob_connect calm (Some (qp_zero\<lparr>q_local := ones\<rparr>)) (Some ''10.0.0.1'') 7) [] =
       ((0, Some (qp_zero\<lparr>q_local := ones, q_remote := ones\<rparr>)), uc)"
proof -
  let ?q = "qp_zero\<lparr>q_local := ones\<rparr>"
  let ?us = "[(Recv 4 40, 40, replicate 40 1), (Send 4 (replicate 40 1), 40, []), (Accept 9, 4, [])]"
  let ?uc = "[(Send 3 (replicate 40 1), 40, []), (Recv 3 40, 40, replicate 40 1), (Connect 3 ''10.0.0.1'' 7, 0, []),
    (Socket, 3, []), (Inet_pton ''10.0.0.1'', 1, [])]"
  have z: "q_remote ?q = conn_info_zero" "q_local ?q = ones" by (simp_all add: qp_zero_def)
  have e: "e_ret calm t (Accept x) = 4" "e_ret calm t Socket = 3" "e_ret calm t (Close x) = 0"
    "e_ret calm t (Inet_pton a) = 1" "e_ret calm t (Connect x a p) = 0" "e_data calm t (Accept x) = []"
    "e_data calm t Socket = []" "e_data calm t (Close x) = []" "e_data calm t (Inet_pton a) = []"
    "e_data calm t (Connect x a p) = []" for t x a p
    by (simp_all add: calm_def)
  have s: "run_state (rai_oob_accept calm 9 (Some ?q)) [] =
      ((0, Some (?q\<lparr>q_remote := conn_info_of (replicate 40 1)\<rparr>)), (Close 4, 0, []) # ?us)"
    by (simp add: rai_oob_accept_def run_simps Let_def e z run_send_all run_recv_all ones_bytes sizeof_conn_info_def
        calm_send calm_recv zero_bytes)
  have c: "run_state (rai_oob_connect calm (Some ?q) (Some ''10.0.0.1'') 7) [] =
      ((0, Some (?q\<lparr>q_remote := conn_info_of (replicate 40 1)\<rparr>)), (Close 3, 0, []) # ?uc)"
    by (simp add: rai_oob_connect_def run_simps Let_def e z run_send_all run_recv_all ones_bytes sizeof_conn_info_def
        calm_send calm_recv zero_bytes)
  have "connected 4 [] ?us 3 [] ?uc" by (simp add: connected_def sent_on_def rcvd_on_def)
  note cn = this
  have wf: "conn_info_wf (q_remote ?q)" "conn_info_wf (q_local ?q)" unfolding z by (simp_all add: ones_bytes)
  note ex = oob_exchange [OF calm_sock calm_sock wf(1) wf(1) wf(2) wf(2) s c cn]
  show ?thesis
    by (intro exI conjI, rule trans [OF s]; (rule trans [OF c])?)
      (simp_all only: ex [THEN conjunct1] ex [THEN conjunct2] z)
qed

text \<open>
  No descriptor leaks: a listener that is not handed to the caller is closed, and both ends of
  an exchange close the connection they opened, on every path.
\<close>

theorem oob_no_leak:
  "(run_state (rai_oob_listen E port fd0) t = ((r, fd), u) \<longrightarrow>
      (if r = 0 then live E u = add_mset (Fd fd) (live E t) else fd = fd0 \<and> live E u = live E t)) \<and>
   (run_state (rai_oob_accept E lfd qp) t = (x, v) \<longrightarrow> live E v = live E t) \<and>
   (run_state (rai_oob_connect E qp ip port) t = (y, w) \<longrightarrow> live E w = live E t)"
  using oob_listen_spec [of E port fd0 t r fd u] oob_accept_live [of E lfd qp t "fst x" "snd x" v]
    oob_connect_live [of E qp ip port t "fst y" "snd y" w] by auto

theorem oob_no_leak_witness:
  "run_state (rai_oob_listen calm 7 (-1)) [] =
     ((0, 3), [(Listen 3 1, 0, []), (Bind 3 7, 0, []), (Set_reuseaddr 3, 0, []), (Socket, 3, [])]) \<and>
   live calm [(Listen 3 1, 0, []), (Bind 3 7, 0, []), (Set_reuseaddr 3, 0, []), (Socket, 3, [])] = {#Fd 3#}"
proof -
  have run: "run_state (rai_oob_listen calm 7 (-1)) [] =
     ((0, 3), [(Listen 3 1, 0, []), (Bind 3 7, 0, []), (Set_reuseaddr 3, 0, []), (Socket, 3, [])])"
    by (simp add: rai_oob_listen_def run_simps calm_def)
  with oob_no_leak [of calm 7 "-1" "[]" 0 3] show ?thesis by auto
qed

end
