(* ===== verification/Scoped.thy ===== *)
theory Scoped
  imports Env
begin

text \<open>
  The interface of everything that is acquired and given back: an acquisition that fails
  holds nothing, one that succeeds holds what its handle stands for, and a release gives
  exactly that back and leaves a handle that stands for nothing. Clients that use such a
  handle in a scope leak nothing, and may release twice.
\<close>

locale scoped_resource =
  fixes E :: env
    and acquire :: "'a \<Rightarrow> (trace, int \<times> 'h) state"
    and release :: "'h \<Rightarrow> (trace, 'h) state"
    and held :: "'h \<Rightarrow> res multiset"
  assumes acquire_spec: "run_state (acquire a) t = ((r, h), u) \<Longrightarrow>
      r = 0 \<and> live E u = live E t + held h \<or> r \<noteq> 0 \<and> live E u = live E t \<and> held h = {#}"
    and release_spec: "run_state (release h) t = (h', u) \<Longrightarrow> live E u = live E t - held h \<and> held h' = {#}"
begin

text \<open>Whatever happens in the scope, and whether or not the acquisition worked, nothing stays behind.\<close>

lemma scope_balanced:
  assumes "run_state (acquire a) t = ((r, h), u)" and "live E v = live E u + M"
    and "run_state (release h) v = (h', w)"
  shows "live E w = live E t + M"
  using acquire_spec [OF assms(1)] release_spec [OF assms(3)] assms(2) by auto

lemma release_twice:
  assumes "run_state (release h) t = (h', u)" and "run_state (release h') u = (h'', v)"
  shows "live E v = live E u"
  using release_spec [OF assms(1)] release_spec [OF assms(2)] by simp

end

end
