(* ===== verification/Transport.thy ===== *)
theory Transport
  imports Oob Scoped
begin

text \<open>
  What the transports of phase2_transport share (transport.hpp): the handle of a registered
  buffer, the process memory a transfer reads and writes, and two interfaces: a transfer that
  refuses what lies outside its buffer, and the sessions of a transport. The registration of a
  buffer has the interface of scoped resources.
\<close>

section \<open>Definitions\<close>

record buffer_handle =
  bh_addr :: u64
  bh_size :: u64
  bh_priv :: "rai_mr option"

definition bh_zero :: buffer_handle where
  "bh_zero = \<lparr>bh_addr = 0, bh_size = 0, bh_priv = None\<rparr>"

text \<open>The memory of the process, one byte per 64-bit address; addresses wrap.\<close>

type_synonym memory = "u64 \<Rightarrow> byte"

definition read_mem :: "memory \<Rightarrow> u64 \<Rightarrow> nat \<Rightarrow> byte list" where
  "read_mem m a n = map (\<lambda>i. m (a + word_of_nat i)) [0..<n]"

definition write_mem :: "memory \<Rightarrow> u64 \<Rightarrow> byte list \<Rightarrow> memory" where
  "write_mem m a bs = (\<lambda>x. if unat (x - a) < length bs then bs ! unat (x - a) else m x)"

section \<open>Memory\<close>

lemma length_read_mem [simp]: "length (read_mem m a n) = n"
  by (simp add: read_mem_def)

lemma read_write_same:
  assumes "length bs < 2 ^ 64"
  shows "read_mem (write_mem m a bs) a (length bs) = bs"
proof (rule nth_equalityI)
  fix i assume "i < length (read_mem (write_mem m a bs) a (length bs))"
  then have i: "i < length bs" by simp
  have "unat (word_of_nat i :: u64) = i" using i assms by (simp add: unat_of_nat take_bit_eq_mod)
  then show "read_mem (write_mem m a bs) a (length bs) ! i = bs ! i"
    using i by (simp add: read_mem_def write_mem_def)
qed simp

lemma read_mem_Suc: "read_mem m a (Suc n) = m a # read_mem m (a + 1) n"
  by (simp add: read_mem_def map_upt_Suc add.assoc del: upt_Suc)

lemma read_mem_numeral [simp]:
  "read_mem m a 0 = []"
  "read_mem m a (numeral k) = m a # read_mem m (a + 1) (pred_numeral k)"
  by (simp_all add: numeral_eq_Suc read_mem_Suc) (simp add: read_mem_def)

lemma read_mem_1 [simp]: "read_mem m a (Suc 0) = [m a]"
  by (simp add: read_mem_Suc)

lemma read_mem_append: "read_mem m a (n + k) = read_mem m a n @ read_mem m (a + word_of_nat n) k"
  by (induction n arbitrary: a) (simp_all add: read_mem_Suc add.assoc)

lemma read_write_window:
  assumes "i + n \<le> length bs" and "length bs < 2 ^ 64"
  shows "read_mem (write_mem m a bs) (a + word_of_nat i) n = window i n bs"
proof (rule nth_equalityI)
  show "length (read_mem (write_mem m a bs) (a + word_of_nat i) n) = length (window i n bs)" using assms(1) by simp
  fix j assume "j < length (read_mem (write_mem m a bs) (a + word_of_nat i) n)"
  then have j: "j < n" by simp
  have "unat (word_of_nat (i + j) :: u64) = i + j" using j assms by (simp add: unat_of_nat take_bit_eq_mod del: of_nat_add)
  then have "unat (a + word_of_nat i + word_of_nat j - a) = i + j" by (simp add: add.assoc)
  then show "read_mem (write_mem m a bs) (a + word_of_nat i) n ! j = window i n bs ! j"
    using j assms(1) by (simp add: read_mem_def write_mem_def nth_window)
qed

text \<open>An address outside the range written keeps its byte.\<close>

lemma write_mem_outside: "length bs \<le> unat (x - a) \<Longrightarrow> write_mem m a bs x = m x"
  by (simp add: write_mem_def)

lemma read_write_disjoint:
  assumes "\<And>i. i < n \<Longrightarrow> length bs \<le> unat (a + word_of_nat i - b)"
  shows "read_mem (write_mem m b bs) a n = read_mem m a n"
  unfolding read_mem_def using write_mem_outside [OF assms] by simp

text \<open>The bytes before an address are the ones furthest after it.\<close>

lemma unat_before:
  assumes "i < k" and "n + k \<le> 2 ^ 64" and "b = a + word_of_nat k"
  shows "n \<le> unat (a + word_of_nat i - b :: u64)"
proof -
  have u: "unat (word_of_nat i :: u64) = i" "unat (word_of_nat k :: u64) = k" if "k < 2 ^ 64"
    using assms(1) that by (simp_all add: unat_of_nat take_bit_eq_mod)
  have e: "a + word_of_nat i - b = word_of_nat i - (word_of_nat k :: u64)" using assms(3) by simp
  show ?thesis
    unfolding e using unat_sub_if' [of "word_of_nat i :: u64" "word_of_nat k"] u assms(1,2) by (cases "n = 0") auto
qed

section \<open>Transfers that check their range\<close>

text \<open>
  \<open>xfer h len off\<close> is a transfer on the buffer \<open>h\<close>; \<open>wf\<close> says the handle came from a
  registration, and \<open>limit\<close> is the largest length the transport can express.
\<close>

locale checked_transfer =
  fixes xfer :: "buffer_handle \<Rightarrow> u64 \<Rightarrow> u64 \<Rightarrow> trace \<Rightarrow> int \<times> trace"
    and wf :: "buffer_handle \<Rightarrow> bool"
    and limit :: nat
  assumes outside_refused: "wf h \<Longrightarrow> unat len \<le> limit \<Longrightarrow> unat off + unat len < 2 ^ 64 \<Longrightarrow>
      unat (bh_size h) < unat off + unat len \<Longrightarrow> xfer h len off t = (-1, t)"
    and empty_refused: "wf h \<Longrightarrow> xfer h 0 off t = (-1, t)"
begin

text \<open>A transfer that did anything was inside its buffer and not empty.\<close>

lemma accepted_inside:
  assumes "wf h" and "unat len \<le> limit" and "unat off + unat len < 2 ^ 64" and "xfer h len off t \<noteq> (-1, t)"
  shows "0 < unat len \<and> unat off + unat len \<le> unat (bh_size h)"
proof -
  have "len \<noteq> 0" using assms(1,4) empty_refused by blast
  moreover have "\<not> unat (bh_size h) < unat off + unat len" using assms outside_refused by blast
  ultimately show ?thesis by (simp add: unat_gt_0)
qed

end

section \<open>Sessions\<close>

text \<open>
  The life of a transport: any sequence of connecting, listening and accepting, each of which may
  fail, then closing. \<open>ok\<close> is what the outside promises at a point of the history, \<open>inv\<close> what the
  transport keeps while others hold \<open>M\<close>, and \<open>may\<close> when an operation may be called.
\<close>

datatype session_op = Op_connect "string option" int | Op_listen int | Op_accept

fun session ::
    "(session_op \<Rightarrow> 'tr \<Rightarrow> bool) \<Rightarrow> (session_op \<Rightarrow> 'tr \<Rightarrow> (trace, int \<times> 'tr) state) \<Rightarrow> session_op list \<Rightarrow> 'tr \<Rightarrow> trace \<Rightarrow> 'tr \<times> trace" where
  "session may step [] tr t = (tr, t)"
| "session may step (op # ops) tr t =
     (if may op tr then (case run_state (step op tr) t of ((r, tr'), u) \<Rightarrow> session may step ops tr' u)
      else session may step ops tr t)"

locale transport_session =
  fixes ok :: "env \<Rightarrow> trace \<Rightarrow> bool"
    and inv :: "res multiset \<Rightarrow> 'tr \<Rightarrow> bool"
    and may :: "session_op \<Rightarrow> 'tr \<Rightarrow> bool"
    and step :: "env \<Rightarrow> session_op \<Rightarrow> 'tr \<Rightarrow> (trace, int \<times> 'tr) state"
    and close_tr :: "env \<Rightarrow> 'tr \<Rightarrow> (trace, 'tr) state"
    and held :: "'tr \<Rightarrow> res multiset"
  assumes step_spec: "ok E t \<Longrightarrow> inv M tr \<Longrightarrow> may op tr \<Longrightarrow> live E t = M + held tr \<Longrightarrow>
      run_state (step E op tr) t = ((r, tr'), u) \<Longrightarrow> ok E u \<and> inv M tr' \<and> live E u = M + held tr'"
    and close_spec: "ok E t \<Longrightarrow> inv M tr \<Longrightarrow> live E t = M + held tr \<Longrightarrow>
      run_state (close_tr E tr) t = (tr', u) \<Longrightarrow> ok E u \<and> inv M tr' \<and> live E u = M \<and> held tr' = {#}"
begin

lemma session_keeps:
  assumes "ok E t" and "inv M tr" and "live E t = M + held tr" and "session may (step E) ops tr t = (tr', u)"
  shows "ok E u \<and> inv M tr' \<and> live E u = M + held tr'"
  using assms
proof (induction ops arbitrary: tr t)
  case (Cons op ops)
  show ?case
  proof (cases "may op tr")
    case True
    obtain r tr1 v where run: "run_state (step E op tr) t = ((r, tr1), v)" by (metis surj_pair)
    with Cons.prems True have "session may (step E) ops tr1 v = (tr', u)" by simp
    with step_spec [OF Cons.prems(1,2) True Cons.prems(3) run] Cons.IH show ?thesis by blast
  next
    case False
    with Cons show ?thesis by simp
  qed
qed simp

text \<open>However the session went, closing leaves exactly what the others hold, and closing again does nothing.\<close>

lemma session_closed:
  assumes "ok E t" and "inv M tr" and "live E t = M + held tr" and "session may (step E) ops tr t = (tr1, v)"
    and "run_state (close_tr E tr1) v = (tr2, w)" and "run_state (close_tr E tr2) w = (tr3, x)"
  shows "live E w = M \<and> live E x = M"
proof -
  have "ok E v \<and> inv M tr1 \<and> live E v = M + held tr1" by (rule session_keeps [OF assms(1-4)])
  with close_spec [OF _ _ _ assms(5)] have "ok E w \<and> inv M tr2 \<and> live E w = M \<and> held tr2 = {#}" by blast
  with close_spec [OF _ _ _ assms(6), of M] show ?thesis by simp
qed

end

end
