(* ===== verification/Tcp_Transport.thy ===== *)
theory Tcp_Transport
  imports Transport
begin

text \<open>
  The TCP transport (tcp_backend.cpp): registration only notes the buffer, a send and a
  receive block until the whole range has moved, poll does nothing, and a write is a send.
\<close>

section \<open>Definitions\<close>

record tcp_transport =
  tt_fd :: int
  tt_listen_fd :: int
  tt_is_server :: bool

definition tcp_new :: tcp_transport where
  "tcp_new = \<lparr>tt_fd = -1, tt_listen_fd = -1, tt_is_server = False\<rparr>"

text \<open>The two loops are the text of the ones in rdma_oob_connect.c.\<close>

definition tcp_send_all :: "env \<Rightarrow> int \<Rightarrow> byte list \<Rightarrow> (trace, int) state" where
  "tcp_send_all E fd bytes = send_all E fd bytes"

definition tcp_recv_all :: "env \<Rightarrow> int \<Rightarrow> byte list \<Rightarrow> nat \<Rightarrow> (trace, int \<times> byte list) state" where
  "tcp_recv_all E fd bytes len = recv_all E fd bytes len"

definition tcp_reg_buf :: "u64 \<Rightarrow> u64 \<Rightarrow> buffer_handle option \<Rightarrow> int \<times> buffer_handle option" where
  "tcp_reg_buf addr len out =
     (if addr = 0 \<or> out = None \<or> len = 0 then (-1, out)
      else (0, Some \<lparr>bh_addr = addr, bh_size = len, bh_priv = None\<rparr>))"

definition tcp_dereg_buf :: "buffer_handle option \<Rightarrow> buffer_handle option" where
  "tcp_dereg_buf h = map_option (\<lambda>_. bh_zero) h"

definition tcp_send_async ::
    "env \<Rightarrow> tcp_transport \<Rightarrow> memory \<Rightarrow> buffer_handle option \<Rightarrow> u64 \<Rightarrow> u64 \<Rightarrow> u64 \<Rightarrow> (trace, int) state" where
  "tcp_send_async E tr m h len wid off =
     (case h of None \<Rightarrow> ret (-1)
      | Some b \<Rightarrow>
        (if len = 0 \<or> bh_addr b = 0 then ret (-1)
         else if bh_size b < len + off then ret (-1)
         else do {
           r \<leftarrow> tcp_send_all E (tt_fd tr) (read_mem m (bh_addr b + off) (unat len));
           ret (if r \<noteq> 0 then -1 else 0) }))"

definition tcp_recv_async ::
    "env \<Rightarrow> tcp_transport \<Rightarrow> buffer_handle option \<Rightarrow> u64 \<Rightarrow> u64 \<Rightarrow> u64 \<Rightarrow> memory \<Rightarrow> (trace, int \<times> memory) state" where
  "tcp_recv_async E tr h len wid off m =
     (case h of None \<Rightarrow> ret (-1, m)
      | Some b \<Rightarrow>
        (if len = 0 \<or> bh_addr b = 0 then ret (-1, m)
         else if bh_size b < len + off then ret (-1, m)
         else do {
           (r, bs) \<leftarrow> tcp_recv_all E (tt_fd tr) (read_mem m (bh_addr b + off) (unat len)) (unat len);
           ret (if r \<noteq> 0 then -1 else 0, write_mem m (bh_addr b + off) bs) }))"

text \<open>\<open>remote_addr\<close> and \<open>rkey\<close> are NULL or the variables they point to.\<close>

definition tcp_exchange_buf ::
    "env \<Rightarrow> tcp_transport \<Rightarrow> buffer_handle option \<Rightarrow> u64 option \<Rightarrow> u32 option \<Rightarrow> (trace, int \<times> u64 option \<times> u32 option) state" where
  "tcp_exchange_buf E tr local remote_addr rkey =
     (case (local, remote_addr, rkey) of
        (Some b, Some a, Some k) \<Rightarrow>
          (if tt_is_server tr then do {
             s \<leftarrow> tcp_send_all E (tt_fd tr) (u64_bytes (bh_addr b));
             if s \<noteq> 0 then ret (-1, Some a, Some k)
             else do {
               (r, bs) \<leftarrow> tcp_recv_all E (tt_fd tr) (u64_bytes a) 8;
               if r \<noteq> 0 then ret (-1, Some (u64_val bs), Some k)
               else ret (0, Some (u64_val bs), Some 0) } }
           else do {
             (r, bs) \<leftarrow> tcp_recv_all E (tt_fd tr) (u64_bytes a) 8;
             if r \<noteq> 0 then ret (-1, Some (u64_val bs), Some k)
             else do {
               s \<leftarrow> tcp_send_all E (tt_fd tr) (u64_bytes (bh_addr b));
               if s \<noteq> 0 then ret (-1, Some (u64_val bs), Some k)
               else ret (0, Some (u64_val bs), Some 0) } })
      | _ \<Rightarrow> ret (-1, remote_addr, rkey))"

definition tcp_write_async ::
    "env \<Rightarrow> tcp_transport \<Rightarrow> memory \<Rightarrow> buffer_handle option \<Rightarrow> u64 \<Rightarrow> u32 \<Rightarrow> u64 \<Rightarrow> u64 \<Rightarrow> u64 \<Rightarrow> (trace, int) state" where
  "tcp_write_async E tr m local remote_addr rkey len wid off = tcp_send_async E tr m local len wid off"

definition tcp_read_async ::
    "buffer_handle option \<Rightarrow> u64 \<Rightarrow> u32 \<Rightarrow> u64 \<Rightarrow> u64 \<Rightarrow> u64 \<Rightarrow> (trace, int) state" where
  "tcp_read_async local remote_addr rkey len wid off = ret (-1)"

definition tcp_poll :: "u64 option \<Rightarrow> (trace, int \<times> u64 option) state" where
  "tcp_poll completed_id = ret (0, completed_id)"

definition tcp_connect :: "env \<Rightarrow> tcp_transport \<Rightarrow> string option \<Rightarrow> int \<Rightarrow> (trace, int \<times> tcp_transport) state" where
  "tcp_connect E tr host port =
     (case host of None \<Rightarrow> ret (-1, tr)
      | Some ip \<Rightarrow> do {
          p \<leftarrow> exec_call E (Inet_pton ip);
          if p \<noteq> 1 then ret (-1, tr)
          else do {
            fd \<leftarrow> exec_call E Socket;
            if fd < 0 then ret (-1, tr\<lparr>tt_fd := fd\<rparr>)
            else do {
              c \<leftarrow> exec_call E (Connect fd ip port);
              if c < 0 then do { _ \<leftarrow> exec_call E (Close fd); ret (-1, tr\<lparr>tt_fd := -1\<rparr>) }
              else do {
                _ \<leftarrow> exec_call E (Set_nodelay fd);
                ret (0, tr\<lparr>tt_fd := fd, tt_is_server := False\<rparr>) } } } })"

definition tcp_listen :: "env \<Rightarrow> tcp_transport \<Rightarrow> int \<Rightarrow> (trace, int \<times> tcp_transport) state" where
  "tcp_listen E tr port = do {
     fd \<leftarrow> exec_call E Socket;
     if fd < 0 then ret (-1, tr\<lparr>tt_listen_fd := fd\<rparr>)
     else do {
       _ \<leftarrow> exec_call E (Set_reuseaddr fd);
       b \<leftarrow> exec_call E (Bind fd port);
       if b < 0 then do { _ \<leftarrow> exec_call E (Close fd); ret (-1, tr\<lparr>tt_listen_fd := -1\<rparr>) }
       else do {
         l \<leftarrow> exec_call E (Listen fd 1);
         if l < 0 then do { _ \<leftarrow> exec_call E (Close fd); ret (-1, tr\<lparr>tt_listen_fd := -1\<rparr>) }
         else ret (0, tr\<lparr>tt_listen_fd := fd, tt_is_server := True\<rparr>) } } }"

definition tcp_accept :: "env \<Rightarrow> tcp_transport \<Rightarrow> (trace, int \<times> tcp_transport) state" where
  "tcp_accept E tr = do {
     fd \<leftarrow> exec_call E (Accept (tt_listen_fd tr));
     if fd < 0 then ret (-1, tr\<lparr>tt_fd := fd\<rparr>)
     else do { _ \<leftarrow> exec_call E (Set_nodelay fd); ret (0, tr\<lparr>tt_fd := fd\<rparr>) } }"

definition close_fd :: "env \<Rightarrow> int \<Rightarrow> (trace, int) state" where
  "close_fd E fd = (if 0 \<le> fd then do { _ \<leftarrow> exec_call E (Close fd); ret (-1) } else ret fd)"

definition tcp_close :: "env \<Rightarrow> tcp_transport \<Rightarrow> (trace, tcp_transport) state" where
  "tcp_close E tr = do {
     a \<leftarrow> close_fd E (tt_fd tr);
     b \<leftarrow> close_fd E (tt_listen_fd tr);
     ret (tr\<lparr>tt_fd := a, tt_listen_fd := b\<rparr>) }"

text \<open>The descriptors a transport holds.\<close>

definition one_fd :: "int \<Rightarrow> res multiset" where
  "one_fd fd = (if 0 \<le> fd then {#Fd fd#} else {#})"

definition tcp_held :: "tcp_transport \<Rightarrow> res multiset" where
  "tcp_held tr = one_fd (tt_fd tr) + one_fd (tt_listen_fd tr)"

section \<open>Descriptors\<close>

lemma tcp_connect_held:
  assumes "tt_fd tr < 0" and "run_state (tcp_connect E tr host port) t = ((r, tr'), u)"
  shows "live E u + tcp_held tr = live E t + tcp_held tr' \<and> tt_listen_fd tr' = tt_listen_fd tr \<and> (r \<noteq> 0 \<longrightarrow> tt_fd tr' < 0)"
  using assms
  by (cases host) (auto simp: tcp_connect_def run_simps tcp_held_def one_fd_def split: if_splits)

lemma tcp_listen_held:
  assumes "tt_listen_fd tr < 0" and "run_state (tcp_listen E tr port) t = ((r, tr'), u)"
  shows "live E u + tcp_held tr = live E t + tcp_held tr' \<and> tt_fd tr' = tt_fd tr \<and> (r \<noteq> 0 \<longrightarrow> tt_listen_fd tr' < 0)"
  using assms by (auto simp: tcp_listen_def run_simps tcp_held_def one_fd_def split: if_splits)

lemma tcp_accept_held:
  assumes "tt_fd tr < 0" and "run_state (tcp_accept E tr) t = ((r, tr'), u)"
  shows "live E u + tcp_held tr = live E t + tcp_held tr' \<and> tt_listen_fd tr' = tt_listen_fd tr"
  using assms by (auto simp: tcp_accept_def run_simps tcp_held_def one_fd_def split: if_splits)

lemma tcp_close_held:
  assumes "run_state (tcp_close E tr) t = (tr', u)"
  shows "live E u = live E t - tcp_held tr \<and> tcp_held tr' = {#}"
  using assms by (auto simp: tcp_close_def close_fd_def run_simps tcp_held_def one_fd_def split: if_splits)

text \<open>
  Connecting and accepting overwrite the descriptor, and listening the listening one: they may be
  called when there is none.
\<close>

definition tcp_may :: "session_op \<Rightarrow> tcp_transport \<Rightarrow> bool" where
  "tcp_may op tr = (case op of Op_connect host port \<Rightarrow> tt_fd tr < 0 | Op_listen port \<Rightarrow> tt_listen_fd tr < 0
     | Op_accept \<Rightarrow> tt_fd tr < 0)"

definition tcp_op :: "env \<Rightarrow> session_op \<Rightarrow> tcp_transport \<Rightarrow> (trace, int \<times> tcp_transport) state" where
  "tcp_op E op tr = (case op of Op_connect host port \<Rightarrow> tcp_connect E tr host port
     | Op_listen port \<Rightarrow> tcp_listen E tr port | Op_accept \<Rightarrow> tcp_accept E tr)"

interpretation tcp_session: transport_session "\<lambda>E t. True" "\<lambda>M tr. True" tcp_may tcp_op tcp_close tcp_held
proof
  show "True \<and> True \<and> live E u = M + tcp_held tr'"
    if "True" "True" "tcp_may op tr" "live E t = M + tcp_held tr" "run_state (tcp_op E op tr) t = ((r, tr'), u)"
    for E t M op tr r tr' u
  proof -
    have "live E u + tcp_held tr = live E t + tcp_held tr'"
    proof (cases op)
      case (Op_connect host port)
      with that(3,5) show ?thesis using tcp_connect_held [of tr E host port t r tr' u] by (simp add: tcp_may_def tcp_op_def)
    next
      case (Op_listen port)
      with that(3,5) show ?thesis using tcp_listen_held [of tr E port t r tr' u] by (simp add: tcp_may_def tcp_op_def)
    next
      case Op_accept
      with that(3,5) show ?thesis using tcp_accept_held [of tr E t r tr' u] by (simp add: tcp_may_def tcp_op_def)
    qed
    then show ?thesis using that(4) by simp
  qed
  show "True \<and> True \<and> live E u = M \<and> tcp_held tr' = {#}"
    if "True" "True" "live E t = M + tcp_held tr" "run_state (tcp_close E tr) t = (tr', u)" for E t M tr tr' u
    using tcp_close_held [OF that(4)] that(3) by simp
qed

section \<open>Transfers\<close>

lemma tcp_range:
  fixes len off size :: u64
  assumes "unat off + unat len < 2 ^ 64"
  shows "size < len + off \<longleftrightarrow> unat size < unat off + unat len"
proof -
  have "unat (len + off) = (unat len + unat off) mod 2 ^ 64" by (simp add: unat_word_ariths)
  also have "\<dots> = unat off + unat len" using assms by (simp only: add.commute mod_less)
  finally show ?thesis by (simp only: word_less_nat_alt)
qed

definition tcp_wf :: "buffer_handle \<Rightarrow> bool" where
  "tcp_wf h \<longleftrightarrow> bh_addr h \<noteq> 0"

interpretation tcp_sending: checked_transfer "\<lambda>h len off. run_state (tcp_send_async E tr m (Some h) len wid off)"
  tcp_wf "2 ^ 64 - 1"
  for E tr m wid
  by unfold_locales (simp_all add: tcp_send_async_def tcp_range)

interpretation tcp_receiving: checked_transfer
  "\<lambda>h len off t. (fst (fst (run_state (tcp_recv_async E tr (Some h) len wid off m) t)),
     snd (run_state (tcp_recv_async E tr (Some h) len wid off m) t))"
  tcp_wf "2 ^ 64 - 1"
  for E tr m wid
  by unfold_locales (simp_all add: tcp_recv_async_def tcp_range)

lemma tcp_send_spec:
  assumes "sock_ok E" and "run_state (tcp_send_async E tr m (Some h) len wid off) t = (0, u)"
  shows "sent_on (tt_fd tr) u = sent_on (tt_fd tr) t @ read_mem m (bh_addr h + off) (unat len)"
proof -
  obtain r v where s: "run_state (send_all E (tt_fd tr) (read_mem m (bh_addr h + off) (unat len))) t = (r, v)"
    by (metis surj_pair)
  have "r = 0" "v = u" using assms(2) s by (auto simp: tcp_send_async_def tcp_send_all_def run_simps split: if_splits)
  with send_all_spec [OF assms(1) s] show ?thesis by auto
qed

lemma tcp_recv_spec:
  assumes "sock_ok E" and "run_state (tcp_recv_async E tr (Some h) len wid off m) t = ((0, m'), u)"
  shows "\<exists>bs. length bs = unat len \<and> m' = write_mem m (bh_addr h + off) bs \<and>
    rcvd_on (tt_fd tr) u = rcvd_on (tt_fd tr) t @ bs"
proof -
  obtain r bs v where s: "run_state (recv_all E (tt_fd tr) (read_mem m (bh_addr h + off) (unat len)) (unat len)) t = ((r, bs), v)"
    by (metis surj_pair)
  have "r = 0" "v = u" "m' = write_mem m (bh_addr h + off) bs"
    using assms(2) s by (auto simp: tcp_recv_async_def tcp_recv_all_def run_simps split: if_splits)
  with recv_all_spec [OF assms(1) _ s] show ?thesis by auto
qed

section \<open>The exchange of buffer addresses\<close>

lemma tcp_exchange_ok:
  assumes "sock_ok E" and "run_state (tcp_exchange_buf E tr (Some b) (Some a) (Some k)) t = ((0, ra, rk), u)"
  shows "\<exists>bs. length bs = 8 \<and> ra = Some (u64_val bs) \<and> rk = Some 0 \<and>
    sent_on (tt_fd tr) u = sent_on (tt_fd tr) t @ u64_bytes (bh_addr b) \<and> rcvd_on (tt_fd tr) u = rcvd_on (tt_fd tr) t @ bs"
proof (cases "tt_is_server tr")
  case True
  obtain s v where s: "run_state (send_all E (tt_fd tr) (u64_bytes (bh_addr b))) t = (s, v)" by (metis surj_pair)
  obtain r bs w where r: "run_state (recv_all E (tt_fd tr) (u64_bytes a) 8) v = ((r, bs), w)" by (metis surj_pair)
  have "s = 0" "r = 0" "w = u" "ra = Some (u64_val bs)" "rk = Some 0"
    using assms(2) True s r
    by (auto simp: tcp_exchange_buf_def tcp_send_all_def tcp_recv_all_def run_simps split: if_splits)
  with send_all_spec [OF assms(1) s] send_all_frame [OF s, of "tt_fd tr"]
    recv_all_spec [OF assms(1) _ r] recv_all_frame [OF r, of "tt_fd tr"]
  show ?thesis by auto
next
  case False
  obtain r bs v where r: "run_state (recv_all E (tt_fd tr) (u64_bytes a) 8) t = ((r, bs), v)" by (metis surj_pair)
  obtain s w where s: "run_state (send_all E (tt_fd tr) (u64_bytes (bh_addr b))) v = (s, w)" by (metis surj_pair)
  have "s = 0" "r = 0" "w = u" "ra = Some (u64_val bs)" "rk = Some 0"
    using assms(2) False s r
    by (auto simp: tcp_exchange_buf_def tcp_send_all_def tcp_recv_all_def run_simps split: if_splits)
  with send_all_spec [OF assms(1) s] send_all_frame [OF s, of "tt_fd tr"]
    recv_all_spec [OF assms(1) _ r] recv_all_frame [OF r, of "tt_fd tr"]
  show ?thesis by auto
qed

section \<open>Properties\<close>

text \<open>
  C21. A message over the TCP transport: when a send of a range of a buffer and the receive of as
  many bytes at the other end both succeed, the receiver's range holds the sender's bytes and the
  rest of the receiver's memory is as it was.
\<close>

theorem tcp_message:
  assumes "sock_ok Ea" and "sock_ok Eb" and "run_state (tcp_send_async Ea tra m (Some h) len i off) t = (0, u)"
    and "run_state (tcp_recv_async Eb trb (Some h') len i' off' m') t' = ((0, m''), u')"
    and "connected (tt_fd tra) t u (tt_fd trb) t' u'"
  shows "read_mem m'' (bh_addr h' + off') (unat len) = read_mem m (bh_addr h + off) (unat len) \<and>
    (\<forall>x. unat len \<le> unat (x - (bh_addr h' + off')) \<longrightarrow> m'' x = m' x)"
proof -
  obtain bs where bs: "length bs = unat len" "m'' = write_mem m' (bh_addr h' + off') bs"
    "rcvd_on (tt_fd trb) u' = rcvd_on (tt_fd trb) t' @ bs"
    using tcp_recv_spec [OF assms(2,4)] by blast
  with tcp_send_spec [OF assms(1,3)] assms(5) have "bs = read_mem m (bh_addr h + off) (unat len)"
    by (simp add: connected_def)
  moreover have "unat len < 2 ^ 64" using unsigned_less [of len, where ?'a = nat] by simp
  ultimately show ?thesis using bs read_write_same [of bs m' "bh_addr h' + off'"] by (auto simp: write_mem_outside)
qed

theorem tcp_message_witness:
  "\<exists>m''. fst (run_state (tcp_recv_async calm \<lparr>tt_fd = 4, tt_listen_fd = -1, tt_is_server = True\<rparr>
       (Some \<lparr>bh_addr = 4096, bh_size = 8, bh_priv = None\<rparr>) 2 0 6 (\<lambda>_. 0)) []) = (0, m'') \<and>
     read_mem m'' (4096 + 6) 2 = [1, 1] \<and> m'' 4095 = 0"
proof -
  let ?a = "\<lparr>tt_fd = 3, tt_listen_fd = -1, tt_is_server = False\<rparr>" and ?b = "\<lparr>tt_fd = 4, tt_listen_fd = -1, tt_is_server = True\<rparr>"
  let ?h = "\<lparr>bh_addr = 4096, bh_size = 8, bh_priv = None\<rparr>"
  have rm: "read_mem (\<lambda>_. 1) (4096 + 6) (unat (2 :: u64)) = [1, 1]" by simp
  have s: "run_state (tcp_send_async calm ?a (\<lambda>_. 1) (Some ?h) 2 0 6) [] = (0, [(Send 3 [1, 1], 2, [])])"
    by (simp add: tcp_send_async_def tcp_send_all_def run_simps run_send_all calm_send)
  have r: "run_state (tcp_recv_async calm ?b (Some ?h) 2 0 6 (\<lambda>_. 0)) [] =
      ((0, write_mem (\<lambda>_. 0) (4096 + 6) [1, 1]), [(Recv 4 2, 2, [1, 1])])"
    by (simp add: tcp_recv_async_def tcp_recv_all_def run_simps run_recv_all calm_recv) (simp add: numeral_2_eq_2)
  have c: "connected (tt_fd ?a) [] [(Send 3 [1, 1], 2, [])] (tt_fd ?b) [] [(Recv 4 2, 2, [1, 1])]"
    by (simp add: connected_def sent_on_def rcvd_on_def eval_nat_numeral)
  from tcp_message [OF calm_sock calm_sock s r c] r show ?thesis
    by (auto simp: rm [simplified] dest: spec [of _ 4095])
qed

text \<open>
  The TCP transport refuses an empty transfer and, where offset and length do not wrap, every
  transfer outside the registered buffer, without a call; what it accepts lies inside.
\<close>

theorem tcp_bounds:
  assumes "bh_addr h \<noteq> 0" and "unat off + unat len < 2 ^ 64"
  shows "(0 < unat len \<and> unat off + unat len \<le> unat (bh_size h)) \<or>
    run_state (tcp_send_async E tr m (Some h) len i off) t = (-1, t) \<and>
    run_state (tcp_recv_async E tr (Some h) len i off m) t = ((-1, m), t)"
proof (cases "0 < unat len \<and> unat off + unat len \<le> unat (bh_size h)")
  case False
  have l: "unat len \<le> 2 ^ 64 - 1" using unsigned_less [of len, where ?'a = nat] by simp
  have "run_state (tcp_send_async E tr m (Some h) len i off) t = (-1, t)"
    using tcp_sending.accepted_inside [OF _ l assms(2), of h E tr m i t] assms(1) False by (auto simp: tcp_wf_def)
  moreover have "run_state (tcp_recv_async E tr (Some h) len i off m) t = ((-1, m), t)"
    using False assms tcp_range [OF assms(2), of "bh_size h"]
    by (cases "len = 0") (auto simp: tcp_recv_async_def unat_gt_0)
  ultimately show ?thesis by simp
qed simp

theorem tcp_bounds_witness:
  "run_state (tcp_send_async calm tcp_new (\<lambda>_. 0) (Some \<lparr>bh_addr = 4096, bh_size = 8, bh_priv = None\<rparr>) 4 0 6) [] = (-1, [])"
  using tcp_bounds [of "\<lparr>bh_addr = 4096, bh_size = 8, bh_priv = None\<rparr>" 6 4 calm tcp_new "\<lambda>_. 0" 0 "[]"] by simp

text \<open>
  C40. The range check of the TCP transport wraps like the one of the verbs: four bytes at an offset
  two below \<open>2^64\<close> are sent from two bytes before the buffer.
\<close>

theorem tcp_range_wraps:
  "run_state (tcp_send_async calm (tcp_new\<lparr>tt_fd := 3\<rparr>) (\<lambda>x. if x < 4096 then 7 else 0)
     (Some \<lparr>bh_addr = 4096, bh_size = 8, bh_priv = None\<rparr>) 4 0 (- 2)) [] = (0, [(Send 3 [7, 7, 0, 0], 4, [])])"
  by (simp add: tcp_send_async_def tcp_send_all_def run_simps run_send_all calm_send)

text \<open>
  A TCP transport leaks no descriptor: after any sequence of connecting, listening and accepting,
  each when there is no descriptor to overwrite and each failing or not, closing leaves held what
  was held before, and closing again does nothing.
\<close>

theorem tcp_sessions_balanced:
  assumes "session tcp_may (tcp_op E) ops tcp_new t = (tr, v)" and "run_state (tcp_close E tr) v = (tr', w)"
    and "run_state (tcp_close E tr') w = (tr'', x)"
  shows "live E v = live E t + tcp_held tr \<and> live E w = live E t \<and> live E x = live E t"
proof -
  have n: "live E t = live E t + tcp_held tcp_new" by (simp add: tcp_new_def tcp_held_def one_fd_def)
  show ?thesis
    using tcp_session.session_keeps [OF _ _ n assms(1)] tcp_session.session_closed [OF _ _ n assms] by simp
qed

theorem tcp_sessions_balanced_witness:
  "\<exists>u. session tcp_may (tcp_op calm) [Op_connect (Some ''10.0.0.1'') 7, Op_connect None 8, Op_listen 9] tcp_new [] =
       (\<lparr>tt_fd = 3, tt_listen_fd = 3, tt_is_server = True\<rparr>, u) \<and>
     live calm u = {#Fd 3, Fd 3#} \<and> live calm (snd (run_state (tcp_close calm \<lparr>tt_fd = 3, tt_listen_fd = 3, tt_is_server = True\<rparr>) u)) = {#}"
proof -
  let ?ops = "[Op_connect (Some ''10.0.0.1'') 7, Op_connect None 8, Op_listen 9]" and ?tr = "\<lparr>tt_fd = 3, tt_listen_fd = 3, tt_is_server = True\<rparr>"
  have e: "e_ret calm t Socket = 3" "e_ret calm t (Inet_pton s) = 1" "e_ret calm t (Connect i s j) = 0"
    "e_ret calm t (Bind i j) = 0" "e_ret calm t (Listen i j) = 0" for t s i j by (simp_all add: calm_def)
  obtain u where u: "session tcp_may (tcp_op calm) ?ops tcp_new [] = (?tr, u)"
    by (simp add: tcp_new_def tcp_may_def tcp_op_def tcp_connect_def tcp_listen_def run_simps e)
  obtain tr' w where d: "run_state (tcp_close calm ?tr) u = (tr', w)" by (metis surj_pair)
  obtain tr'' x where d': "run_state (tcp_close calm tr') w = (tr'', x)" by (metis surj_pair)
  from tcp_sessions_balanced [OF u d d'] u d show ?thesis by (simp add: tcp_held_def one_fd_def)
qed

text \<open>Connecting a connected transport again loses the first descriptor: closing closes the second only.\<close>

theorem tcp_reconnect_leaks:
  assumes "\<And>t s. e_ret E t (Inet_pton s) = 1" and "\<And>t fd s p. e_ret E t (Connect fd s p) = 0"
    and "run_state (tcp_connect E tcp_new (Some a) p) t = ((0, tr), u)" and "run_state (tcp_connect E tr (Some a) p) u = ((0, tr'), v)"
  shows "live E (snd (run_state (tcp_close E tr') v)) = add_mset (Fd (tt_fd tr)) (live E t)"
  using assms(3,4)
  by (auto simp: tcp_connect_def tcp_close_def close_fd_def tcp_new_def run_simps assms(1,2) split: if_splits)

text \<open>
  The exchange of buffer addresses over TCP: when both ends succeed, each has the address of
  the other's buffer, and a remote key of 0.
\<close>

theorem tcp_exchange:
  assumes "sock_ok Es" and "sock_ok Ec"
    and "run_state (tcp_exchange_buf Es trs (Some bs) (Some a) (Some k)) ts = ((0, ra, rk), us)"
    and "run_state (tcp_exchange_buf Ec trc (Some bc) (Some a') (Some k')) tc = ((0, ra', rk'), uc)"
    and "connected (tt_fd trs) ts us (tt_fd trc) tc uc"
  shows "ra = Some (bh_addr bc) \<and> ra' = Some (bh_addr bs) \<and> rk = Some 0 \<and> rk' = Some 0"
  using tcp_exchange_ok [OF assms(1,3)] tcp_exchange_ok [OF assms(2,4)] assms(5) by (auto simp: connected_def)

theorem tcp_exchange_witness:
  "\<exists>us uc. run_state (tcp_exchange_buf calm \<lparr>tt_fd = 4, tt_listen_fd = 9, tt_is_server = True\<rparr>
       (Some \<lparr>bh_addr = u64_val (replicate 8 1), bh_size = 8, bh_priv = None\<rparr>) (Some 0) (Some 5)) [] =
       ((0, Some (u64_val (replicate 8 1)), Some 0), us) \<and>
     run_state (tcp_exchange_buf calm \<lparr>tt_fd = 3, tt_listen_fd = -1, tt_is_server = False\<rparr>
       (Some \<lparr>bh_addr = u64_val (replicate 8 1), bh_size = 8, bh_priv = None\<rparr>) (Some 0) (Some 5)) [] =
       ((0, Some (u64_val (replicate 8 1)), Some 0), uc)"
proof -
  let ?trs = "\<lparr>tt_fd = 4, tt_listen_fd = 9, tt_is_server = True\<rparr>" and ?trc = "\<lparr>tt_fd = 3, tt_listen_fd = -1, tt_is_server = False\<rparr>"
  let ?b = "\<lparr>bh_addr = u64_val (replicate 8 1), bh_size = 8, bh_priv = None\<rparr>"
  let ?us = "[(Recv 4 8, 8, replicate 8 1), (Send 4 (replicate 8 1), 8, [])]"
  let ?uc = "[(Send 3 (replicate 8 1), 8, []), (Recv 3 8, 8, replicate 8 1)]"
  have e: "u64_bytes (u64_val (replicate 8 1)) = replicate 8 1" by (rule u64_bytes_val) simp
  have s: "run_state (tcp_exchange_buf calm ?trs (Some ?b) (Some 0) (Some 5)) [] = ((0, Some (u64_val (replicate 8 1)), Some 0), ?us)"
    by (simp add: tcp_exchange_buf_def tcp_send_all_def tcp_recv_all_def run_simps run_send_all run_recv_all calm_send calm_recv e)
  have c: "run_state (tcp_exchange_buf calm ?trc (Some ?b) (Some 0) (Some 5)) [] = ((0, Some (u64_val (replicate 8 1)), Some 0), ?uc)"
    by (simp add: tcp_exchange_buf_def tcp_send_all_def tcp_recv_all_def run_simps run_send_all run_recv_all calm_send calm_recv e)
  have n: "connected (tt_fd ?trs) [] ?us (tt_fd ?trc) [] ?uc" by (simp add: connected_def sent_on_def rcvd_on_def)
  from tcp_exchange [OF calm_sock calm_sock s c n] s c show ?thesis by blast
qed

end
