(* ===== verification/Verbs_Ops.thy ===== *)
theory Verbs_Ops
  imports Rai_Types Scoped
begin

text \<open>
  The data path of phase1_verbs: memory regions (rdma_mr.c), posting work requests and
  polling their completions (rdma_ops.c), and tearing a queue pair down (rdma_qp.c). A
  structure passed by pointer comes back changed with the result; the functions that may
  wait forever return an \<open>option\<close>, with None for a run that never ends.
\<close>

section \<open>Definitions\<close>

subsection \<open>Memory regions\<close>

definition mr_access :: "access_flag set" where
  "mr_access = {ACCESS_LOCAL_WRITE, ACCESS_REMOTE_READ, ACCESS_REMOTE_WRITE}"

definition rai_mr_reg :: "env \<Rightarrow> rai_qp option \<Rightarrow> rai_mr option \<Rightarrow> u64 \<Rightarrow> (trace, int \<times> rai_mr option) state" where
  "rai_mr_reg E qp mr len =
     (if len = 0 then ret (-1, mr)
      else case qp of None \<Rightarrow> ret (-1, mr)
      | Some q \<Rightarrow>
        (if q_pd q = 0 then ret (-1, mr)
         else case mr of None \<Rightarrow> ret (-1, None)
         | Some m \<Rightarrow> do {
             p \<leftarrow> exec_call E Sysconf_pagesize;
             let pagesize = (if p \<le> 0 then 4096 else p);
             a \<leftarrow> exec_call E (Posix_memalign pagesize len);
             if a \<noteq> 0 then ret (-1, Some m)
             else do {
               buf \<leftarrow> look (e_memory E);
               h \<leftarrow> exec_call E (Reg_mr (q_pd q) buf len mr_access);
               if h = 0 then do { _ \<leftarrow> exec_call E (Free buf); ret (-1, Some (m\<lparr>mr_mr := 0\<rparr>)) }
               else ret (0, Some (m\<lparr>mr_mr := h, mr_buf := buf, mr_size := len, owns_buf := True\<rparr>)) } }))"

definition rai_mr_reg_external ::
    "env \<Rightarrow> rai_qp option \<Rightarrow> rai_mr option \<Rightarrow> u64 \<Rightarrow> u64 \<Rightarrow> (trace, int \<times> rai_mr option) state" where
  "rai_mr_reg_external E qp mr buf len =
     (if len = 0 then ret (-1, mr)
      else case qp of None \<Rightarrow> ret (-1, mr)
      | Some q \<Rightarrow>
        (if q_pd q = 0 then ret (-1, mr)
         else case mr of None \<Rightarrow> ret (-1, None)
         | Some m \<Rightarrow>
           (if buf = 0 then ret (-1, Some m)
            else do {
              h \<leftarrow> exec_call E (Reg_mr (q_pd q) buf len mr_access);
              if h = 0 then ret (-1, Some (m\<lparr>mr_mr := 0\<rparr>))
              else ret (0, Some (m\<lparr>mr_mr := h, mr_buf := buf, mr_size := len, owns_buf := False\<rparr>)) })))"

definition rai_mr_dereg :: "env \<Rightarrow> rai_mr option \<Rightarrow> (trace, rai_mr option) state" where
  "rai_mr_dereg E mr =
     (case mr of None \<Rightarrow> ret None
      | Some m \<Rightarrow> do {
          _ \<leftarrow> (if mr_mr m \<noteq> 0 then exec_call E (Dereg_mr (mr_mr m)) else ret 0);
          _ \<leftarrow> (if owns_buf m then exec_call E (Free (mr_buf m)) else ret 0);
          ret (Some mr_zero) })"

subsection \<open>Work requests\<close>

definition prepare_sge :: "env \<Rightarrow> rai_qp option \<Rightarrow> rai_mr option \<Rightarrow> u32 \<Rightarrow> u64 \<Rightarrow> sge option" where
  "prepare_sge E qp mr len offset =
     (case qp of None \<Rightarrow> None
      | Some q \<Rightarrow>
        (if q_qp q = 0 then None
         else case mr of None \<Rightarrow> None
         | Some m \<Rightarrow>
           (if mr_mr m = 0 then None
            else if len = 0 \<or> mr_size m < ucast len + offset then None
            else Some \<lparr>sge_addr = mr_buf m + offset, sge_length = len, sge_lkey = e_mr_lkey E (mr_mr m)\<rparr>)))"

definition rai_post_send :: "env \<Rightarrow> rai_qp option \<Rightarrow> rai_mr option \<Rightarrow> u32 \<Rightarrow> u64 \<Rightarrow> u64 \<Rightarrow> (trace, int) state" where
  "rai_post_send E qp mr len wid offset =
     (case prepare_sge E qp mr len offset of None \<Rightarrow> ret (-1)
      | Some sge \<Rightarrow> do {
          p \<leftarrow> exec_call E (Post_send (q_qp (the qp))
            \<lparr>wr_id = wid, wr_sge = sge, wr_opcode = WR_SEND,
             wr_flags = (if len \<le> q_max_inline (the qp) then {SEND_SIGNALED, SEND_INLINE} else {SEND_SIGNALED}),
             wr_remote_addr = 0, wr_rkey = 0\<rparr>);
          ret (if p \<noteq> 0 then -1 else 0) })"

definition rai_post_recv :: "env \<Rightarrow> rai_qp option \<Rightarrow> rai_mr option \<Rightarrow> u32 \<Rightarrow> u64 \<Rightarrow> u64 \<Rightarrow> (trace, int) state" where
  "rai_post_recv E qp mr len wid offset =
     (case prepare_sge E qp mr len offset of None \<Rightarrow> ret (-1)
      | Some sge \<Rightarrow> do {
          p \<leftarrow> exec_call E (Post_recv (q_qp (the qp)) wid sge);
          ret (if p \<noteq> 0 then -1 else 0) })"

definition rai_post_write ::
    "env \<Rightarrow> rai_qp option \<Rightarrow> rai_mr option \<Rightarrow> u32 \<Rightarrow> send_flag set \<Rightarrow> u64 \<Rightarrow> u32 \<Rightarrow> u64 \<Rightarrow> u64 \<Rightarrow> (trace, int) state" where
  "rai_post_write E qp mr len send_flags remote_addr rkey wid offset =
     (case prepare_sge E qp mr len offset of None \<Rightarrow> ret (-1)
      | Some sge \<Rightarrow> do {
          p \<leftarrow> exec_call E (Post_send (q_qp (the qp))
            \<lparr>wr_id = wid, wr_sge = sge, wr_opcode = WR_RDMA_WRITE,
             wr_flags = (if len \<le> q_max_inline (the qp) then insert SEND_INLINE send_flags else send_flags),
             wr_remote_addr = remote_addr, wr_rkey = rkey\<rparr>);
          ret (if p \<noteq> 0 then -1 else 0) })"

definition rai_post_read ::
    "env \<Rightarrow> rai_qp option \<Rightarrow> rai_mr option \<Rightarrow> u32 \<Rightarrow> u64 \<Rightarrow> u32 \<Rightarrow> u64 \<Rightarrow> u64 \<Rightarrow> (trace, int) state" where
  "rai_post_read E qp mr len remote_addr rkey wid offset =
     (case prepare_sge E qp mr len offset of None \<Rightarrow> ret (-1)
      | Some sge \<Rightarrow> do {
          p \<leftarrow> exec_call E (Post_send (q_qp (the qp))
            \<lparr>wr_id = wid, wr_sge = sge, wr_opcode = WR_RDMA_READ, wr_flags = {SEND_SIGNALED},
             wr_remote_addr = remote_addr, wr_rkey = rkey\<rparr>);
          ret (if p \<noteq> 0 then -1 else 0) })"

text \<open>The loop that spins until the completion queue yields an entry. The result carries \<open>wc.wr_id\<close>.\<close>

partial_function (option) poll_loop :: "env \<Rightarrow> handle \<Rightarrow> trace \<Rightarrow> ((int \<times> u64) \<times> trace) option" where
  "poll_loop E cq t =
     (let n = e_ret E t (Poll_cq cq); t' = (Poll_cq cq, n, e_data E t (Poll_cq cq)) # t
      in if n < 0 then Some ((-1, 0), t')
         else if 0 < n then (if e_wc_success E t' then Some ((0, e_wc_wr_id E t'), t') else Some ((-1, 0), t'))
         else poll_loop E cq t')"

definition rai_poll_cq :: "env \<Rightarrow> rai_qp option \<Rightarrow> u64 option \<Rightarrow> trace \<Rightarrow> ((int \<times> u64 option) \<times> trace) option" where
  "rai_poll_cq E qp out t =
     (case qp of None \<Rightarrow> Some ((-1, out), t)
      | Some q \<Rightarrow>
        (if q_cq q = 0 then Some ((-1, out), t)
         else case poll_loop E (q_cq q) t of None \<Rightarrow> None
         | Some ((r, i), u) \<Rightarrow> Some ((r, if r = 0 then map_option (\<lambda>_. i) out else out), u)))"

subsection \<open>Tearing down\<close>

definition drop_if :: "env \<Rightarrow> bool \<Rightarrow> call \<Rightarrow> (trace, unit) state" where
  "drop_if E b c = (if b then do { _ \<leftarrow> exec_call E c; ret () } else ret ())"

definition qp_destroy_cm :: "env \<Rightarrow> rai_qp \<Rightarrow> (trace, unit) state" where
  "qp_destroy_cm E q = do {
     idqp \<leftarrow> look (\<lambda>t. e_cm_qp E t (q_cm_id q));
     _ \<leftarrow> drop_if E (q_cm_id q \<noteq> 0 \<and> idqp \<noteq> 0) (Cm_destroy_qp (q_cm_id q));
     _ \<leftarrow> drop_if E (q_cq q \<noteq> 0) (Destroy_cq (q_cq q));
     _ \<leftarrow> drop_if E (q_pd q \<noteq> 0) (Dealloc_pd (q_pd q));
     _ \<leftarrow> drop_if E (q_cm_id q \<noteq> 0) (Destroy_id (q_cm_id q));
     drop_if E (q_ec q \<noteq> 0) (Destroy_event_channel (q_ec q)) }"

definition qp_destroy_verbs :: "env \<Rightarrow> rai_qp \<Rightarrow> (trace, unit) state" where
  "qp_destroy_verbs E q = do {
     _ \<leftarrow> drop_if E (q_qp q \<noteq> 0) (Destroy_qp (q_qp q));
     _ \<leftarrow> drop_if E (q_cq q \<noteq> 0) (Destroy_cq (q_cq q));
     _ \<leftarrow> drop_if E (q_pd q \<noteq> 0) (Dealloc_pd (q_pd q));
     drop_if E (q_ctx q \<noteq> 0) (Close_device (q_ctx q)) }"

definition rai_qp_destroy :: "env \<Rightarrow> rai_qp option \<Rightarrow> (trace, rai_qp option) state" where
  "rai_qp_destroy E qp =
     (case qp of None \<Rightarrow> ret None
      | Some q \<Rightarrow> do {
          _ \<leftarrow> (if q_mode q = RAI_CONN_VERBS then qp_destroy_verbs E q else qp_destroy_cm E q);
          ret (Some qp_zero) })"

text \<open>What a region or a queue pair stands for.\<close>

definition mr_held :: "rai_mr option \<Rightarrow> res multiset" where
  "mr_held mr = (case mr of None \<Rightarrow> {#}
     | Some m \<Rightarrow> (if mr_mr m \<noteq> 0 then {#Mr (mr_mr m)#} else {#}) + (if owns_buf m then {#Memory (mr_buf m)#} else {#}))"

definition qp_held :: "rai_qp \<Rightarrow> res multiset" where
  "qp_held q = (if q_mode q = RAI_CONN_VERBS
     then (if q_qp q \<noteq> 0 then {#Qp (q_qp q)#} else {#}) + (if q_cq q \<noteq> 0 then {#Cq (q_cq q)#} else {#}) +
       (if q_pd q \<noteq> 0 then {#Pd (q_pd q)#} else {#}) + (if q_ctx q \<noteq> 0 then {#Dev (q_ctx q)#} else {#})
     else (if q_cm_id q \<noteq> 0 \<and> q_qp q \<noteq> 0 then {#Cm_qp (q_cm_id q)#} else {#}) +
       (if q_cq q \<noteq> 0 then {#Cq (q_cq q)#} else {#}) + (if q_pd q \<noteq> 0 then {#Pd (q_pd q)#} else {#}) +
       (if q_cm_id q \<noteq> 0 then {#Cm_id (q_cm_id q)#} else {#}) + (if q_ec q \<noteq> 0 then {#Cm_channel (q_ec q)#} else {#}))"

section \<open>Memory regions are balanced\<close>

lemma mr_reg_spec:
  assumes "mr_held mr = {#}" and "run_state (rai_mr_reg E qp mr len) t = ((r, mr'), u)"
  shows "r = 0 \<and> live E u = live E t + mr_held mr' \<or> r \<noteq> 0 \<and> live E u = live E t \<and> mr_held mr' = {#}"
  using assms
  by (auto simp: rai_mr_reg_def run_simps Let_def mr_held_def split: option.splits if_splits)

lemma mr_reg_external_spec:
  assumes "mr_held mr = {#}" and "run_state (rai_mr_reg_external E qp mr buf len) t = ((r, mr'), u)"
  shows "r = 0 \<and> live E u = live E t + mr_held mr' \<or> r \<noteq> 0 \<and> live E u = live E t \<and> mr_held mr' = {#}"
  using assms
  by (auto simp: rai_mr_reg_external_def run_simps Let_def mr_held_def split: option.splits if_splits)

lemma mr_dereg_spec:
  assumes "run_state (rai_mr_dereg E mr) t = (mr', u)"
  shows "live E u = live E t - mr_held mr \<and> mr_held mr' = {#}"
  using assms by (auto simp: rai_mr_dereg_def run_simps mr_held_def mr_zero_def split: option.splits if_splits)

text \<open>A region that starts out zeroed, whichever function registers it.\<close>

interpretation own_region: scoped_resource E "\<lambda>(qp, len). rai_mr_reg E qp (Some mr_zero) len" "rai_mr_dereg E" mr_held
  for E
proof
  have z: "mr_held (Some mr_zero) = {#}" by (simp add: mr_held_def mr_zero_def)
  show "r = 0 \<and> live E u = live E t + mr_held h \<or> r \<noteq> 0 \<and> live E u = live E t \<and> mr_held h = {#}"
    if "run_state (case a of (qp, len) \<Rightarrow> rai_mr_reg E qp (Some mr_zero) len) t = ((r, h), u)" for a t r h u
    using that by (cases a) (simp add: mr_reg_spec [OF z])
qed (rule mr_dereg_spec)

interpretation external_region: scoped_resource E
  "\<lambda>(qp, buf, len). rai_mr_reg_external E qp (Some mr_zero) buf len" "rai_mr_dereg E" mr_held
  for E
proof
  have z: "mr_held (Some mr_zero) = {#}" by (simp add: mr_held_def mr_zero_def)
  show "r = 0 \<and> live E u = live E t + mr_held h \<or> r \<noteq> 0 \<and> live E u = live E t \<and> mr_held h = {#}"
    if "run_state (case a of (qp, buf, len) \<Rightarrow> rai_mr_reg_external E qp (Some mr_zero) buf len) t = ((r, h), u)" for a t r h u
    using that by (cases a) (simp add: mr_reg_external_spec [OF z])
qed (rule mr_dereg_spec)

section \<open>Work requests stay inside their region\<close>

lemma prepare_sge_some:
  "prepare_sge E qp mr len off = Some g \<longleftrightarrow>
     (\<exists>q m. qp = Some q \<and> mr = Some m \<and> q_qp q \<noteq> 0 \<and> mr_mr m \<noteq> 0 \<and> len \<noteq> 0 \<and>
        ucast len + off \<le> mr_size m \<and>
        g = \<lparr>sge_addr = mr_buf m + off, sge_length = len, sge_lkey = e_mr_lkey E (mr_mr m)\<rparr>)"
  by (auto simp: prepare_sge_def not_le split: option.splits if_splits)

lemma unat_len_less: "unat (len :: u32) < 2 ^ 32"
  using unsigned_less [of len, where ?'a = nat] by simp

lemma unat_ucast_len: "unat (ucast (len :: u32) :: u64) = unat len"
  using unat_len_less [of len] by (simp add: unsigned_ucast_eq take_bit_nat_eq_self)

text \<open>Where the 64-bit sum does not wrap, the check is the range check it is meant to be.\<close>

lemma range_check:
  fixes len :: u32 and off bound :: u64
  assumes "unat off + unat len < 2 ^ 64"
  shows "ucast len + off \<le> bound \<longleftrightarrow> unat off + unat len \<le> unat bound"
proof -
  have "unat (ucast len + off :: u64) = (unat len + unat off) mod 2 ^ 64"
    by (simp add: unat_word_ariths unat_ucast_len)
  also have "\<dots> = unat off + unat len" using assms by (simp only: add.commute mod_less)
  finally show ?thesis by (simp only: word_le_nat_alt)
qed

section \<open>Waiting for a completion\<close>

text \<open>The history after \<open>k\<close> polls.\<close>

primrec polls :: "env \<Rightarrow> handle \<Rightarrow> nat \<Rightarrow> trace \<Rightarrow> trace" where
  "polls E cq 0 t = t"
| "polls E cq (Suc k) t = polls E cq k ((Poll_cq cq, e_ret E t (Poll_cq cq), e_data E t (Poll_cq cq)) # t)"

lemma poll_loop_returns:
  assumes "\<And>j. j < k \<Longrightarrow> e_ret E (polls E cq j t) (Poll_cq cq) = 0" and "e_ret E (polls E cq k t) (Poll_cq cq) \<noteq> 0"
  shows "poll_loop E cq t =
    (let n = e_ret E (polls E cq k t) (Poll_cq cq); u = polls E cq (Suc k) t
     in Some (if 0 < n \<and> e_wc_success E u then (0, e_wc_wr_id E u) else (-1, 0), u))"
  using assms
proof (induction k arbitrary: t)
  case 0
  then show ?case by (subst poll_loop.simps) (auto simp: Let_def)
next
  case (Suc k)
  let ?t = "(Poll_cq cq, e_ret E t (Poll_cq cq), e_data E t (Poll_cq cq)) # t"
  have z: "e_ret E t (Poll_cq cq) = 0" using Suc.prems(1) [of 0] by simp
  have "poll_loop E cq t = poll_loop E cq ?t" using z by (subst poll_loop.simps) (simp add: Let_def)
  also have "\<dots> = (let n = e_ret E (polls E cq k ?t) (Poll_cq cq); u = polls E cq (Suc k) ?t
     in Some (if 0 < n \<and> e_wc_success E u then (0, e_wc_wr_id E u) else (-1, 0), u))"
    by (rule Suc.IH) (use Suc.prems(1) [of "Suc _"] Suc.prems(2) in simp_all)
  finally show ?case by simp
qed

lemma poll_quiet:
  "live E (polls E cq k t) = live E t"
  by (induction k arbitrary: t) simp_all

section \<open>Tearing down\<close>

lemma run_drop_if [run_simps]:
  "run_state (drop_if E b c) t = ((), if b then (c, e_ret E t c, e_data E t c) # t else t)"
  by (simp add: drop_if_def run_simps)

text \<open>\<open>id->qp\<close> is set while the identifier has a queue pair.\<close>

definition cm_qp_ok :: "env \<Rightarrow> trace \<Rightarrow> rai_qp \<Rightarrow> bool" where
  "cm_qp_ok E t q \<longleftrightarrow> (q_mode q = RAI_CONN_CM \<and> q_cm_id q \<noteq> 0 \<longrightarrow>
     (e_cm_qp E t (q_cm_id q) \<noteq> 0 \<longleftrightarrow> q_qp q \<noteq> 0))"

lemma qp_held_zero [simp]: "qp_held qp_zero = {#}"
  by (simp add: qp_held_def qp_zero_def)

lemma qp_destroy_spec:
  assumes "cm_qp_ok E t q" and "run_state (rai_qp_destroy E (Some q)) t = (q', u)"
  shows "q' = Some qp_zero \<and> live E u = live E t - qp_held q"
proof (cases "q_mode q")
  case RAI_CONN_VERBS
  with assms(2) show ?thesis
    by (auto simp: rai_qp_destroy_def qp_destroy_verbs_def run_simps qp_held_def add_mset_commute
        split: if_splits)
next
  case RAI_CONN_CM
  with assms show ?thesis
    by (auto simp: rai_qp_destroy_def qp_destroy_cm_def run_simps qp_held_def cm_qp_ok_def add_mset_commute
        split: if_splits)
qed

lemma qp_destroy_zero: "run_state (rai_qp_destroy E (Some qp_zero)) t = (Some qp_zero, t)"
  by (simp add: rai_qp_destroy_def qp_destroy_cm_def run_simps qp_zero_def)

section \<open>Properties\<close>

text \<open>
  A work request stays inside its region: where offset and length do not wrap 64 bits, a
  post is prepared exactly when the queue pair and the region exist, the length is not zero and
  the range lies inside the region; the gather entry then covers that range and no more.
\<close>

theorem post_in_bounds:
  assumes "unat off + unat len < 2 ^ 64"
  shows "prepare_sge E (Some q) (Some m) len off = Some g \<longleftrightarrow>
    q_qp q \<noteq> 0 \<and> mr_mr m \<noteq> 0 \<and> 0 < unat len \<and> unat off + unat len \<le> unat (mr_size m) \<and>
    g = \<lparr>sge_addr = mr_buf m + off, sge_length = len, sge_lkey = e_mr_lkey E (mr_mr m)\<rparr>"
  using range_check [OF assms, of "mr_size m"] by (auto simp: prepare_sge_some unat_gt_0)

theorem post_in_bounds_witness:
  "prepare_sge calm (Some (qp_zero\<lparr>q_qp := 14\<rparr>)) (Some \<lparr>mr_mr = 15, mr_buf = 4096, mr_size = 64, owns_buf = True\<rparr>) 16 48 =
     Some \<lparr>sge_addr = 4144, sge_length = 16, sge_lkey = 21\<rparr> \<and>
   prepare_sge calm (Some (qp_zero\<lparr>q_qp := 14\<rparr>)) (Some \<lparr>mr_mr = 15, mr_buf = 4096, mr_size = 64, owns_buf = True\<rparr>) 16 49 \<noteq>
     Some \<lparr>sge_addr = 4145, sge_length = 16, sge_lkey = 21\<rparr>"
  using post_in_bounds [of 48 16 calm "qp_zero\<lparr>q_qp := 14\<rparr>" "\<lparr>mr_mr = 15, mr_buf = 4096, mr_size = 64, owns_buf = True\<rparr>"
      "\<lparr>sge_addr = 4144, sge_length = 16, sge_lkey = 21\<rparr>"]
    post_in_bounds [of 49 16 calm "qp_zero\<lparr>q_qp := 14\<rparr>" "\<lparr>mr_mr = 15, mr_buf = 4096, mr_size = 64, owns_buf = True\<rparr>"
      "\<lparr>sge_addr = 4145, sge_length = 16, sge_lkey = 21\<rparr>"]
  by (simp add: qp_zero_def calm_def)

text \<open>
  C21. The range check itself wraps: a 16-byte request at an offset eight bytes below \<open>2^64\<close> passes
  the check of a 64-byte region, and its gather entry starts eight bytes before the region.
\<close>

theorem range_check_wraps:
  "prepare_sge calm (Some (qp_zero\<lparr>q_qp := 14\<rparr>)) (Some \<lparr>mr_mr = 15, mr_buf = 4096, mr_size = 64, owns_buf = True\<rparr>) 16 (- 8) =
     Some \<lparr>sge_addr = 4096 - 8, sge_length = 16, sge_lkey = 21\<rparr>"
  by (simp add: prepare_sge_def qp_zero_def calm_def)

text \<open>One call, and its verdict.\<close>

definition one_call :: "env \<Rightarrow> call \<Rightarrow> trace \<Rightarrow> int \<times> trace" where
  "one_call E c t = (if e_ret E t c = 0 then 0 else -1, (c, e_ret E t c, e_data E t c) # t)"

lemma run_post_send:
  "prepare_sge E (Some q) mr len off = Some g \<Longrightarrow> run_state (rai_post_send E (Some q) mr len i off) t =
    one_call E (Post_send (q_qp q) \<lparr>wr_id = i, wr_sge = g, wr_opcode = WR_SEND,
      wr_flags = (if len \<le> q_max_inline q then {SEND_SIGNALED, SEND_INLINE} else {SEND_SIGNALED}),
      wr_remote_addr = 0, wr_rkey = 0\<rparr>) t"
  by (simp add: rai_post_send_def run_simps one_call_def)

lemma run_post_recv:
  "prepare_sge E (Some q) mr len off = Some g \<Longrightarrow> run_state (rai_post_recv E (Some q) mr len i off) t =
    one_call E (Post_recv (q_qp q) i g) t"
  by (simp add: rai_post_recv_def run_simps one_call_def)

lemma run_post_write:
  "prepare_sge E (Some q) mr len off = Some g \<Longrightarrow> run_state (rai_post_write E (Some q) mr len fl ra rk i off) t =
    one_call E (Post_send (q_qp q) \<lparr>wr_id = i, wr_sge = g, wr_opcode = WR_RDMA_WRITE,
      wr_flags = (if len \<le> q_max_inline q then insert SEND_INLINE fl else fl), wr_remote_addr = ra, wr_rkey = rk\<rparr>) t"
  by (simp add: rai_post_write_def run_simps one_call_def)

lemma run_post_read:
  "prepare_sge E (Some q) mr len off = Some g \<Longrightarrow> run_state (rai_post_read E (Some q) mr len ra rk i off) t =
    one_call E (Post_send (q_qp q) \<lparr>wr_id = i, wr_sge = g, wr_opcode = WR_RDMA_READ, wr_flags = {SEND_SIGNALED},
      wr_remote_addr = ra, wr_rkey = rk\<rparr>) t"
  by (simp add: rai_post_read_def run_simps one_call_def)

lemma run_post_none:
  assumes "prepare_sge E qp mr len off = None"
  shows "run_state (rai_post_send E qp mr len i off) t = (-1, t)" "run_state (rai_post_recv E qp mr len i off) t = (-1, t)"
    "run_state (rai_post_write E qp mr len fl ra rk i off) t = (-1, t)"
    "run_state (rai_post_read E qp mr len ra rk i off) t = (-1, t)"
  using assms by (simp_all add: rai_post_send_def rai_post_recv_def rai_post_write_def rai_post_read_def)

text \<open>
  What is posted: each of the four posts is refused without a call when it cannot be
  prepared; otherwise it makes exactly one call, with the caller's identifier and address, and
  reports the provider's verdict. Small sends and writes go inline, reads never do.
\<close>

theorem post_requests:
  "(prepare_sge E (Some q) mr len off = None \<longrightarrow>
      run_state (rai_post_send E (Some q) mr len i off) t = (-1, t) \<and> run_state (rai_post_recv E (Some q) mr len i off) t = (-1, t) \<and>
      run_state (rai_post_write E (Some q) mr len fl ra rk i off) t = (-1, t) \<and>
      run_state (rai_post_read E (Some q) mr len ra rk i off) t = (-1, t)) \<and>
   (prepare_sge E (Some q) mr len off = Some g \<longrightarrow>
      (\<exists>w. run_state (rai_post_write E (Some q) mr len fl ra rk i off) t = one_call E (Post_send (q_qp q) w) t \<and>
         wr_id w = i \<and> wr_sge w = g \<and> wr_opcode w = WR_RDMA_WRITE \<and> wr_remote_addr w = ra \<and> wr_rkey w = rk \<and>
         (SEND_INLINE \<in> wr_flags w \<longleftrightarrow> SEND_INLINE \<in> fl \<or> len \<le> q_max_inline q)) \<and>
      (\<exists>w. run_state (rai_post_read E (Some q) mr len ra rk i off) t = one_call E (Post_send (q_qp q) w) t \<and>
         wr_id w = i \<and> wr_sge w = g \<and> wr_opcode w = WR_RDMA_READ \<and> wr_remote_addr w = ra \<and> wr_rkey w = rk \<and>
         wr_flags w = {SEND_SIGNALED}) \<and>
      (\<exists>w. run_state (rai_post_send E (Some q) mr len i off) t = one_call E (Post_send (q_qp q) w) t \<and>
         wr_id w = i \<and> wr_sge w = g \<and> wr_opcode w = WR_SEND \<and> SEND_SIGNALED \<in> wr_flags w \<and>
         (SEND_INLINE \<in> wr_flags w \<longleftrightarrow> len \<le> q_max_inline q)) \<and>
      run_state (rai_post_recv E (Some q) mr len i off) t = one_call E (Post_recv (q_qp q) i g) t)"
  by (intro conjI impI exI; (rule run_post_write run_post_read run_post_send run_post_recv)?)
    (simp_all add: run_post_none)

theorem post_requests_witness:
  "\<exists>w. run_state (rai_post_read calm (Some (qp_zero\<lparr>q_qp := 14\<rparr>))
       (Some \<lparr>mr_mr = 15, mr_buf = 4096, mr_size = 64, owns_buf = True\<rparr>) 16 8192 22 5 0) [] =
       one_call calm (Post_send 14 w) [] \<and> wr_remote_addr w = 8192 \<and> wr_flags w = {SEND_SIGNALED}"
proof -
  let ?q = "qp_zero\<lparr>q_qp := 14\<rparr>" and ?m = "\<lparr>mr_mr = 15, mr_buf = 4096, mr_size = 64, owns_buf = True\<rparr>"
  have "prepare_sge calm (Some ?q) (Some ?m) 16 0 = Some \<lparr>sge_addr = 4096, sge_length = 16, sge_lkey = 21\<rparr>"
    by (simp add: prepare_sge_def qp_zero_def calm_def)
  with post_requests [of calm ?q "Some ?m" 16 0 5 "[]" "{}" 8192 22]
  have "\<exists>w. run_state (rai_post_read calm (Some ?q) (Some ?m) 16 8192 22 5 0) [] = one_call calm (Post_send (q_qp ?q) w) [] \<and>
      wr_remote_addr w = 8192 \<and> wr_flags w = {SEND_SIGNALED}"
    by blast
  then show ?thesis by simp
qed

text \<open>
  C22. Waiting for a completion ends as soon as the queue yields something: if the \<open>k\<close>-th poll is
  the first that does not return 0, then \<open>rai_poll_cq\<close> returns after it, with 0 exactly when an
  entry came and reports success, and then with its identifier in the caller's variable.
\<close>

theorem poll_returns:
  assumes "q_cq q \<noteq> 0" and "\<And>j. j < k \<Longrightarrow> e_ret E (polls E (q_cq q) j t) (Poll_cq (q_cq q)) = 0"
    and "e_ret E (polls E (q_cq q) k t) (Poll_cq (q_cq q)) \<noteq> 0"
  shows "\<exists>r out'. rai_poll_cq E (Some q) out t = Some ((r, out'), polls E (q_cq q) (Suc k) t) \<and>
    (r = 0 \<longleftrightarrow> 0 < e_ret E (polls E (q_cq q) k t) (Poll_cq (q_cq q)) \<and> e_wc_success E (polls E (q_cq q) (Suc k) t)) \<and>
    (r = 0 \<and> out \<noteq> None \<longrightarrow> out' = Some (e_wc_wr_id E (polls E (q_cq q) (Suc k) t))) \<and> (r \<noteq> 0 \<longrightarrow> out' = out)"
  using poll_loop_returns [of k E "q_cq q" t, OF assms(2,3)] assms(1)
  by (auto simp: rai_poll_cq_def Let_def split: if_splits)

theorem poll_returns_witness:
  "\<exists>r out'. rai_poll_cq calm (Some (qp_zero\<lparr>q_cq := 13\<rparr>)) (Some 4) [] = Some ((r, out'), [(Poll_cq 13, 1, [])]) \<and>
     r = 0 \<and> out' = Some 0"
proof -
  have e: "e_ret calm t (Poll_cq 13) = 1" "e_data calm t (Poll_cq 13) = []" "e_wc_success calm t" "e_wc_wr_id calm t = 0" for t
    by (simp_all add: calm_def)
  show ?thesis
    using poll_returns [of "qp_zero\<lparr>q_cq := 13\<rparr>" 0 calm "[]" "Some 4"] by (auto simp: e)
qed

text \<open>
  Memory regions balance: registering (with memory of its own or the caller's), using the
  region in any way, and deregistering leaves held exactly what the use itself left; a failed
  registration leaves nothing, and deregistering again does nothing.
\<close>

theorem regions_balanced:
  assumes "live E v = live E u + M"
  shows "(run_state (rai_mr_reg E qp (Some mr_zero) len) t = ((r, mr), u) \<and> run_state (rai_mr_dereg E mr) v = (mr', w) \<longrightarrow>
      live E w = live E t + M) \<and>
    (run_state (rai_mr_reg_external E qp (Some mr_zero) buf len) t = ((r, mr), u) \<and> run_state (rai_mr_dereg E mr) v = (mr', w) \<longrightarrow>
      live E w = live E t + M) \<and>
    run_state (rai_mr_dereg E (Some mr_zero)) t = (Some mr_zero, t)"
  using own_region.scope_balanced [of E "(qp, len)" t r mr u v M mr' w] assms
    external_region.scope_balanced [of E "(qp, buf, len)" t r mr u v M mr' w]
  by (auto simp: rai_mr_dereg_def mr_zero_def run_simps)

theorem regions_balanced_witness:
  "\<exists>mr u mr' w. run_state (rai_mr_reg calm (Some (qp_zero\<lparr>q_pd := 12\<rparr>)) (Some mr_zero) 64) [] = ((0, mr), u) \<and>
     run_state (rai_mr_dereg calm mr) u = (mr', w) \<and> live calm w = {#}"
proof -
  let ?run = "run_state (rai_mr_reg calm (Some (qp_zero\<lparr>q_pd := 12\<rparr>)) (Some mr_zero) 64) []"
  obtain mr u where run: "?run = ((0, mr), u)"
    by (simp add: rai_mr_reg_def run_simps Let_def calm_def)
  obtain mr' w where d: "run_state (rai_mr_dereg calm mr) u = (mr', w)" by (metis surj_pair)
  from regions_balanced [of calm u u "{#}" "Some (qp_zero\<lparr>q_pd := 12\<rparr>)" 64 "[]" 0 mr mr' w] run d
  show ?thesis by auto
qed

text \<open>
  Tear-down of a queue pair we built: the queue pair goes first, then its completion queue, its
  protection domain and the device, each once; the structure is zeroed, and tearing down again
  makes no call.
\<close>

theorem verbs_teardown_order:
  assumes "q_mode q = RAI_CONN_VERBS" and "q_ctx q \<noteq> 0" "q_pd q \<noteq> 0" "q_cq q \<noteq> 0" "q_qp q \<noteq> 0"
  shows "fst (run_state (rai_qp_destroy E (Some q)) t) = Some qp_zero \<and>
    map fst (snd (run_state (rai_qp_destroy E (Some q)) t)) =
      [Close_device (q_ctx q), Dealloc_pd (q_pd q), Destroy_cq (q_cq q), Destroy_qp (q_qp q)] @ map fst t \<and>
    run_state (rai_qp_destroy E (Some qp_zero)) u = (Some qp_zero, u)"
  using assms by (simp add: rai_qp_destroy_def qp_destroy_verbs_def run_simps qp_destroy_zero)
    (simp add: qp_destroy_cm_def run_simps qp_zero_def)

theorem verbs_teardown_order_witness:
  "map fst (snd (run_state (rai_qp_destroy calm
     (Some (qp_zero\<lparr>q_mode := RAI_CONN_VERBS, q_ctx := 11, q_pd := 12, q_cq := 13, q_qp := 14\<rparr>))) [])) =
   [Close_device 11, Dealloc_pd 12, Destroy_cq 13, Destroy_qp 14]"
  using verbs_teardown_order [of "qp_zero\<lparr>q_mode := RAI_CONN_VERBS, q_ctx := 11, q_pd := 12, q_cq := 13, q_qp := 14\<rparr>" calm "[]"]
  by simp

end
