(* ===== verification/Verbs_Connect.thy ===== *)
theory Verbs_Connect
  imports Oob Verbs_Ops
begin

unbundle bit_operations_syntax

text \<open>
  Connection set-up without a connection manager (rdma_verbs_connect.c): choosing a device
  and a GID, building the protection domain, completion queue and queue pair, and walking
  the queue pair through INIT, RTR and RTS by hand with what the peer sent over the
  out-of-band channel.
\<close>

section \<open>Definitions\<close>

definition CQ_DEPTH :: int where
  "CQ_DEPTH = 128"

definition v4_prefix :: "byte list" where
  "v4_prefix = [0,0,0,0, 0,0,0,0, 0,0,0xff,0xff]"

definition gid_is_ipv4_mapped :: "byte list \<Rightarrow> bool" where
  "gid_is_ipv4_mapped gid \<longleftrightarrow> take 12 gid = v4_prefix"

definition gid_is_link_local :: "byte list \<Rightarrow> bool" where
  "gid_is_link_local gid \<longleftrightarrow> gid ! 0 = 0xfe \<and> gid ! 1 AND 0xc0 = 0x80"

text \<open>The loop over the GID table, from the indices that are left.\<close>

primrec gid_scan :: "env \<Rightarrow> handle \<Rightarrow> int \<Rightarrow> nat list \<Rightarrow> int \<Rightarrow> int \<Rightarrow> (trace, int) state" where
  "gid_scan E ctx port [] routable link_local =
     ret (if 0 \<le> routable then routable else link_local)"
| "gid_scan E ctx port (i # is) routable link_local = do {
     r \<leftarrow> exec_call E (Query_gid_ex ctx port (int i));
     v2 \<leftarrow> look (e_gid_type_v2 E);
     gid \<leftarrow> look (e_gid E);
     if r \<noteq> 0 then gid_scan E ctx port is routable link_local
     else if \<not> v2 then gid_scan E ctx port is routable link_local
     else if gid_is_ipv4_mapped gid then ret (int i)
     else if gid_is_link_local gid
     then gid_scan E ctx port is routable (if link_local < 0 then int i else link_local)
     else gid_scan E ctx port is (if routable < 0 then int i else routable) link_local }"

definition find_roce_v2_gid :: "env \<Rightarrow> handle \<Rightarrow> int \<Rightarrow> (trace, int) state" where
  "find_roce_v2_gid E ctx port = do {
     r \<leftarrow> exec_call E (Query_port ctx port);
     n \<leftarrow> look (e_gid_tbl_len E);
     if r \<noteq> 0 then ret (-1) else gid_scan E ctx port [0..<n] (-1) (-1) }"

primrec device_scan :: "env \<Rightarrow> handle list \<Rightarrow> (trace, handle) state" where
  "device_scan E [] = ret 0"
| "device_scan E (d # ds) =
     (if e_getenv_device E \<noteq> None \<and> e_getenv_device E \<noteq> Some (e_device_name E d) then device_scan E ds
      else do {
        tmp \<leftarrow> exec_call E (Open_device d);
        if tmp = 0 then device_scan E ds
        else if e_getenv_device E \<noteq> None then ret tmp
        else do {
          r \<leftarrow> exec_call E (Query_device tmp);
          guid \<leftarrow> look (e_node_guid E);
          if r = 0 \<and> guid = 0 then do { _ \<leftarrow> exec_call E (Close_device tmp); device_scan E ds }
          else ret tmp } })"

definition open_device :: "env \<Rightarrow> (trace, handle) state" where
  "open_device E = do {
     l \<leftarrow> exec_call E Get_device_list;
     devs \<leftarrow> look (e_devices E);
     if l = 0 then ret 0
     else do {
       ctx \<leftarrow> device_scan E devs;
       _ \<leftarrow> exec_call E Free_device_list;
       ret ctx } }"

text \<open>The second half of \<open>build_qp_verbs\<close>, from the protection domain to INIT.\<close>

abbreviation init_attr :: "int \<Rightarrow> qp_attr" where
  "init_attr port \<equiv> Attr_init port 0 {ACCESS_LOCAL_WRITE, ACCESS_REMOTE_READ, ACCESS_REMOTE_WRITE}"

definition build_qp_objects :: "env \<Rightarrow> rai_qp \<Rightarrow> (trace, int \<times> rai_qp) state" where
  "build_qp_objects E q3 = do {
     pd \<leftarrow> exec_call E (Alloc_pd (q_ctx q3));
     let q4 = q3\<lparr>q_pd := pd\<rparr>;
     if pd = 0 then ret (-1, q4)
     else do {
       cq \<leftarrow> exec_call E (Create_cq (q_ctx q3) CQ_DEPTH);
       let q5 = q4\<lparr>q_cq := cq\<rparr>;
       if cq = 0 then ret (-1, q5)
       else do {
         qp \<leftarrow> exec_call E (Create_qp pd cq RAI_QP_MAX_WR RAI_QP_MAX_WR RAI_MAX_INLINE);
         mi \<leftarrow> look (e_max_inline E);
         let q6 = q5\<lparr>q_qp := qp\<rparr>;
         if qp = 0 then ret (-1, q6)
         else do {
           g \<leftarrow> exec_call E (Query_gid (q_ctx q3) (q_port_num q3) (q_gid_index q3));
           gid \<leftarrow> look (e_gid E);
           let q7 = q6\<lparr>q_max_inline := mi, q_local := (q_local q6)\<lparr>ci_qpn := e_qp_num E qp, ci_psn := 0\<rparr>\<rparr>;
           if g \<noteq> 0 then ret (-1, q7)
           else do {
             let q8 = q7\<lparr>q_local := (q_local q7)\<lparr>ci_gid := gid\<rparr>\<rparr>;
             m \<leftarrow> exec_call E (Modify_qp qp (init_attr (q_port_num q3)));
             ret (if m \<noteq> 0 then -1 else 0, q8) } } } } }"

definition build_qp_verbs :: "env \<Rightarrow> rai_qp \<Rightarrow> (trace, int \<times> rai_qp) state" where
  "build_qp_verbs E q0 = do {
     ctx \<leftarrow> open_device E;
     let q1 = q0\<lparr>q_ctx := ctx\<rparr>;
     if ctx = 0 then ret (-1, q1)
     else do {
       let q2 = (if q_port_num q1 = 0 then q1\<lparr>q_port_num := 1\<rparr> else q1);
       gi \<leftarrow> find_roce_v2_gid E ctx (q_port_num q2);
       let q3 = q2\<lparr>q_gid_index := gi\<rparr>;
       if gi < 0 then ret (-1, q3) else build_qp_objects E q3 } }"

definition qp_to_rts :: "env \<Rightarrow> rai_qp \<Rightarrow> (trace, int) state" where
  "qp_to_rts E q =
     (if q_qp q = 0 then ret (-1)
      else do {
        r \<leftarrow> exec_call E (Query_port (q_ctx q) (q_port_num q));
        mtu \<leftarrow> look (e_active_mtu E);
        if r \<noteq> 0 then ret (-1)
        else do {
          a \<leftarrow> exec_call E (Modify_qp (q_qp q)
            (Attr_rtr mtu (ci_qpn (q_remote q)) (ci_psn (q_remote q)) 16 12
               (ci_gid (q_remote q)) (q_gid_index q) 255 (q_port_num q)));
          if a \<noteq> 0 then ret (-1)
          else do {
            b \<leftarrow> exec_call E (Modify_qp (q_qp q) (Attr_rts (ci_psn (q_local q)) 16 14 7 7));
            ret (if b \<noteq> 0 then -1 else 0) } } })"

text \<open>\<open>mr_listen_fd\<close> is NULL or the variable it points to. What the label \<open>out\<close> does:\<close>

definition verbs_listen_out ::
    "env \<Rightarrow> int \<Rightarrow> int \<Rightarrow> rai_qp \<Rightarrow> int option \<Rightarrow> (trace, int \<times> rai_qp \<times> int option) state" where
  "verbs_listen_out E r ep_fd q fd = do {
     _ \<leftarrow> drop_if E (0 \<le> ep_fd) (Close ep_fd);
     if r \<noteq> 0
     then do {
       fd' \<leftarrow> (case fd of Some v \<Rightarrow>
                 (if 0 \<le> v then do { _ \<leftarrow> exec_call E (Close v); ret (Some (-1)) } else ret (Some v))
               | None \<Rightarrow> ret None);
       q' \<leftarrow> rai_qp_destroy E (Some q);
       ret (r, the q', fd') }
     else ret (r, q, fd) }"

text \<open>The listener for the exchange of memory regions, if the caller wants one.\<close>

definition second_listener :: "env \<Rightarrow> int \<Rightarrow> int option \<Rightarrow> (trace, int \<times> int option) state" where
  "second_listener E port fd0 = (case fd0 of None \<Rightarrow> ret (0, None)
     | Some v \<Rightarrow> do { (x, v') \<leftarrow> rai_oob_listen E (port + 1) v; ret (x, Some v') })"

definition rai_verbs_listen_qp ::
    "env \<Rightarrow> rai_qp \<Rightarrow> int \<Rightarrow> int option \<Rightarrow> (trace, int \<times> rai_qp \<times> int option) state" where
  "rai_verbs_listen_qp E qp port mr_listen_fd = do {
     let q0 = qp\<lparr>q_mode := RAI_CONN_VERBS\<rparr>;
     let fd0 = map_option (\<lambda>_. -1) mr_listen_fd;
     (l, ep_fd) \<leftarrow> rai_oob_listen E port (-1);
     if l \<noteq> 0 then verbs_listen_out E (-1) ep_fd q0 fd0
     else do {
       (l', fd) \<leftarrow> second_listener E port fd0;
       if l' \<noteq> 0 then verbs_listen_out E (-1) ep_fd q0 fd
       else do {
         (b, q1) \<leftarrow> build_qp_verbs E q0;
         if b \<noteq> 0 then verbs_listen_out E (-1) ep_fd q1 fd
         else do {
           (a, q2) \<leftarrow> rai_oob_accept E ep_fd (Some q1);
           verbs_listen_out E (if a \<noteq> 0 then -1 else 0) ep_fd (the q2) fd } } } }"

definition rai_verbs_accept_qp :: "env \<Rightarrow> rai_qp \<Rightarrow> (trace, int) state" where
  "rai_verbs_accept_qp E q = do { r \<leftarrow> qp_to_rts E q; ret (if r \<noteq> 0 then -1 else 0) }"

definition rai_verbs_connect_qp ::
    "env \<Rightarrow> rai_qp \<Rightarrow> string option \<Rightarrow> int \<Rightarrow> (trace, int \<times> rai_qp) state" where
  "rai_verbs_connect_qp E qp server_ip port = do {
     let q0 = qp\<lparr>q_mode := RAI_CONN_VERBS\<rparr>;
     (b, q1) \<leftarrow> build_qp_verbs E q0;
     (r, q) \<leftarrow>
       (if b \<noteq> 0 then ret (-1, q1)
        else do {
          (c, q2) \<leftarrow> rai_oob_connect E (Some q1) server_ip port;
          if c \<noteq> 0 then ret (-1, the q2)
          else do {
            s \<leftarrow> qp_to_rts E (the q2);
            ret (if s \<noteq> 0 then -1 else 0, the q2) } });
     if r \<noteq> 0 then do { q' \<leftarrow> rai_qp_destroy E (Some q); ret (r, the q') }
     else ret (r, q) }"

text \<open>
  What the choice of a GID is meant to be, on a port whose table is \<open>tbl\<close>: an entry is empty
  or has a type and a value. An IPv4-mapped RoCE v2 entry first, then any that is not
  link-local, then a link-local one.
\<close>

type_synonym gid_entry = "(bool \<times> byte list) option"

definition v4_entry :: "gid_entry list \<Rightarrow> nat \<Rightarrow> bool" where
  "v4_entry tbl i \<longleftrightarrow> (\<exists>g. tbl ! i = Some (True, g) \<and> gid_is_ipv4_mapped g)"

definition routable_entry :: "gid_entry list \<Rightarrow> nat \<Rightarrow> bool" where
  "routable_entry tbl i \<longleftrightarrow> (\<exists>g. tbl ! i = Some (True, g) \<and> \<not> gid_is_ipv4_mapped g \<and> \<not> gid_is_link_local g)"

definition local_entry :: "gid_entry list \<Rightarrow> nat \<Rightarrow> bool" where
  "local_entry tbl i \<longleftrightarrow> (\<exists>g. tbl ! i = Some (True, g) \<and> \<not> gid_is_ipv4_mapped g \<and> gid_is_link_local g)"

definition index_or :: "int \<Rightarrow> nat option \<Rightarrow> int" where
  "index_or d x = (case x of None \<Rightarrow> d | Some i \<Rightarrow> int i)"

definition best_gid :: "gid_entry list \<Rightarrow> int" where
  "best_gid tbl = (let is = [0..<length tbl]
     in index_or (index_or (index_or (-1) (find (local_entry tbl) is)) (find (routable_entry tbl) is))
          (find (v4_entry tbl) is))"

text \<open>The queries answer from a table that does not change.\<close>

definition gid_table :: "env \<Rightarrow> handle \<Rightarrow> int \<Rightarrow> gid_entry list \<Rightarrow> bool" where
  "gid_table E ctx port tbl \<longleftrightarrow>
     (\<forall>t r d. e_ret E t (Query_port ctx port) = 0 \<and> e_gid_tbl_len E ((Query_port ctx port, r, d) # t) = length tbl) \<and>
     (\<forall>t i d. i < length tbl \<longrightarrow>
        (case tbl ! i of None \<Rightarrow> e_ret E t (Query_gid_ex ctx port (int i)) \<noteq> 0
         | Some (v2, g) \<Rightarrow> e_ret E t (Query_gid_ex ctx port (int i)) = 0 \<and>
             e_gid_type_v2 E ((Query_gid_ex ctx port (int i), 0, d) # t) = v2 \<and>
             e_gid E ((Query_gid_ex ctx port (int i), 0, d) # t) = g))"

section \<open>The choice of a GID\<close>

lemma index_or_simps [simp]: "index_or d None = d" "index_or d (Some i) = int i"
  by (simp_all add: index_or_def)

lemma gid_scan_spec:
  assumes "gid_table E ctx port tbl" and "set is \<subseteq> {..<length tbl}"
  shows "fst (run_state (gid_scan E ctx port is ro ll) t) =
    index_or (let ro' = (if ro < 0 then index_or ro (find (routable_entry tbl) is) else ro);
                  ll' = (if ll < 0 then index_or ll (find (local_entry tbl) is) else ll)
              in if 0 \<le> ro' then ro' else ll') (find (v4_entry tbl) is)"
  using assms(2)
proof (induction "is" arbitrary: ro ll t)
  case Nil
  then show ?case by simp
next
  case (Cons i "is")
  have i: "i < length tbl" using Cons.prems by simp
  have IH: "fst (run_state (gid_scan E ctx port is ro ll) t) =
    index_or (let ro' = (if ro < 0 then index_or ro (find (routable_entry tbl) is) else ro);
                  ll' = (if ll < 0 then index_or ll (find (local_entry tbl) is) else ll)
              in if 0 \<le> ro' then ro' else ll') (find (v4_entry tbl) is)" for ro ll t
    using Cons by simp
  show ?case
  proof (cases "tbl ! i")
    case None
    then have "e_ret E t (Query_gid_ex ctx port (int i)) \<noteq> 0"
      using assms(1) i by (fastforce simp: gid_table_def)
    moreover have "\<not> v4_entry tbl i" "\<not> routable_entry tbl i" "\<not> local_entry tbl i"
      using None by (simp_all add: v4_entry_def routable_entry_def local_entry_def)
    ultimately show ?thesis by (simp add: run_simps IH Let_def)
  next
    case (Some e)
    obtain v2 g where e: "e = (v2, g)" by (cases e)
    have "e_ret E t (Query_gid_ex ctx port (int i)) = 0 \<and>
        e_gid_type_v2 E ((Query_gid_ex ctx port (int i), 0, d) # t) = v2 \<and>
        e_gid E ((Query_gid_ex ctx port (int i), 0, d) # t) = g" for d
      using assms(1) i Some e by (fastforce simp: gid_table_def)
    moreover have "v4_entry tbl i \<longleftrightarrow> v2 \<and> gid_is_ipv4_mapped g"
      "routable_entry tbl i \<longleftrightarrow> v2 \<and> \<not> gid_is_ipv4_mapped g \<and> \<not> gid_is_link_local g"
      "local_entry tbl i \<longleftrightarrow> v2 \<and> \<not> gid_is_ipv4_mapped g \<and> gid_is_link_local g"
      using Some e by (auto simp: v4_entry_def routable_entry_def local_entry_def)
    ultimately show ?thesis by (simp add: run_simps IH Let_def)
  qed
qed

lemma find_roce_v2_gid_best:
  assumes "gid_table E ctx port tbl"
  shows "fst (run_state (find_roce_v2_gid E ctx port) t) = best_gid tbl"
proof -
  have "e_ret E t (Query_port ctx port) = 0"
    "e_gid_tbl_len E ((Query_port ctx port, r, d) # t) = length tbl" for r d
    using assms by (simp_all add: gid_table_def)
  then show ?thesis
    using gid_scan_spec [OF assms, of "[0..<length tbl]" "-1" "-1"]
    by (cases "find (routable_entry tbl) [0..<length tbl]")
      (auto simp: find_roce_v2_gid_def run_simps best_gid_def Let_def atLeast0LessThan)
qed

lemma gid_scan_live: "live E (snd (run_state (gid_scan E ctx port is ro ll) t)) = live E t"
  by (induction "is" arbitrary: ro ll t) (simp_all add: run_simps)

lemma find_gid_live: "live E (snd (run_state (find_roce_v2_gid E ctx port) t)) = live E t"
  by (simp add: find_roce_v2_gid_def run_simps gid_scan_live)

section \<open>What set-up holds\<close>

text \<open>The transitions a queue pair has made, in order.\<close>

fun modified_by :: "handle \<Rightarrow> event \<Rightarrow> qp_attr list" where
  "modified_by h (Modify_qp h' a, r, d) = (if h' = h \<and> r = 0 then [a] else [])"
| "modified_by h e = []"

definition modified :: "handle \<Rightarrow> trace \<Rightarrow> qp_attr list" where
  "modified h t = concat (map (modified_by h) (rev t))"

lemma modified_Cons [simp]: "modified h (e # t) = modified h t @ modified_by h e"
  by (simp add: modified_def)

lemma gid_scan_modified: "modified h (snd (run_state (gid_scan E ctx port is ro ll) t)) = modified h t"
  by (induction "is" arbitrary: ro ll t) (simp_all add: run_simps)

lemma find_gid_modified: "modified h (snd (run_state (find_roce_v2_gid E ctx port) t)) = modified h t"
  by (simp add: find_roce_v2_gid_def run_simps gid_scan_modified)

lemma device_scan_modified: "modified h (snd (run_state (device_scan E ds) t)) = modified h t"
  by (induction ds arbitrary: t) (simp_all add: run_simps)

lemma open_device_modified: "modified h (snd (run_state (open_device E) t)) = modified h t"
proof -
  let ?t = "(Get_device_list, e_ret E t Get_device_list, e_data E t Get_device_list) # t"
  obtain ctx u where "run_state (device_scan E (e_devices E ?t)) ?t = (ctx, u)" by fastforce
  moreover from this have "modified h u = modified h ?t" using device_scan_modified by (metis snd_conv)
  ultimately show ?thesis by (simp add: open_device_def run_simps)
qed

lemma device_scan_live:
  "run_state (device_scan E ds) t = (ctx, u) \<Longrightarrow>
    live E u = live E t + (if ctx \<noteq> 0 then {#Dev ctx#} else {#})"
proof (induction ds arbitrary: t ctx u)
  case (Cons d ds)
  from Cons.prems show ?case
    by (auto simp: run_simps dest: Cons.IH split: if_splits)
qed simp

lemma open_device_live:
  assumes "run_state (open_device E) t = (ctx, u)"
  shows "live E u = live E t + (if ctx \<noteq> 0 then {#Dev ctx#} else {#})"
  using assms
  by (auto simp: open_device_def run_simps dest!: device_scan_live split: if_splits prod.splits)

text \<open>A queue pair structure that owns nothing yet.\<close>

definition qp_fresh :: "rai_qp \<Rightarrow> bool" where
  "qp_fresh q \<longleftrightarrow> q_ctx q = 0 \<and> q_pd q = 0 \<and> q_cq q = 0 \<and> q_qp q = 0 \<and> q_cm_id q = 0 \<and> q_ec q = 0"

lemma qp_fresh_zero [simp]: "qp_fresh qp_zero"
  by (simp add: qp_fresh_def qp_zero_def)

text \<open>
  Building ends with the structure owning exactly what was created, on every path, so that
  \<open>rai_qp_destroy\<close> is the right clean-up for each of its failures.
\<close>

lemma build_qp_objects_spec:
  assumes "q_mode q3 = RAI_CONN_VERBS" "q_ctx q3 \<noteq> 0" "q_pd q3 = 0" "q_cq q3 = 0" "q_qp q3 = 0"
    and "run_state (build_qp_objects E q3) t = ((r, q), u)"
  shows "add_mset (Dev (q_ctx q3)) (live E u) = live E t + qp_held q" and "q_mode q = RAI_CONN_VERBS"
    and "q_remote q = q_remote q3" and "q_ctx q = q_ctx q3" and "r = 0 \<or> r = -1"
    and "r = 0 \<Longrightarrow> q_qp q \<noteq> 0 \<and> ci_qpn (q_local q) = e_qp_num E (q_qp q) \<and> ci_psn (q_local q) = 0"
    and "r = 0 \<Longrightarrow> modified (q_qp q) u = modified (q_qp q) t @ [init_attr (q_port_num q)]"
proof -
  define pd t1 where "pd = e_ret E t (Alloc_pd (q_ctx q3))" and "t1 = (Alloc_pd (q_ctx q3), pd, e_data E t (Alloc_pd (q_ctx q3))) # t"
  define c2 where "c2 = Create_cq (q_ctx q3) CQ_DEPTH"
  define cq t2 where "cq = e_ret E t1 c2" and "t2 = (c2, cq, e_data E t1 c2) # t1"
  define c3 where "c3 = Create_qp pd cq RAI_QP_MAX_WR RAI_QP_MAX_WR RAI_MAX_INLINE"
  define qp t3 where "qp = e_ret E t2 c3" and "t3 = (c3, qp, e_data E t2 c3) # t2"
  define c4 where "c4 = Query_gid (q_ctx q3) (q_port_num q3) (q_gid_index q3)"
  define g t4 where "g = e_ret E t3 c4" and "t4 = (c4, g, e_data E t3 c4) # t3"
  define c5 where "c5 = Modify_qp qp (init_attr (q_port_num q3))"
  define m t5 where "m = e_ret E t4 c5" and "t5 = (c5, m, e_data E t4 c5) # t4"
  define q6 where "q6 = q3\<lparr>q_pd := pd, q_cq := cq, q_qp := qp\<rparr>"
  define q7 where "q7 = q6\<lparr>q_max_inline := e_max_inline E t3, q_local := (q_local q6)\<lparr>ci_qpn := e_qp_num E qp, ci_psn := 0\<rparr>\<rparr>"
  define q8 where "q8 = q7\<lparr>q_local := (q_local q7)\<lparr>ci_gid := e_gid E t4\<rparr>\<rparr>"
  note steps = pd_def t1_def c2_def cq_def t2_def c3_def qp_def t3_def c4_def g_def t4_def c5_def m_def t5_def
  have run: "((r, q), u) = (if pd = 0 then ((-1, q3\<lparr>q_pd := pd\<rparr>), t1)
      else if cq = 0 then ((-1, q3\<lparr>q_pd := pd, q_cq := cq\<rparr>), t2)
      else if qp = 0 then ((-1, q6), t3)
      else if g \<noteq> 0 then ((-1, q7), t4)
      else ((if m \<noteq> 0 then -1 else 0, q8), t5))"
    unfolding assms(6) [symmetric]
    by (simp add: build_qp_objects_def run_simps Let_def q8_def q7_def q6_def flip: steps)
  have l: "live E t1 = live E t + (if pd \<noteq> 0 then {#Pd pd#} else {#})"
    "live E t2 = live E t1 + (if cq \<noteq> 0 then {#Cq cq#} else {#})"
    "live E t3 = live E t2 + (if qp \<noteq> 0 then {#Qp qp#} else {#})" "live E t4 = live E t3" "live E t5 = live E t4"
    by (simp_all add: t1_def t2_def t3_def t4_def t5_def c2_def c3_def c4_def c5_def)
  have f: "q_mode q8 = RAI_CONN_VERBS" "q_ctx q8 = q_ctx q3" "q_pd q8 = pd" "q_cq q8 = cq" "q_qp q8 = qp" "q_remote q8 = q_remote q3"
    "q_port_num q8 = q_port_num q3" "ci_qpn (q_local q8) = e_qp_num E qp" "ci_psn (q_local q8) = 0"
    "q_mode q7 = RAI_CONN_VERBS" "q_ctx q7 = q_ctx q3" "q_pd q7 = pd" "q_cq q7 = cq" "q_qp q7 = qp" "q_remote q7 = q_remote q3"
    "q_mode q6 = RAI_CONN_VERBS" "q_ctx q6 = q_ctx q3" "q_pd q6 = pd" "q_cq q6 = cq" "q_qp q6 = qp" "q_remote q6 = q_remote q3"
    using assms(1) by (simp_all add: q8_def q7_def q6_def)
  show "add_mset (Dev (q_ctx q3)) (live E u) = live E t + qp_held q" "q_mode q = RAI_CONN_VERBS"
    "q_remote q = q_remote q3" "q_ctx q = q_ctx q3" "r = 0 \<or> r = -1"
    using run assms(1-5) by (simp_all add: l f qp_held_def split: if_splits)
  assume "r = 0"
  with run have ok: "q = q8" "u = t5" "m = 0" "qp \<noteq> 0" by (simp_all split: if_splits)
  show "q_qp q \<noteq> 0 \<and> ci_qpn (q_local q) = e_qp_num E (q_qp q) \<and> ci_psn (q_local q) = 0"
    using ok by (simp add: f)
  show "modified (q_qp q) u = modified (q_qp q) t @ [init_attr (q_port_num q)]"
    using ok by (simp add: f t5_def t4_def t3_def t2_def t1_def c2_def c3_def c4_def c5_def)
qed

lemma build_qp_verbs_spec:
  assumes "qp_fresh q0" and "q_mode q0 = RAI_CONN_VERBS"
    and "run_state (build_qp_verbs E q0) t = ((r, q), u)"
  shows "live E u = live E t + qp_held q \<and> q_mode q = RAI_CONN_VERBS \<and> q_remote q = q_remote q0 \<and>
    (r = 0 \<or> r = -1) \<and>
    (r = 0 \<longrightarrow> q_qp q \<noteq> 0 \<and> ci_qpn (q_local q) = e_qp_num E (q_qp q) \<and> ci_psn (q_local q) = 0 \<and>
       modified (q_qp q) u = modified (q_qp q) t @ [init_attr (q_port_num q)])"
proof -
  obtain ctx u1 where o: "run_state (open_device E) t = (ctx, u1)" by fastforce
  note l1 = open_device_live [OF o]
  define q2 where "q2 = (if q_port_num q0 = 0 then q0\<lparr>q_ctx := ctx, q_port_num := 1\<rparr> else q0\<lparr>q_ctx := ctx\<rparr>)"
  have q2: "q_mode q2 = RAI_CONN_VERBS" "q_ctx q2 = ctx" "q_pd q2 = 0" "q_cq q2 = 0" "q_qp q2 = 0"
    "q_remote q2 = q_remote q0"
    using assms(1,2) by (simp_all add: q2_def qp_fresh_def)
  obtain gi u2 where g: "run_state (find_roce_v2_gid E ctx (q_port_num q2)) u1 = (gi, u2)" by fastforce
  have l2: "live E u2 = live E u1" using find_gid_live [of E ctx "q_port_num q2" u1] g by simp
  have run: "run_state (build_qp_verbs E q0) t =
      (if ctx = 0 then ((-1, q0\<lparr>q_ctx := ctx\<rparr>), u1)
       else if gi < 0 then ((-1, q2\<lparr>q_gid_index := gi\<rparr>), u2)
       else run_state (build_qp_objects E (q2\<lparr>q_gid_index := gi\<rparr>)) u2)"
    using o g by (simp add: build_qp_verbs_def run_simps Let_def q2_def)
  consider "ctx = 0" | "ctx \<noteq> 0" "gi < 0" | "ctx \<noteq> 0" "\<not> gi < 0" by blast
  then show ?thesis
  proof cases
    case 1
    then show ?thesis using run assms l1 by (auto simp: qp_held_def qp_fresh_def)
  next
    case 2
    then show ?thesis using run assms(3) q2 l1 l2 by (auto simp: qp_held_def)
  next
    case 3
    then have b: "run_state (build_qp_objects E (q2\<lparr>q_gid_index := gi\<rparr>)) u2 = ((r, q), u)"
      using run assms(3) by simp
    note spec = build_qp_objects_spec [OF _ _ _ _ _ b]
    have "modified (q_qp q) u2 = modified (q_qp q) t"
      using find_gid_modified [of "q_qp q" E ctx "q_port_num q2" u1] open_device_modified [of "q_qp q" E t] o g by simp
    then show ?thesis using spec q2 3 l1 l2 by simp
  qed
qed

section \<open>Connections\<close>

lemma send_loop_modified: "send_loop E fd buf sent t = (r, u) \<Longrightarrow> modified h u = modified h t"
proof (induction E fd buf sent t rule: send_loop.induct)
  case (1 E fd buf sent t)
  show ?case
    using 1(1) [OF _ refl refl refl] 1(2) unfolding send_loop.simps [of E fd buf sent t]
    by (auto simp: Let_def split: if_splits)
qed

lemma recv_loop_modified: "recv_loop E fd len buf recved t = (x, u) \<Longrightarrow> modified h u = modified h t"
proof (induction E fd len buf recved t rule: recv_loop.induct)
  case (1 E fd len buf recved t)
  show ?case
    using 1(1) [OF _ refl refl refl] 1(2) unfolding recv_loop.simps [of E fd len buf recved t]
    by (auto simp: Let_def split: if_splits)
qed

lemma oob_accept_modified:
  assumes "run_state (rai_oob_accept E lfd (Some q)) t = ((r, q'), u)"
  shows "modified h u = modified h t" and "\<exists>i. q' = Some (q\<lparr>q_remote := i\<rparr>)" and "r = 0 \<or> r = -1"
proof -
  show "modified h u = modified h t"
    using assms by (auto simp: rai_oob_accept_def run_simps Let_def run_send_all run_recv_all
        split: if_splits prod.splits dest!: send_loop_modified [where h = h] recv_loop_modified [where h = h])
  have "\<exists>i. q = q\<lparr>q_remote := i\<rparr>" by (rule exI [of _ "q_remote q"]) simp
  then show "\<exists>i. q' = Some (q\<lparr>q_remote := i\<rparr>)" "r = 0 \<or> r = -1"
    using assms by (auto simp: rai_oob_accept_def run_simps Let_def split: if_splits prod.splits)
qed

lemma oob_connect_modified:
  assumes "run_state (rai_oob_connect E (Some q) ip port) t = ((r, q'), u)"
  shows "modified h u = modified h t" and "\<exists>i. q' = Some (q\<lparr>q_remote := i\<rparr>)" and "r = 0 \<or> r = -1"
proof -
  show "modified h u = modified h t"
    using assms by (auto simp: rai_oob_connect_def run_simps Let_def run_send_all run_recv_all
        split: if_splits prod.splits option.splits dest!: send_loop_modified [where h = h] recv_loop_modified [where h = h])
  have "\<exists>i. q = q\<lparr>q_remote := i\<rparr>" by (rule exI [of _ "q_remote q"]) simp
  then show "\<exists>i. q' = Some (q\<lparr>q_remote := i\<rparr>)" "r = 0 \<or> r = -1"
    using assms by (auto simp: rai_oob_connect_def run_simps Let_def split: if_splits prod.splits option.splits)
qed

text \<open>The remote side's name for the queue pair, and both transitions that use it.\<close>

definition rtr_rts :: "rai_qp \<Rightarrow> int \<Rightarrow> qp_attr list" where
  "rtr_rts q mtu = [Attr_rtr mtu (ci_qpn (q_remote q)) (ci_psn (q_remote q)) 16 12 (ci_gid (q_remote q))
     (q_gid_index q) 255 (q_port_num q), Attr_rts (ci_psn (q_local q)) 16 14 7 7]"

lemma qp_to_rts_spec:
  assumes "run_state (qp_to_rts E q) t = (r, u)"
  shows "live E u = live E t" and "r = 0 \<or> r = -1"
    and "r = 0 \<Longrightarrow> \<exists>mtu. modified (q_qp q) u = modified (q_qp q) t @ rtr_rts q mtu"
  using assms by (auto simp: qp_to_rts_def run_simps rtr_rts_def split: if_splits)

lemma qp_held_remote [simp]: "qp_held (q\<lparr>q_remote := i\<rparr>) = qp_held q"
  by (simp add: qp_held_def)

lemma cm_qp_ok_verbs: "q_mode q = RAI_CONN_VERBS \<Longrightarrow> cm_qp_ok E t q"
  by (simp add: cm_qp_ok_def)

lemma verbs_connect_spec:
  assumes "qp_fresh qp"
    and run: "run_state (rai_verbs_connect_qp E qp ip port) t = ((r, q), u)"
  shows "r = 0 \<and> live E u = live E t + qp_held q \<and> q_qp q \<noteq> 0 \<and> q_mode q = RAI_CONN_VERBS \<and>
      (\<exists>mtu. modified (q_qp q) u = modified (q_qp q) t @ init_attr (q_port_num q) # rtr_rts q mtu) \<or>
    r \<noteq> 0 \<and> live E u = live E t \<and> q = qp_zero"
proof -
  let ?q0 = "qp\<lparr>q_mode := RAI_CONN_VERBS\<rparr>"
  obtain b q1 u1 where b: "run_state (build_qp_verbs E ?q0) t = ((b, q1), u1)" by (metis surj_pair)
  have spec: "live E u1 = live E t + qp_held q1 \<and> q_mode q1 = RAI_CONN_VERBS \<and> q_remote q1 = q_remote ?q0 \<and>
    (b = 0 \<or> b = -1) \<and>
    (b = 0 \<longrightarrow> q_qp q1 \<noteq> 0 \<and> ci_qpn (q_local q1) = e_qp_num E (q_qp q1) \<and> ci_psn (q_local q1) = 0 \<and>
       modified (q_qp q1) u1 = modified (q_qp q1) t @ [init_attr (q_port_num q1)])"
    by (rule build_qp_verbs_spec [OF _ _ b]) (use assms(1) in \<open>simp_all add: qp_fresh_def\<close>)
  have fail: ?thesis if "run_state (rai_qp_destroy E (Some x)) v = (Some q, u)" "r \<noteq> 0"
      "q_mode x = RAI_CONN_VERBS" "live E v = live E t + qp_held x" for x v
    using qp_destroy_spec [OF cm_qp_ok_verbs [OF that(3)] that(1)] that(2,4) by simp
  have all_some: "\<exists>y. fst (run_state (rai_qp_destroy E (Some x)) v) = Some y" for x v
    by (simp add: rai_qp_destroy_def run_simps split: prod.splits)
  show ?thesis
  proof (cases "b = 0")
    case False
    obtain y w where d: "run_state (rai_qp_destroy E (Some q1)) u1 = (Some y, w)"
      using all_some [of q1 u1] by (metis prod.collapse)
    with run b False have "r = -1" "q = y" "u = w" by (auto simp: rai_verbs_connect_qp_def run_simps Let_def)
    with fail [of q1 u1] d spec show ?thesis by simp
  next
    case True
    obtain c q2 u2 where c: "run_state (rai_oob_connect E (Some q1) ip port) u1 = ((c, q2), u2)" by (metis surj_pair)
    note cs = oob_connect_modified [OF c] oob_connect_live [OF c]
    obtain i where q2: "q2 = Some (q1\<lparr>q_remote := i\<rparr>)" using cs(2) by blast
    let ?q = "q1\<lparr>q_remote := i\<rparr>"
    obtain s u3 where s: "run_state (qp_to_rts E ?q) u2 = (s, u3)" by (metis surj_pair)
    note ss = qp_to_rts_spec [OF s]
    define v where "v = (if c \<noteq> 0 then u2 else u3)"
    have v: "live E v = live E t + qp_held ?q" using cs ss spec by (simp add: v_def)
    show ?thesis
    proof (cases "c = 0 \<and> s = 0")
      case ok: True
      then have "r = 0" "q = ?q" "u = u3" using run b True c q2 s
        by (auto simp: rai_verbs_connect_qp_def run_simps Let_def)
      with ok ss(3) cs(1) spec True v show ?thesis by (auto simp: v_def)
    next
      case bad: False
      obtain y w where d: "run_state (rai_qp_destroy E (Some ?q)) v = (Some y, w)"
        using all_some [of ?q v] by (metis prod.collapse)
      with run b True c q2 s bad cs(3) ss(2) have "r = -1" "q = y" "u = w"
        by (auto simp: rai_verbs_connect_qp_def run_simps Let_def v_def split: if_splits)
      with fail [of ?q v] d v spec show ?thesis by simp
    qed
  qed
qed

text \<open>The listening side: both listeners first, then the objects, then the exchange.\<close>

definition fd_held :: "int option \<Rightarrow> res multiset" where
  "fd_held fd = (case fd of Some v \<Rightarrow> (if 0 \<le> v then {#Fd v#} else {#}) | None \<Rightarrow> {#})"

lemma second_listener_general:
  assumes "run_state (second_listener E port fd0) t = ((l, fd), u)"
  shows "if l = 0 then live E u = live E t + fd_held fd \<and> (\<forall>v. fd = Some v \<longrightarrow> 0 \<le> v) \<and> (fd = None) = (fd0 = None)
    else live E u = live E t \<and> fd = fd0"
proof (cases fd0)
  case None
  with assms show ?thesis by (simp add: second_listener_def fd_held_def)
next
  case (Some v0)
  obtain x v' w where x: "run_state (rai_oob_listen E (port + 1) v0) t = ((x, v'), w)" by (metis surj_pair)
  with assms Some have "l = x" "fd = Some v'" "u = w" by (auto simp: second_listener_def run_simps)
  with oob_listen_spec [OF x] Some show ?thesis by (auto simp: fd_held_def)
qed

lemma fd_held_none [simp]: "fd_held (map_option (\<lambda>_. -1) m) = {#}" "fd_held None = {#}"
  by (simp_all add: fd_held_def split: option.split)

lemma second_listener_spec:
  assumes "run_state (second_listener E port (map_option (\<lambda>_. -1) m)) t = ((l, fd), u)"
  shows "live E u = live E t + fd_held fd" and "(fd = None) = (m = None)"
    and "l \<noteq> 0 \<Longrightarrow> fd = map_option (\<lambda>_. -1) m" and "l = 0 \<Longrightarrow> fd = Some v \<Longrightarrow> 0 \<le> v"
  using second_listener_general [OF assms] by (auto split: if_splits)

lemma verbs_listen_out_spec:
  assumes "q_mode q = RAI_CONN_VERBS"
    and "live E v = live E t + fd_held (Some ep_fd) + fd_held fd + qp_held q"
    and "\<And>x. fd = Some x \<Longrightarrow> x < 0 \<Longrightarrow> x = -1"
    and "run_state (verbs_listen_out E r ep_fd q fd) v = ((r', q', fd'), u)"
  shows "r' = r" and "r \<noteq> 0 \<Longrightarrow> live E u = live E t \<and> q' = qp_zero \<and> fd' = map_option (\<lambda>_. -1) fd"
    and "r = 0 \<Longrightarrow> live E u = live E t + qp_held q + fd_held fd \<and> q' = q \<and> fd' = fd \<and> modified h u = modified h v"
proof -
  define v1 where "v1 = (if 0 \<le> ep_fd then (Close ep_fd, e_ret E v (Close ep_fd), e_data E v (Close ep_fd)) # v else v)"
  define v2 where "v2 = (case fd of Some x \<Rightarrow> if 0 \<le> x then (Close x, e_ret E v1 (Close x), e_data E v1 (Close x)) # v1 else v1 | None \<Rightarrow> v1)"
  have l1: "live E v1 = live E t + fd_held fd + qp_held q" "modified h v1 = modified h v"
    using assms(2) by (auto simp: v1_def fd_held_def)
  have l2: "live E v2 = live E t + qp_held q" using l1 by (auto simp: v2_def fd_held_def split: option.splits)
  obtain q'' w where d: "run_state (rai_qp_destroy E (Some q)) v2 = (q'', w)" by (metis surj_pair)
  have run: "run_state (verbs_listen_out E r ep_fd q fd) v =
      (if r \<noteq> 0 then ((r, the q'', map_option (\<lambda>_. -1) fd), w) else ((r, q, fd), v1))"
    using d assms(3) unfolding v2_def v1_def
    by (cases fd) (auto simp: verbs_listen_out_def run_simps)
  show "r' = r" using run assms(4) by (auto split: if_splits)
  show "live E u = live E t \<and> q' = qp_zero \<and> fd' = map_option (\<lambda>_. -1) fd" if "r \<noteq> 0"
    using qp_destroy_spec [OF cm_qp_ok_verbs [OF assms(1)] d] l2 run assms(4) that by auto
  show "live E u = live E t + qp_held q + fd_held fd \<and> q' = q \<and> fd' = fd \<and> modified h u = modified h v" if "r = 0"
    using run assms(4) that l1 by auto
qed

lemma oob_listen_modified: "run_state (rai_oob_listen E port fd0) t = (x, u) \<Longrightarrow> modified h u = modified h t"
  by (auto simp: rai_oob_listen_def run_simps split: if_splits)

lemma second_listener_modified: "run_state (second_listener E port fd) t = (x, u) \<Longrightarrow> modified h u = modified h t"
  by (auto simp: second_listener_def run_simps split: option.splits prod.splits dest: oob_listen_modified)

lemma verbs_listen_spec:
  assumes fresh: "qp_fresh qp"
    and run: "run_state (rai_verbs_listen_qp E qp port m) t = ((r, q, fd), u)"
  shows "r = 0 \<and> live E u = live E t + qp_held q + fd_held fd \<and> q_qp q \<noteq> 0 \<and> q_mode q = RAI_CONN_VERBS \<and>
      modified (q_qp q) u = modified (q_qp q) t @ [init_attr (q_port_num q)] \<or>
    r \<noteq> 0 \<and> live E u = live E t \<and> q = qp_zero \<and> fd = map_option (\<lambda>_. -1) m"
proof -
  let ?q0 = "qp\<lparr>q_mode := RAI_CONN_VERBS\<rparr>" and ?m = "map_option (\<lambda>_. -1) m :: int option"
  have q0: "q_mode ?q0 = RAI_CONN_VERBS" "qp_fresh ?q0" "qp_held ?q0 = {#}" and m0: "fd_held ?m = {#}"
    using fresh by (simp_all add: qp_fresh_def qp_held_def fd_held_def split: option.split)
  obtain l ep u0 where l: "run_state (rai_oob_listen E port (-1)) t = ((l, ep), u0)" by (metis surj_pair)
  obtain l' fd1 u1 where l': "run_state (second_listener E port ?m) u0 = ((l', fd1), u1)" by (metis surj_pair)
  obtain b q1 u2 where b: "run_state (build_qp_verbs E ?q0) u1 = ((b, q1), u2)" by (metis surj_pair)
  obtain a q2 u3 where a: "run_state (rai_oob_accept E ep (Some q1)) u2 = ((a, q2), u3)" by (metis surj_pair)
  note ls = oob_listen_spec [OF l] and l's = second_listener_spec [OF l']
    and bs = build_qp_verbs_spec [OF q0(2,1) b] and as = oob_accept_modified [OF a] oob_accept_live [OF a]
  obtain i where q2: "q2 = Some (q1\<lparr>q_remote := i\<rparr>)" using as(2) by blast
  note out = verbs_listen_out_spec [where t = t]
  have neg: "x = -1" if "fd1 = Some x" "x < 0" for x using l's(3,4) that by (cases "l' = 0"; cases m) auto
  show ?thesis
  proof (cases "l = 0")
    case False
    then have "run_state (verbs_listen_out E (-1) ep ?q0 ?m) u0 = ((r, q, fd), u)"
      using run l by (simp add: rai_verbs_listen_qp_def run_simps Let_def)
    from out(1,2) [OF q0(1) _ _ this] False ls q0 m0 show ?thesis by (cases m) (auto simp: fd_held_def)
  next
    case l0: True
    then have ep: "0 \<le> ep" "live E u0 = live E t + fd_held (Some ep)" using ls by (auto simp: fd_held_def)
    show ?thesis
    proof (cases "l' = 0")
      case False
      then have "run_state (verbs_listen_out E (-1) ep ?q0 fd1) u1 = ((r, q, fd), u)"
        using run l l' l0 by (simp add: rai_verbs_listen_qp_def run_simps Let_def)
      from out(1,2) [OF q0(1) _ neg this] l's(1) l's(3) [OF False] ep q0 show ?thesis
        by (cases m) auto
    next
      case l0': True
      show ?thesis
      proof (cases "b = 0")
        case False
        then have "run_state (verbs_listen_out E (-1) ep q1 fd1) u2 = ((r, q, fd), u)"
          using run l l' b l0 l0' by (simp add: rai_verbs_listen_qp_def run_simps Let_def)
        from out(1,2) [OF _ _ neg this] bs l's(1,2) ep show ?thesis by (cases fd1; cases m) auto
      next
        case b0: True
        let ?q = "q1\<lparr>q_remote := i\<rparr>"
        have o: "run_state (verbs_listen_out E (if a \<noteq> 0 then -1 else 0) ep ?q fd1) u3 = ((r, q, fd), u)"
          using run l l' b a l0 l0' b0 q2 by (simp add: rai_verbs_listen_qp_def run_simps Let_def)
        have mode: "q_mode ?q = RAI_CONN_VERBS" and lv: "live E u3 = live E t + fd_held (Some ep) + fd_held fd1 + qp_held ?q"
          using bs l's(1) ep as(4) by simp_all
        note out' = out [OF mode lv neg o]
        show ?thesis
        proof (cases "a = 0")
          case True
          have "modified (q_qp q1) u3 = modified (q_qp q1) t @ [init_attr (q_port_num q1)]"
            using bs b0 as(1) second_listener_modified [OF l'] oob_listen_modified [OF l] by simp
          with out'(1) out'(3) [where h = "q_qp q1"] True bs b0 mode show ?thesis by simp
        next
          case False
          with out'(1,2) l's(2) show ?thesis by (cases fd1; cases m) auto
        qed
      qed
    qed
  qed
qed

section \<open>Properties\<close>

text \<open>
  C17. The GID is chosen as the comment above \<open>find_roce_v2_gid\<close> asks: an IPv4-mapped RoCE v2
  entry if there is one, else the first RoCE v2 entry that is not link-local, else the first
  link-local one, else the failure value -1.
\<close>

theorem gid_choice:
  assumes "gid_table E ctx port tbl"
  shows "fst (run_state (find_roce_v2_gid E ctx port) t) = best_gid tbl"
  by (rule find_roce_v2_gid_best [OF assms])

text \<open>A port with a link-local, a routable IPv6 and an IPv4-mapped entry after an empty one.\<close>

definition port_table :: "gid_entry list" where
  "port_table = [Some (True, 0xfe # 0x80 # replicate 14 1), None, Some (False, replicate 16 3),
     Some (True, replicate 16 2), Some (True, v4_prefix @ [10, 0, 0, 1])]"

definition table_env :: env where
  "table_env = calm\<lparr>
     e_ret := (\<lambda>t c. case c of Query_gid_ex x p i \<Rightarrow> if port_table ! nat i = None then 1 else 0 | _ \<Rightarrow> e_ret calm t c),
     e_gid_tbl_len := (\<lambda>t. 5),
     e_gid_type_v2 := (\<lambda>t. case fst (hd t) of Query_gid_ex x p i \<Rightarrow> fst (the (port_table ! nat i)) | _ \<Rightarrow> True),
     e_gid := (\<lambda>t. case fst (hd t) of Query_gid_ex x p i \<Rightarrow> snd (the (port_table ! nat i)) | _ \<Rightarrow> replicate 16 0)\<rparr>"

theorem gid_choice_witness: "fst (run_state (find_roce_v2_gid table_env 11 1) []) = 4"
proof -
  have "gid_table table_env 11 1 port_table"
    by (auto simp: gid_table_def table_env_def calm_def port_table_def less_Suc_eq eval_nat_numeral split: option.split)
  moreover have "best_gid port_table = 4"
    by (simp add: best_gid_def port_table_def v4_entry_def gid_is_ipv4_mapped_def v4_prefix_def upt_rec
        eval_nat_numeral)
  ultimately show ?thesis using gid_choice by simp
qed

text \<open>
  C15. Connecting by hand, client side: on success the queue pair went through INIT, RTR and RTS in
  that order, with the peer's queue pair number, packet sequence number and GID in RTR and our
  own sequence number in RTS, and the structure owns exactly what was created; on any failure
  everything created was released and the structure is zeroed.
\<close>

theorem verbs_connect_outcome:
  assumes "qp_fresh qp" and "run_state (rai_verbs_connect_qp E qp ip port) t = ((r, q), u)"
  shows "r = 0 \<and> live E u = live E t + qp_held q \<and> q_qp q \<noteq> 0 \<and> q_mode q = RAI_CONN_VERBS \<and>
      (\<exists>mtu. modified (q_qp q) u = modified (q_qp q) t @ init_attr (q_port_num q) # rtr_rts q mtu) \<or>
    r \<noteq> 0 \<and> live E u = live E t \<and> q = qp_zero"
  by (rule verbs_connect_spec [OF assms])

theorem verbs_connect_outcome_witness:
  "\<exists>q u. run_state (rai_verbs_connect_qp (calm\<lparr>e_devices := (\<lambda>t. [])\<rparr>) qp_zero (Some ''10.0.0.1'') 7) [] = ((-1, q), u) \<and>
     live (calm\<lparr>e_devices := (\<lambda>t. [])\<rparr>) u = {#} \<and> q = qp_zero"
proof -
  let ?E = "calm\<lparr>e_devices := (\<lambda>t. [])\<rparr>"
  obtain r q u where run: "run_state (rai_verbs_connect_qp ?E qp_zero (Some ''10.0.0.1'') 7) [] = ((r, q), u)"
    by (metis surj_pair)
  have r: "r = -1"
    using run by (simp add: rai_verbs_connect_qp_def build_qp_verbs_def open_device_def run_simps Let_def calm_def
        split: prod.splits)
  from verbs_connect_outcome [OF qp_fresh_zero run] run r show ?thesis by auto
qed

text \<open>
  Connecting by hand, server side: on success the queue pair is in INIT, the structure owns
  what was created and the caller gets the second listener if it asked for one; on failure
  nothing is left open, the structure is zeroed and the caller's descriptor is -1. Accepting
  then makes exactly the transitions to RTR and RTS, or fails.
\<close>

theorem verbs_listen_outcome:
  assumes "qp_fresh qp" and "run_state (rai_verbs_listen_qp E qp port m) t = ((r, q, fd), u)"
    and "run_state (rai_verbs_accept_qp E q) u = (a, v)"
  shows "(r = 0 \<and> live E u = live E t + qp_held q + fd_held fd \<and> q_qp q \<noteq> 0 \<and> q_mode q = RAI_CONN_VERBS \<and>
      modified (q_qp q) u = modified (q_qp q) t @ [init_attr (q_port_num q)] \<or>
    r \<noteq> 0 \<and> live E u = live E t \<and> q = qp_zero \<and> fd = map_option (\<lambda>_. -1) m) \<and>
    live E v = live E u \<and> (a = 0 \<or> a = -1) \<and> (a = 0 \<longrightarrow> (\<exists>mtu. modified (q_qp q) v = modified (q_qp q) u @ rtr_rts q mtu))"
proof -
  obtain s where s: "run_state (qp_to_rts E q) u = (s, v)" "a = (if s \<noteq> 0 then -1 else 0)"
    using assms(3) by (auto simp: rai_verbs_accept_qp_def run_simps split: prod.splits)
  from verbs_listen_spec [OF assms(1,2)] qp_to_rts_spec [OF s(1)] s(2) show ?thesis by auto
qed

theorem verbs_listen_outcome_witness:
  "\<exists>q u v. run_state (rai_verbs_listen_qp (calm\<lparr>e_devices := (\<lambda>t. [])\<rparr>) qp_zero 7 (Some 5)) [] = ((-1, q, Some (-1)), u) \<and>
     live (calm\<lparr>e_devices := (\<lambda>t. [])\<rparr>) u = {#} \<and> q = qp_zero"
proof -
  let ?E = "calm\<lparr>e_devices := (\<lambda>t. [])\<rparr>"
  obtain r q fd u where run: "run_state (rai_verbs_listen_qp ?E qp_zero 7 (Some 5)) [] = ((r, q, fd), u)"
    by (metis surj_pair)
  obtain a v where acc: "run_state (rai_verbs_accept_qp ?E q) u = (a, v)" by (metis surj_pair)
  have r: "r = -1"
    using run by (simp add: rai_verbs_listen_qp_def second_listener_def rai_oob_listen_def build_qp_verbs_def
        open_device_def verbs_listen_out_def run_simps Let_def calm_def split: prod.splits)
  from verbs_listen_outcome [OF qp_fresh_zero run acc] run r show ?thesis by auto
qed

end
