(* ===== verification/Cm_Connect.thy ===== *)
theory Cm_Connect
  imports Verbs_Connect
begin

text \<open>
  Connection set-up through librdmacm (rdma_cm_connect.c). The library drives the queue
  pair; the program creates the event channel and the identifier, waits for the events it
  expects and acknowledges each, builds its own protection domain and completion queue, and
  hands everything to \<open>rai_qp_destroy\<close> when a step fails. The lemmas say that nothing stays
  behind on any path.
\<close>

section \<open>Definitions\<close>

definition CM_TIMEOUT_MS :: int where
  "CM_TIMEOUT_MS = 3000"

definition build_qp_from_cm :: "env \<Rightarrow> rai_qp \<Rightarrow> handle \<Rightarrow> (trace, int \<times> rai_qp) state" where
  "build_qp_from_cm E q0 cid = do {
     pd \<leftarrow> exec_call E (Alloc_pd (e_cm_verbs E cid));
     let q1 = q0\<lparr>q_pd := pd\<rparr>;
     if pd = 0 then ret (-1, q1)
     else do {
       cq \<leftarrow> exec_call E (Create_cq (e_cm_verbs E cid) CQ_DEPTH);
       let q2 = q1\<lparr>q_cq := cq\<rparr>;
       if cq = 0 then ret (-1, q2)
       else do {
         r \<leftarrow> exec_call E (Cm_create_qp cid pd cq RAI_QP_MAX_WR RAI_QP_MAX_WR RAI_MAX_INLINE);
         mi \<leftarrow> look (e_max_inline E);
         qp \<leftarrow> look (\<lambda>t. e_cm_qp E t cid);
         if r \<noteq> 0 then ret (-1, q2)
         else ret (0, q2\<lparr>q_qp := qp, q_max_inline := mi\<rparr>) } } }"

text \<open>Taking the next event of a channel. \<open>Ack_cm_event\<close> acknowledges the event last taken.\<close>

definition cm_wait_event :: "env \<Rightarrow> handle \<Rightarrow> cm_event \<Rightarrow> (trace, int) state" where
  "cm_wait_event E ec expected = do {
     r \<leftarrow> exec_call E (Get_cm_event ec);
     ev \<leftarrow> look (e_cm_event E);
     if r \<noteq> 0 then ret (-1)
     else if ev \<noteq> expected then do { _ \<leftarrow> exec_call E (Ack_cm_event ec); ret (-1) }
     else ret 0 }"

text \<open>The pattern \<open>if (cm_wait_event(...)) goto out; rdma_ack_cm_event(event);\<close>\<close>

definition cm_expect :: "env \<Rightarrow> handle \<Rightarrow> cm_event \<Rightarrow> (trace, int) state" where
  "cm_expect E ec expected = do {
     w \<leftarrow> cm_wait_event E ec expected;
     if w \<noteq> 0 then ret (-1)
     else do { _ \<leftarrow> exec_call E (Ack_cm_event ec); ret 0 } }"

text \<open>What the label \<open>out\<close> of \<open>rai_cm_listen_qp\<close> does.\<close>

definition cm_listen_out :: "env \<Rightarrow> int \<Rightarrow> handle \<Rightarrow> rai_qp \<Rightarrow> int option \<Rightarrow> (trace, int \<times> rai_qp \<times> int option) state" where
  "cm_listen_out E r listen_id q fd = do {
     _ \<leftarrow> drop_if E (listen_id \<noteq> 0) (Destroy_id listen_id);
     if r \<noteq> 0 then do { q' \<leftarrow> rai_qp_destroy E (Some q); ret (r, the q', fd) }
     else ret (r, q, fd) }"

definition rai_cm_listen_qp ::
    "env \<Rightarrow> rai_qp \<Rightarrow> int \<Rightarrow> int option \<Rightarrow> (trace, int \<times> rai_qp \<times> int option) state" where
  "rai_cm_listen_qp E qp port mr_listen_fd = do {
     let q0 = qp\<lparr>q_mode := RAI_CONN_CM\<rparr>;
     ec \<leftarrow> exec_call E Create_event_channel;
     if ec = 0 then cm_listen_out E (-1) 0 q0 mr_listen_fd
     else do {
       let q1 = q0\<lparr>q_ec := ec\<rparr>;
       c \<leftarrow> exec_call E (Create_id ec);
       new \<leftarrow> look (e_cm_new_id E);
       if c \<noteq> 0 then cm_listen_out E (-1) 0 q1 mr_listen_fd
       else do {
         b \<leftarrow> exec_call E (Bind_addr new port);
         if b \<noteq> 0 then cm_listen_out E (-1) new q1 mr_listen_fd
         else do {
           l \<leftarrow> exec_call E (Cm_listen new 1);
           if l \<noteq> 0 then cm_listen_out E (-1) new q1 mr_listen_fd
           else do {
             w \<leftarrow> cm_wait_event E ec CONNECT_REQUEST;
             conn \<leftarrow> look (e_cm_event_id E);
             if w \<noteq> 0 then cm_listen_out E (-1) new q1 mr_listen_fd
             else do {
               let q2 = q1\<lparr>q_cm_id := conn\<rparr>;
               _ \<leftarrow> exec_call E (Ack_cm_event ec);
               (r, q3) \<leftarrow> build_qp_from_cm E q2 conn;
               if r \<noteq> 0 then cm_listen_out E (-1) new q3 mr_listen_fd
               else do {
                 (o', fd) \<leftarrow> second_listener E port mr_listen_fd;
                 cm_listen_out E (if o' \<noteq> 0 then -1 else 0) new q3 fd } } } } } } }"

definition rai_cm_accept_qp :: "env \<Rightarrow> rai_qp \<Rightarrow> (trace, int) state" where
  "rai_cm_accept_qp E q = do {
     a \<leftarrow> exec_call E (Cm_accept (q_cm_id q) 16 16 7);
     if a \<noteq> 0 then ret (-1)
     else do {
       _ \<leftarrow> exec_call E (Modify_qp (q_qp q) (Attr_rnr 12));
       cm_expect E (q_ec q) ESTABLISHED } }"

text \<open>The steps of \<open>rai_cm_connect_qp\<close> before and after the queue pair is built.\<close>

definition cm_resolve :: "env \<Rightarrow> handle \<Rightarrow> handle \<Rightarrow> string \<Rightarrow> int \<Rightarrow> (trace, int) state" where
  "cm_resolve E ec cid server_ip port = do {
     p \<leftarrow> exec_call E (Inet_pton server_ip);
     if p \<noteq> 1 then ret (-1)
     else do {
       a \<leftarrow> exec_call E (Resolve_addr cid server_ip port CM_TIMEOUT_MS);
       if a \<noteq> 0 then ret (-1)
       else do {
         w \<leftarrow> cm_expect E ec ADDR_RESOLVED;
         if w \<noteq> 0 then ret (-1)
         else do {
           r \<leftarrow> exec_call E (Resolve_route cid CM_TIMEOUT_MS);
           if r \<noteq> 0 then ret (-1)
           else cm_expect E ec ROUTE_RESOLVED } } } }"

definition cm_finish :: "env \<Rightarrow> handle \<Rightarrow> handle \<Rightarrow> (trace, int) state" where
  "cm_finish E ec cid = do {
     c \<leftarrow> exec_call E (Cm_connect cid 16 16 7);
     if c \<noteq> 0 then ret (-1) else cm_expect E ec ESTABLISHED }"

definition cm_connect_out :: "env \<Rightarrow> int \<Rightarrow> rai_qp \<Rightarrow> (trace, int \<times> rai_qp) state" where
  "cm_connect_out E r q =
     (if r \<noteq> 0 then do { q' \<leftarrow> rai_qp_destroy E (Some q); ret (r, the q') } else ret (r, q))"

definition rai_cm_connect_qp :: "env \<Rightarrow> rai_qp \<Rightarrow> string \<Rightarrow> int \<Rightarrow> (trace, int \<times> rai_qp) state" where
  "rai_cm_connect_qp E qp server_ip port = do {
     let q0 = qp\<lparr>q_mode := RAI_CONN_CM\<rparr>;
     ec \<leftarrow> exec_call E Create_event_channel;
     if ec = 0 then cm_connect_out E (-1) q0
     else do {
       let q1 = q0\<lparr>q_ec := ec\<rparr>;
       c \<leftarrow> exec_call E (Create_id ec);
       cid \<leftarrow> look (e_cm_new_id E);
       if c \<noteq> 0 then cm_connect_out E (-1) q1
       else do {
         let q2 = q1\<lparr>q_cm_id := cid\<rparr>;
         a \<leftarrow> cm_resolve E ec cid server_ip port;
         if a \<noteq> 0 then cm_connect_out E (-1) q2
         else do {
           (b, q3) \<leftarrow> build_qp_from_cm E q2 cid;
           if b \<noteq> 0 then cm_connect_out E (-1) q3
           else do {
             d \<leftarrow> cm_finish E ec cid;
             cm_connect_out E (if d \<noteq> 0 then -1 else 0) q3 } } } } }"

text \<open>
  What librdmacm promises: identifiers are not NULL, the field \<open>qp\<close> of one is set from a
  successful \<open>rdma_create_qp\<close> until \<open>rdma_destroy_qp\<close>, and an identifier it hands out, new or
  with a connection request, has no queue pair yet. The other events carry the identifier they
  are about, which may have one.
\<close>

definition cm_ok :: "env \<Rightarrow> bool" where
  "cm_ok E \<longleftrightarrow> (\<forall>t. e_cm_new_id E t \<noteq> 0 \<and> e_cm_event_id E t \<noteq> 0) \<and>
     (\<forall>t i. e_cm_qp E t i \<noteq> 0 \<longleftrightarrow> Cm_qp i \<in># live E t) \<and>
     (\<forall>t ec d. Cm_qp (e_cm_new_id E ((Create_id ec, 0, d) # t)) \<notin># live E t) \<and>
     (\<forall>t ec d. e_cm_event E ((Get_cm_event ec, 0, d) # t) = CONNECT_REQUEST \<longrightarrow>
        Cm_qp (e_cm_event_id E ((Get_cm_event ec, 0, d) # t)) \<notin># live E t)"

text \<open>The identifiers that listen, and the promise that requests come only while one does.\<close>

fun listen_step :: "event \<Rightarrow> handle set \<Rightarrow> handle set" where
  "listen_step (Cm_listen i n, r, d) A = (if r = 0 then insert i A else A)"
| "listen_step (Destroy_id i, r, d) A = A - {i}"
| "listen_step e A = A"

primrec listeners :: "trace \<Rightarrow> handle set" where
  "listeners [] = {}"
| "listeners (e # t) = listen_step e (listeners t)"

definition cm_requests_ok :: "env \<Rightarrow> bool" where
  "cm_requests_ok E \<longleftrightarrow> (\<forall>t. e_cm_event E t = CONNECT_REQUEST \<longrightarrow> listeners t \<noteq> {})"

section \<open>Steps that hold nothing\<close>

text \<open>Run while nothing listens, such a step holds and releases nothing, and still nothing listens.\<close>

definition keeps :: "env \<Rightarrow> (trace, 'a) state \<Rightarrow> bool" where
  "keeps E m \<longleftrightarrow> (\<forall>t. listeners t = {} \<longrightarrow>
     live E (snd (run_state m t)) = live E t \<and> listeners (snd (run_state m t)) = {})"

lemma keeps_ret: "keeps E (ret x)"
  by (simp add: keeps_def)

lemma keeps_bind: "keeps E m \<Longrightarrow> (\<And>x. keeps E (f x)) \<Longrightarrow> keeps E (State_Monad.bind m f)"
  by (simp add: keeps_def run_bind split: prod.split) (metis snd_conv)

lemma keeps_if: "keeps E m \<Longrightarrow> keeps E n \<Longrightarrow> keeps E (if b then m else n)"
  by simp

lemma keeps_call:
  "(\<And>t r. acquired E t c r = {#}) \<Longrightarrow> released c = {#} \<Longrightarrow> (\<And>r d. listen_step (c, r, d) {} = {}) \<Longrightarrow> keeps E (exec_call E c)"
  by (simp add: keeps_def run_call)

lemma keeps_expect: "cm_requests_ok E \<Longrightarrow> keeps E (cm_expect E ec ev)"
  by (auto simp: keeps_def cm_expect_def cm_wait_event_def run_simps cm_requests_ok_def)

lemmas keeps_intros = keeps_ret keeps_bind keeps_if keeps_call keeps_expect

lemma keepsD: "keeps E m \<Longrightarrow> listeners t = {} \<Longrightarrow> run_state m t = (x, u) \<Longrightarrow> live E u = live E t \<and> listeners u = {}"
  by (auto simp: keeps_def dest: spec [of _ t])

lemma keeps_resolve: "cm_requests_ok E \<Longrightarrow> keeps E (cm_resolve E ec cid ip port)"
  unfolding cm_resolve_def by (intro keeps_intros) simp_all

lemma keeps_finish: "cm_requests_ok E \<Longrightarrow> keeps E (cm_finish E ec cid)"
  unfolding cm_finish_def by (intro keeps_intros) simp_all

text \<open>Building and destroying a queue pair starts no listening.\<close>

lemma build_listeners:
  "run_state (build_qp_from_cm E q0 cid) t = (x, u) \<Longrightarrow> listeners u = listeners t"
  by (auto simp: build_qp_from_cm_def run_simps Let_def split: if_splits)

lemma destroy_listeners:
  "run_state (rai_qp_destroy E qp) t = (x, u) \<Longrightarrow> listeners u \<subseteq> listeners t"
  by (auto simp: rai_qp_destroy_def qp_destroy_cm_def qp_destroy_verbs_def run_simps split: option.splits if_splits)

lemma connect_out_listeners:
  "run_state (cm_connect_out E r q) t = (x, u) \<Longrightarrow> listeners u \<subseteq> listeners t"
  by (auto simp: cm_connect_out_def run_simps split: if_splits prod.splits dest: destroy_listeners)

lemma second_listener_listeners:
  "run_state (second_listener E port m) t = (x, u) \<Longrightarrow> listeners u = listeners t"
  by (auto simp: second_listener_def rai_oob_listen_def run_simps split: option.splits if_splits)

lemma listen_out_listeners:
  "run_state (cm_listen_out E r lid q fd) t = (x, u) \<Longrightarrow> listeners t \<subseteq> (if lid \<noteq> 0 then {lid} else {}) \<Longrightarrow> listeners u = {}"
  by (auto simp: cm_listen_out_def run_simps split: if_splits prod.splits dest!: destroy_listeners) blast+

section \<open>Nothing stays behind\<close>

lemma build_qp_from_cm_spec:
  assumes "cm_ok E" and "q_mode q0 = RAI_CONN_CM" "q_cm_id q0 = cid" "cid \<noteq> 0" "q_pd q0 = 0" "q_cq q0 = 0" "q_qp q0 = 0"
    and "run_state (build_qp_from_cm E q0 cid) t = ((r, q), u)"
  shows "live E u + qp_held q0 = live E t + qp_held q \<and> q_mode q = RAI_CONN_CM \<and> q_cm_id q = cid \<and>
    q_ec q = q_ec q0 \<and> (r = 0 \<longrightarrow> q_qp q \<noteq> 0)"
proof -
  define c1 where "c1 = Alloc_pd (e_cm_verbs E cid)"
  define pd t1 where "pd = e_ret E t c1" and "t1 = (c1, pd, e_data E t c1) # t"
  define c2 where "c2 = Create_cq (e_cm_verbs E cid) CQ_DEPTH"
  define cq t2 where "cq = e_ret E t1 c2" and "t2 = (c2, cq, e_data E t1 c2) # t1"
  define c3 where "c3 = Cm_create_qp cid pd cq RAI_QP_MAX_WR RAI_QP_MAX_WR RAI_MAX_INLINE"
  define x t3 where "x = e_ret E t2 c3" and "t3 = (c3, x, e_data E t2 c3) # t2"
  note steps = c1_def pd_def t1_def c2_def cq_def t2_def c3_def x_def t3_def
  have run: "((r, q), u) = (if pd = 0 then ((-1, q0\<lparr>q_pd := pd\<rparr>), t1)
      else if cq = 0 then ((-1, q0\<lparr>q_pd := pd, q_cq := cq\<rparr>), t2)
      else if x \<noteq> 0 then ((-1, q0\<lparr>q_pd := pd, q_cq := cq\<rparr>), t3)
      else ((0, q0\<lparr>q_pd := pd, q_cq := cq, q_qp := e_cm_qp E t3 cid, q_max_inline := e_max_inline E t3\<rparr>), t3))"
    unfolding assms(8) [symmetric] by (simp add: build_qp_from_cm_def run_simps Let_def flip: steps)
  have l: "live E t1 = live E t + (if pd \<noteq> 0 then {#Pd pd#} else {#})"
    "live E t2 = live E t1 + (if cq \<noteq> 0 then {#Cq cq#} else {#})"
    "live E t3 = live E t2 + (if x = 0 then {#Cm_qp cid#} else {#})"
    by (simp_all add: t1_def t2_def t3_def c1_def c2_def c3_def)
  have "x = 0 \<Longrightarrow> e_cm_qp E t3 cid \<noteq> 0" using assms(1) l(3) by (simp add: cm_ok_def)
  then show ?thesis
    using run assms(2-7) by (auto simp: l qp_held_def add_mset_commute split: if_splits)
qed

lemma cm_qp_ok_held:
  assumes "cm_ok E" and "live E v = live E t + qp_held q + M" and "q_cm_id q = 0 \<or> Cm_qp (q_cm_id q) \<notin># live E t + M"
  shows "cm_qp_ok E v q"
  using assms by (auto simp: cm_qp_ok_def cm_ok_def qp_held_def split: if_splits)

lemma destroy_some: "\<exists>y w. run_state (rai_qp_destroy E (Some x)) v = (Some y, w)"
  by (simp add: rai_qp_destroy_def run_simps split: prod.splits)

lemma cm_connect_out_spec:
  assumes "cm_ok E" and "live E v = live E t + qp_held x" and "q_cm_id x = 0 \<or> Cm_qp (q_cm_id x) \<notin># live E t"
    and "run_state (cm_connect_out E r x) v = ((r', q), u)"
  shows "r' = r \<and> (if r = 0 then q = x \<and> u = v else q = qp_zero \<and> live E u = live E t)"
proof -
  obtain y w where d: "run_state (rai_qp_destroy E (Some x)) v = (Some y, w)" using destroy_some by blast
  have "cm_qp_ok E v x" using cm_qp_ok_held [OF assms(1), of v t x "{#}"] assms(2,3) by simp
  from qp_destroy_spec [OF this d] assms(2,4) d show ?thesis
    by (auto simp: cm_connect_out_def run_simps split: if_splits)
qed

lemma cm_connect_spec:
  assumes ok: "cm_ok E" "cm_requests_ok E" "listeners t = {}" and fresh: "qp_fresh qp"
    and run: "run_state (rai_cm_connect_qp E qp ip port) t = ((r, q), u)"
  shows "r = 0 \<and> live E u = live E t + qp_held q \<and> q_mode q = RAI_CONN_CM \<and> q_qp q \<noteq> 0 \<and> q_cm_id q \<noteq> 0 \<and>
      Cm_qp (q_cm_id q) \<notin># live E t \<or>
    r \<noteq> 0 \<and> live E u = live E t \<and> q = qp_zero" (is ?main) and "listeners u = {}"
proof -
  define q0 where "q0 = qp\<lparr>q_mode := RAI_CONN_CM\<rparr>"
  define ec t1 where "ec = e_ret E t Create_event_channel"
    and "t1 = (Create_event_channel, ec, e_data E t Create_event_channel) # t"
  define q1 where "q1 = q0\<lparr>q_ec := ec\<rparr>"
  define c t2 where "c = e_ret E t1 (Create_id ec)" and "t2 = (Create_id ec, c, e_data E t1 (Create_id ec)) # t1"
  define cid where "cid = e_cm_new_id E t2"
  define q2 where "q2 = q1\<lparr>q_cm_id := cid\<rparr>"
  obtain a u1 where a: "run_state (cm_resolve E ec cid ip port) t2 = (a, u1)" by (metis surj_pair)
  obtain b q3 u2 where b: "run_state (build_qp_from_cm E q2 cid) u1 = ((b, q3), u2)" by (metis surj_pair)
  obtain d u3 where d: "run_state (cm_finish E ec cid) u2 = (d, u3)" by (metis surj_pair)
  have q0: "qp_held q0 = {#}" "q_cm_id q0 = 0" and q1: "qp_held q1 = (if ec \<noteq> 0 then {#Cm_channel ec#} else {#})" "q_cm_id q1 = 0"
    and q2: "q_mode q2 = RAI_CONN_CM" "q_cm_id q2 = cid" "q_pd q2 = 0" "q_cq q2 = 0" "q_qp q2 = 0" "q_ec q2 = ec"
    using fresh by (simp_all add: q0_def q1_def q2_def qp_held_def qp_fresh_def)
  have l1: "live E t1 = live E t + qp_held q1" using q1 by (simp add: t1_def)
  have "c = 0 \<Longrightarrow> Cm_qp cid \<notin># live E t1" using ok(1) by (simp add: cm_ok_def cid_def t2_def)
  then have cid: "cid \<noteq> 0" "c = 0 \<Longrightarrow> Cm_qp cid \<notin># live E t"
    using ok(1) l1 by (auto simp: cm_ok_def cid_def)
  have l2: "live E t2 = live E t + qp_held q1 + (if c = 0 then {#Cm_id cid#} else {#})"
    using l1 by (simp add: t2_def cid_def)
  have h2: "qp_held q2 = qp_held q1 + {#Cm_id cid#}" using q1 q2 cid by (simp add: qp_held_def)
  have n2: "listeners t1 = {}" "listeners t2 = {}" using ok(3) by (simp_all add: t1_def t2_def)
  note l3 = keepsD [OF keeps_resolve [OF ok(2)] n2(2) a]
  have n4: "listeners u2 = {}" using build_listeners [OF b] l3 by simp
  note l4 = keepsD [OF keeps_finish [OF ok(2)] n4 d]
  note bs = build_qp_from_cm_spec [OF ok(1) q2(1,2) cid(1) q2(3,4,5) b]
  have R: "run_state (rai_cm_connect_qp E qp ip port) t =
      (if ec = 0 then run_state (cm_connect_out E (-1) q0) t1
       else if c \<noteq> 0 then run_state (cm_connect_out E (-1) q1) t2
       else if a \<noteq> 0 then run_state (cm_connect_out E (-1) q2) u1
       else if b \<noteq> 0 then run_state (cm_connect_out E (-1) q3) u2
       else run_state (cm_connect_out E (if d \<noteq> 0 then -1 else 0) q3) u3)"
    using a b d unfolding q2_def q1_def q0_def cid_def
    by (simp add: rai_cm_connect_qp_def run_simps Let_def flip: ec_def t1_def c_def t2_def)
  show "listeners u = {}"
    using R run n2 n4 l3 l4 by (auto split: if_splits dest!: connect_out_listeners [OF sym])
  note out = cm_connect_out_spec [OF ok(1), where t = t]
  consider (1) "ec = 0" | (2) "ec \<noteq> 0" "c \<noteq> 0" | (3) "ec \<noteq> 0" "c = 0" "a \<noteq> 0"
    | (4) "ec \<noteq> 0" "c = 0" "a = 0" "b \<noteq> 0" | (5) "ec \<noteq> 0" "c = 0" "a = 0" "b = 0" by blast
  then show ?main
  proof cases
    case 1
    then show ?thesis using out [of t1 q0 "-1" r q u] run R l1 q0 q1 by simp
  next
    case 2
    then show ?thesis using out [of t2 q1 "-1" r q u] run R l2 q1 by simp
  next
    case 3
    then show ?thesis using out [of u1 q2 "-1" r q u] run R l2 l3 h2 q2 cid by simp
  next
    case 4
    have "live E u2 = live E t + qp_held q3" using bs l2 l3 h2 4 by simp
    then show ?thesis using out [of u2 q3 "-1" r q u] run R 4 bs cid by simp
  next
    case 5
    have "live E u3 = live E t + qp_held q3" using bs l2 l3 l4 h2 5 by simp
    then show ?thesis using out [of u3 q3 "if d \<noteq> 0 then -1 else 0" r q u] run R 5 bs cid by (simp split: if_splits)
  qed
qed

lemma cm_listen_out_spec:
  assumes "cm_ok E" and "live E v = live E t + qp_held x + (if lid \<noteq> 0 then {#Cm_id lid#} else {#}) + M"
    and "q_cm_id x = 0 \<or> Cm_qp (q_cm_id x) \<notin># live E t + M"
    and "run_state (cm_listen_out E r lid x fd) v = ((r', q, fd'), u)"
  shows "r' = r \<and> fd' = fd \<and>
    (if r = 0 then q = x \<and> live E u = live E t + qp_held x + M else q = qp_zero \<and> live E u = live E t + M)"
proof -
  define v1 where "v1 = (if lid \<noteq> 0 then (Destroy_id lid, e_ret E v (Destroy_id lid), e_data E v (Destroy_id lid)) # v else v)"
  have l: "live E v1 = live E t + qp_held x + M" using assms(2) by (simp add: v1_def)
  obtain y w where d: "run_state (rai_qp_destroy E (Some x)) v1 = (Some y, w)" using destroy_some by blast
  have "cm_qp_ok E v1 x" using cm_qp_ok_held [OF assms(1) l assms(3)] .
  from qp_destroy_spec [OF this d] assms(4) d l show ?thesis
    by (auto simp: cm_listen_out_def run_simps v1_def split: if_splits)
qed

lemma cm_listen_spec:
  assumes ok: "cm_ok E" and fresh: "qp_fresh qp"
    and run: "run_state (rai_cm_listen_qp E qp port m) t = ((r, q, fd), u)"
  shows "r = 0 \<and> live E u = live E t + qp_held q + fd_held fd \<and> (fd = None) = (m = None) \<and>
      q_mode q = RAI_CONN_CM \<and> q_qp q \<noteq> 0 \<and> q_cm_id q \<noteq> 0 \<and>
      Cm_qp (q_cm_id q) \<notin># live E t \<or>
    r \<noteq> 0 \<and> live E u = live E t \<and> q = qp_zero \<and> fd = m" (is ?main)
    and "listeners t = {} \<Longrightarrow> listeners u = {}"
proof -
  define q0 where "q0 = qp\<lparr>q_mode := RAI_CONN_CM\<rparr>"
  define ec t1 where "ec = e_ret E t Create_event_channel"
    and "t1 = (Create_event_channel, ec, e_data E t Create_event_channel) # t"
  define q1 where "q1 = q0\<lparr>q_ec := ec\<rparr>"
  define c t2 where "c = e_ret E t1 (Create_id ec)" and "t2 = (Create_id ec, c, e_data E t1 (Create_id ec)) # t1"
  define lid where "lid = e_cm_new_id E t2"
  define b t3 where "b = e_ret E t2 (Bind_addr lid port)" and "t3 = (Bind_addr lid port, b, e_data E t2 (Bind_addr lid port)) # t2"
  define l t4 where "l = e_ret E t3 (Cm_listen lid 1)" and "t4 = (Cm_listen lid 1, l, e_data E t3 (Cm_listen lid 1)) # t3"
  obtain w t5 where w: "run_state (cm_wait_event E ec CONNECT_REQUEST) t4 = (w, t5)" by (metis surj_pair)
  define conn where "conn = e_cm_event_id E t5"
  define t6 where "t6 = (Ack_cm_event ec, e_ret E t5 (Ack_cm_event ec), e_data E t5 (Ack_cm_event ec)) # t5"
  define q2 where "q2 = q1\<lparr>q_cm_id := conn\<rparr>"
  obtain x q3 t7 where x: "run_state (build_qp_from_cm E q2 conn) t6 = ((x, q3), t7)" by (metis surj_pair)
  obtain y fd1 t8 where y: "run_state (second_listener E port m) t7 = ((y, fd1), t8)" by (metis surj_pair)
  have q0: "qp_held q0 = {#}" "q_cm_id q0 = 0"
    and q1: "qp_held q1 = (if ec \<noteq> 0 then {#Cm_channel ec#} else {#})" "q_cm_id q1 = 0"
    and q2: "q_mode q2 = RAI_CONN_CM" "q_cm_id q2 = conn" "q_pd q2 = 0" "q_cq q2 = 0" "q_qp q2 = 0" "q_ec q2 = ec"
    using fresh by (simp_all add: q0_def q1_def q2_def qp_held_def qp_fresh_def)
  have ids: "lid \<noteq> 0" "conn \<noteq> 0" using ok by (auto simp: cm_ok_def lid_def conn_def)
  have l1: "live E t1 = live E t + qp_held q1" using q1 by (simp add: t1_def)
  have l2: "live E t2 = live E t + qp_held q1 + (if c = 0 then {#Cm_id lid#} else {#})"
    using l1 by (simp add: t2_def lid_def)
  have l4: "live E t3 = live E t2" "live E t4 = live E t2" by (simp_all add: t3_def t4_def)
  have l5: "live E t5 = live E t4 + (if w = 0 then {#Cm_event, Cm_id conn#} else {#})"
    using w by (auto simp: cm_wait_event_def run_simps conn_def split: if_splits)
  have new: "Cm_qp conn \<notin># live E t" if "ec \<noteq> 0" "c = 0" "w = 0"
  proof -
    have "Cm_qp conn \<notin># live E t4"
      using w that ok by (auto simp: cm_wait_event_def run_simps conn_def cm_ok_def split: if_splits)
    then show ?thesis using l4 l2 by auto
  qed
  have l6: "live E t6 = live E t4 + {#Cm_id conn#}" if "w = 0" using l5 that by (simp add: t6_def)
  have h2: "qp_held q2 = qp_held q1 + {#Cm_id conn#}" using q1 q2 ids by (simp add: qp_held_def)
  note bs = build_qp_from_cm_spec [OF ok(1) q2(1,2) ids(2) q2(3,4,5) x] and ys = second_listener_general [OF y]
  have R: "run_state (rai_cm_listen_qp E qp port m) t =
      (if ec = 0 then run_state (cm_listen_out E (-1) 0 q0 m) t1
       else if c \<noteq> 0 then run_state (cm_listen_out E (-1) 0 q1 m) t2
       else if b \<noteq> 0 then run_state (cm_listen_out E (-1) lid q1 m) t3
       else if l \<noteq> 0 then run_state (cm_listen_out E (-1) lid q1 m) t4
       else if w \<noteq> 0 then run_state (cm_listen_out E (-1) lid q1 m) t5
       else if x \<noteq> 0 then run_state (cm_listen_out E (-1) lid q3 m) t7
       else run_state (cm_listen_out E (if y \<noteq> 0 then -1 else 0) lid q3 fd1) t8)"
    using w x y unfolding q2_def q1_def q0_def conn_def
    by (simp add: rai_cm_listen_qp_def run_simps Let_def flip: ec_def t1_def c_def t2_def lid_def b_def t3_def l_def t4_def t6_def)
  show "listeners u = {}" if "listeners t = {}"
  proof -
    have n: "listeners t1 = {}" "listeners t2 = {}" "listeners t3 = {}" "listeners t4 \<subseteq> {lid}"
      using that by (simp_all add: t1_def t2_def t3_def t4_def)
    have n5: "listeners t5 = listeners t4" using w by (auto simp: cm_wait_event_def run_simps split: if_splits)
    have n8: "listeners t8 = listeners t4" "listeners t7 = listeners t4"
      using build_listeners [OF x] second_listener_listeners [OF y] n5 by (simp_all add: t6_def)
    show ?thesis
      using R run n n5 n8 ids by (auto split: if_splits dest!: listen_out_listeners [OF sym])
  qed
  note out = cm_listen_out_spec [OF ok(1), where t = t and M = "{#}" and r' = r and q = q and fd' = fd and u = u]
  have early: ?main if "ec \<noteq> 0" "c = 0" "live E v = live E t2"
      "run_state (cm_listen_out E (-1) lid q1 m) v = ((r, q, fd), u)" for v
    using out [of v q1 lid "-1" m] that l2 q1 ids by simp
  consider (1) "ec = 0" | (2) "ec \<noteq> 0" "c \<noteq> 0" | (3) "ec \<noteq> 0" "c = 0" "b \<noteq> 0 \<or> l \<noteq> 0 \<or> w \<noteq> 0"
    | (4) "ec \<noteq> 0" "c = 0" "b = 0" "l = 0" "w = 0" "x \<noteq> 0" | (5) "ec \<noteq> 0" "c = 0" "b = 0" "l = 0" "w = 0" "x = 0"
    by blast
  then show ?main
  proof cases
    case 1
    then show ?thesis using out [of t1 q0 0 "-1" m] run R l1 q0 q1 by simp
  next
    case 2
    then show ?thesis using out [of t2 q1 0 "-1" m] run R l2 q1 by simp
  next
    case 3
    then consider "b \<noteq> 0" | "b = 0" "l \<noteq> 0" | "b = 0" "l = 0" "w \<noteq> 0" by blast
    then show ?thesis
      by cases (use 3 early [of t3] early [of t4] early [of t5] run R l4 l5 in simp_all)
  next
    case 4
    have "live E t7 = live E t + qp_held q3 + {#Cm_id lid#}" using bs l2 l4 l6 h2 4 by simp
    then show ?thesis using out [of t7 q3 lid "-1" m] run R 4 bs ids new by simp
  next
    case 5
    have l7: "live E t7 = live E t + qp_held q3 + {#Cm_id lid#}" using bs l2 l4 l6 h2 5 by simp
    have ne: "Cm_qp conn \<notin># fd_held fd1" by (simp add: fd_held_def split: option.split)
    show ?thesis
    proof (cases "y = 0")
      case True
      then show ?thesis
        using cm_listen_out_spec [OF ok(1), of t8 t q3 lid "fd_held fd1" 0 fd1 r q fd u] run R 5 bs ids new l7 ys ne by simp
    next
      case False
      then show ?thesis using out [of t8 q3 lid "-1" fd1] run R 5 bs ids new l7 ys by simp
    qed
  qed
qed

lemma keeps_accept: "cm_requests_ok E \<Longrightarrow> keeps E (rai_cm_accept_qp E q)"
  unfolding rai_cm_accept_qp_def by (intro keeps_intros) simp_all

section \<open>Properties\<close>

text \<open>An environment with the events either side expects, and \<open>id->qp\<close> as the library keeps it.\<close>

definition expected_event :: "trace \<Rightarrow> cm_event" where
  "expected_event t = (case fst (t ! 1) of Resolve_addr i a p m \<Rightarrow> ADDR_RESOLVED | Resolve_route i m \<Rightarrow> ROUTE_RESOLVED
     | Cm_listen i n \<Rightarrow> (if listeners t = {} then OTHER_EVENT 1 else CONNECT_REQUEST) | _ \<Rightarrow> ESTABLISHED)"

text \<open>An identifier above every one that was given a queue pair.\<close>

primrec next_id :: "trace \<Rightarrow> handle" where
  "next_id [] = 30"
| "next_id (e # t) = (case fst e of Cm_create_qp i p q a b c \<Rightarrow> max (i + 1) (next_id t) | _ \<Rightarrow> next_id t)"

text \<open>
  \<open>event->id\<close>: a new identifier with a connection request, and with any other event the one that the
  program is resolving, connecting or accepting on.
\<close>

primrec busy_id :: "trace \<Rightarrow> handle" where
  "busy_id [] = 30"
| "busy_id (e # t) = (case fst e of Resolve_addr i a p m \<Rightarrow> i | Resolve_route i m \<Rightarrow> i | Cm_connect i a b c \<Rightarrow> i
     | Cm_accept i a b c \<Rightarrow> i | _ \<Rightarrow> busy_id t)"

definition event_id :: "trace \<Rightarrow> handle" where
  "event_id t = (if expected_event t = CONNECT_REQUEST \<or> busy_id t = 0 then next_id t else busy_id t)"

definition cm_calm :: env where
  "cm_calm = calm\<lparr>e_cm_event := expected_event, e_cm_new_id := next_id, e_cm_event_id := event_id,
     e_cm_qp := (\<lambda>t i. if Cm_qp i \<in># live (calm\<lparr>e_cm_event := expected_event, e_cm_new_id := next_id, e_cm_event_id := event_id\<rparr>) t then 33 else 0)\<rparr>"

text \<open>What is held does not depend on the field \<open>qp\<close> of an identifier.\<close>

lemma acquired_cm_qp: "acquired (E\<lparr>e_cm_qp := f\<rparr>) t c r = acquired E t c r"
  by (cases c) simp_all

lemma live_cm_qp: "live (E\<lparr>e_cm_qp := f\<rparr>) t = live E t"
  by (induction t) (simp_all add: acquired_cm_qp split: prod.split)

lemma live_below_next:
  "Cm_qp i \<in># live E t \<Longrightarrow> i < next_id t"
proof (induction t)
  case (Cons e t)
  obtain c r d where e: "e = (c, r, d)" by (cases e)
  have "Cm_qp i \<in># live E t \<or> Cm_qp i \<in># acquired E (e # t) c r"
    using Cons.prems by (auto simp: e dest: in_diffD)
  then show ?case
    using Cons.IH by (cases c) (auto simp: e split: if_splits)
qed simp

lemma next_id_positive: "30 \<le> next_id t"
  by (induction t) (auto split: call.split)

lemma cm_calm_ok: "cm_ok cm_calm"
proof -
  have "next_id t \<noteq> 0" "Cm_qp (next_id t) \<notin># live E t" for t E
    using next_id_positive [of t] live_below_next [of "next_id t" E t] by auto
  then show ?thesis by (simp add: cm_ok_def cm_calm_def live_cm_qp event_id_def)
qed

lemma cm_calm_requests: "cm_requests_ok cm_calm"
  by (simp add: cm_requests_ok_def cm_calm_def expected_event_def split: call.split)

lemma cm_calm_sel:
  "e_ret cm_calm = e_ret calm" "e_data cm_calm = e_data calm" "e_cm_event cm_calm = expected_event"
  "e_cm_new_id cm_calm = next_id" "e_cm_event_id cm_calm = event_id"
  by (simp_all add: cm_calm_def calm_def)

lemma calm_cm_calls:
  "e_ret calm t Create_event_channel = 16" "e_ret calm t (Create_id h) = 0" "e_ret calm t (Bind_addr h i) = 0"
  "e_ret calm t (Cm_listen h i) = 0" "e_ret calm t (Get_cm_event h) = 0" "e_ret calm t (Ack_cm_event h) = 0"
  "e_ret calm t (Alloc_pd h) = 12" "e_ret calm t (Create_cq h i) = 13" "e_ret calm t (Cm_create_qp h h1 h2 i j k) = 0"
  "e_ret calm t (Inet_pton s) = 1" "e_ret calm t (Resolve_addr h s i j) = 0" "e_ret calm t (Resolve_route h i) = 0"
  "e_ret calm t (Cm_connect h i j k) = 0" "e_ret calm t (Cm_accept h i j k) = 0" "e_ret calm t (Modify_qp h a) = 0"
  "e_ret calm t Socket = 3" "e_ret calm t (Set_reuseaddr i) = 0" "e_ret calm t (Bind i j) = 0" "e_ret calm t (Listen i j) = 0"
  by (simp_all add: calm_def)

lemmas cm_calm_simps = cm_calm_sel expected_event_def calm_cm_calls

lemma calm_resolve: "\<exists>u. run_state (cm_resolve cm_calm ec cid ip port) t = (0, u)"
  by (simp add: cm_resolve_def cm_expect_def cm_wait_event_def run_simps cm_calm_simps)

lemma calm_finish: "\<exists>u. run_state (cm_finish cm_calm ec cid) t = (0, u)"
  by (simp add: cm_finish_def cm_expect_def cm_wait_event_def run_simps cm_calm_simps)

lemma calm_build: "\<exists>q u. run_state (build_qp_from_cm cm_calm q0 cid) t = ((0, q), u)"
  by (simp add: build_qp_from_cm_def run_simps Let_def cm_calm_simps)

lemma calm_connects: "\<exists>q u. run_state (rai_cm_connect_qp cm_calm q0 ip port) t = ((0, q), u)"
proof -
  obtain u where a: "run_state (cm_resolve cm_calm 16 (next_id t) ip port)
      ((Create_id 16, 0, e_data calm ((Create_event_channel, 16, e_data calm t Create_event_channel) # t) (Create_id 16)) #
       (Create_event_channel, 16, e_data calm t Create_event_channel) # t) = (0, u)"
    using calm_resolve by blast
  obtain q v where b: "run_state (build_qp_from_cm cm_calm (q0\<lparr>q_mode := RAI_CONN_CM, q_ec := 16, q_cm_id := next_id t\<rparr>) (next_id t)) u = ((0, q), v)"
    using calm_build by blast
  obtain w where c: "run_state (cm_finish cm_calm 16 (next_id t)) v = (0, w)" using calm_finish by blast
  show ?thesis
    by (simp add: rai_cm_connect_qp_def cm_connect_out_def run_simps Let_def cm_calm_simps a b c)
qed

lemma calm_second: "\<exists>u. run_state (second_listener cm_calm port (Some fd)) t = ((0, Some 3), u)"
  by (simp add: second_listener_def rai_oob_listen_def run_simps cm_calm_simps)

lemma calm_wait: "\<exists>u. run_state (cm_wait_event cm_calm ec CONNECT_REQUEST) ((Cm_listen h n, 0, d) # t) = (0, u)"
  by (simp add: cm_wait_event_def run_simps cm_calm_simps)

lemma calm_listens: "\<exists>q u. run_state (rai_cm_listen_qp cm_calm q0 port (Some fd)) t = ((0, q, Some 3), u)"
proof -
  define t3 where "t3 = snd (run_state (do { ec \<leftarrow> exec_call cm_calm Create_event_channel; c \<leftarrow> exec_call cm_calm (Create_id 16);
    exec_call cm_calm (Bind_addr (next_id t) port) }) t)"
  obtain u where w: "run_state (cm_wait_event cm_calm 16 CONNECT_REQUEST) ((Cm_listen (next_id t) 1, 0, e_data calm t3 (Cm_listen (next_id t) 1)) # t3) = (0, u)"
    using calm_wait by blast
  obtain q v where b: "run_state (build_qp_from_cm cm_calm (q0\<lparr>q_mode := RAI_CONN_CM, q_ec := 16, q_cm_id := event_id u\<rparr>) (event_id u))
      ((Ack_cm_event 16, 0, e_data calm u (Ack_cm_event 16)) # u) = ((0, q), v)"
    using calm_build by blast
  obtain x where s: "run_state (second_listener cm_calm port (Some fd)) v = ((0, Some 3), x)" using calm_second by blast
  show ?thesis
    using w b s by (simp add: rai_cm_listen_qp_def cm_listen_out_def run_simps Let_def cm_calm_simps t3_def)
qed

text \<open>
  C16. Connecting through the connection manager: on success the structure owns exactly the event
  channel, the identifier, the protection domain, the completion queue and the queue pair, and
  every event taken was acknowledged; on any failure everything is released and the structure is
  zeroed.
\<close>

theorem cm_connect_outcome:
  assumes "cm_ok E" "cm_requests_ok E" "listeners t = {}" and "qp_fresh qp"
    and "run_state (rai_cm_connect_qp E qp ip port) t = ((r, q), u)"
  shows "r = 0 \<and> live E u = live E t + qp_held q \<and> q_mode q = RAI_CONN_CM \<and> q_qp q \<noteq> 0 \<and> q_cm_id q \<noteq> 0 \<or>
    r \<noteq> 0 \<and> live E u = live E t \<and> q = qp_zero"
  using cm_connect_spec(1) [OF assms] by blast

theorem cm_connect_outcome_witness:
  "\<exists>q u. run_state (rai_cm_connect_qp cm_calm qp_zero ''10.0.0.1'' 7) [] = ((0, q), u) \<and> live cm_calm u = qp_held q"
proof -
  obtain q u where run: "run_state (rai_cm_connect_qp cm_calm qp_zero ''10.0.0.1'' 7) [] = ((0, q), u)"
    using calm_connects by blast
  have "listeners [] = {}" by simp
  from cm_connect_outcome [OF cm_calm_ok cm_calm_requests this qp_fresh_zero run] run show ?thesis by auto
qed

text \<open>
  Listening through the connection manager: on success the listening identifier is gone, and
  the structure owns the connection and the caller the second listener it asked for; on any
  failure, an unexpected event included, nothing is left and the caller's descriptor is untouched.
\<close>

theorem cm_listen_outcome:
  assumes "cm_ok E" and "qp_fresh qp"
    and "run_state (rai_cm_listen_qp E qp port m) t = ((r, q, fd), u)"
  shows "r = 0 \<and> live E u = live E t + qp_held q + fd_held fd \<and> (fd = None) = (m = None) \<and>
      q_mode q = RAI_CONN_CM \<and> q_qp q \<noteq> 0 \<and> q_cm_id q \<noteq> 0 \<or>
    r \<noteq> 0 \<and> live E u = live E t \<and> q = qp_zero \<and> fd = m"
  using cm_listen_spec(1) [OF assms] by blast

theorem cm_listen_outcome_witness:
  "\<exists>q fd u. run_state (rai_cm_listen_qp cm_calm qp_zero 7 (Some (-1))) [] = ((0, q, fd), u) \<and>
     live cm_calm u = qp_held q + fd_held fd"
proof -
  obtain q fd u where run: "run_state (rai_cm_listen_qp cm_calm qp_zero 7 (Some (-1))) [] = ((0, q, fd), u)"
    using calm_listens by blast
  from cm_listen_outcome [OF cm_calm_ok qp_fresh_zero run] run show ?thesis by auto
qed

end
