(* ===== verification/Rdma_Transport.thy ===== *)
theory Rdma_Transport
  imports Transport Cm_Connect
begin

text \<open>
  The RDMA transport (rdma_backend.cpp): a buffer is a memory region of the verbs, transfers are
  posted as work requests and completed by poll, buffer addresses go through the out-of-band
  channel, and a connection is made through librdmacm.
\<close>

section \<open>Definitions\<close>

record rdma_transport =
  rt_qp :: rai_qp
  rt_port :: int
  rt_mr_listen_fd :: int
  rt_is_server :: bool
  rt_host :: string

definition rdma_new :: rdma_transport where
  "rdma_new = \<lparr>rt_qp = qp_zero, rt_port = -1, rt_mr_listen_fd = -1, rt_is_server = False, rt_host = []\<rparr>"

definition rdma_reg_buf ::
    "env \<Rightarrow> rdma_transport \<Rightarrow> u64 \<Rightarrow> u64 \<Rightarrow> buffer_handle option \<Rightarrow> (trace, int \<times> buffer_handle option) state" where
  "rdma_reg_buf E tr addr len out =
     (if addr = 0 \<or> out = None \<or> len = 0 then ret (-1, out)
      else do {
        (r, mr) \<leftarrow> rai_mr_reg_external E (Some (rt_qp tr)) (Some mr_zero) addr len;
        ret (if r \<noteq> 0 then (-1, out) else (0, Some \<lparr>bh_addr = addr, bh_size = len, bh_priv = mr\<rparr>)) })"

definition rdma_dereg_buf :: "env \<Rightarrow> buffer_handle option \<Rightarrow> (trace, buffer_handle option) state" where
  "rdma_dereg_buf E h =
     (case h of None \<Rightarrow> ret None
      | Some b \<Rightarrow> do { _ \<leftarrow> rai_mr_dereg E (bh_priv b); ret (Some bh_zero) })"

text \<open>The length is a \<open>size_t\<close> and the posts take a \<open>uint32_t\<close>: it is truncated at the call.\<close>

definition rdma_send_async ::
    "env \<Rightarrow> rdma_transport \<Rightarrow> buffer_handle option \<Rightarrow> u64 \<Rightarrow> u64 \<Rightarrow> u64 \<Rightarrow> (trace, int) state" where
  "rdma_send_async E tr h len wid off =
     (case h of None \<Rightarrow> ret (-1)
      | Some b \<Rightarrow> do {
          r \<leftarrow> rai_post_send E (Some (rt_qp tr)) (bh_priv b) (ucast len) wid off;
          ret (if r \<noteq> 0 then -1 else 0) })"

definition rdma_recv_async ::
    "env \<Rightarrow> rdma_transport \<Rightarrow> buffer_handle option \<Rightarrow> u64 \<Rightarrow> u64 \<Rightarrow> u64 \<Rightarrow> (trace, int) state" where
  "rdma_recv_async E tr h len wid off =
     (case h of None \<Rightarrow> ret (-1)
      | Some b \<Rightarrow> do {
          r \<leftarrow> rai_post_recv E (Some (rt_qp tr)) (bh_priv b) (ucast len) wid off;
          ret (if r \<noteq> 0 then -1 else 0) })"

definition rdma_exchange_buf ::
    "env \<Rightarrow> rdma_transport \<Rightarrow> buffer_handle option \<Rightarrow> u64 option \<Rightarrow> u32 option \<Rightarrow>
      (trace, int \<times> rdma_transport \<times> u64 option \<times> u32 option) state" where
  "rdma_exchange_buf E tr local remote_addr rkey =
     (case Option.bind local bh_priv of None \<Rightarrow> ret (-1, tr, remote_addr, rkey)
      | Some m \<Rightarrow>
        (if remote_addr = None \<or> rkey = None then ret (-1, tr, remote_addr, rkey)
         else if mr_mr m = 0 then ret (-1, tr, remote_addr, rkey)
         else do {
           let q = (rt_qp tr)\<lparr>q_local := (q_local (rt_qp tr))\<lparr>ci_addr := e_mr_addr E (mr_mr m), ci_rkey := e_mr_rkey E (mr_mr m)\<rparr>\<rparr>;
           (r, q') \<leftarrow>
             (if rt_is_server tr then rai_oob_accept E (rt_mr_listen_fd tr) (Some q)
              else if rt_host tr = [] then ret (-1, Some q)
              else rai_oob_connect E (Some q) (Some (rt_host tr)) (rt_port tr + 1));
           let tr' = tr\<lparr>rt_qp := the q'\<rparr>;
           if r \<noteq> 0 then ret (-1, tr', remote_addr, rkey)
           else ret (0, tr', Some (ci_addr (q_remote (the q'))), Some (ci_rkey (q_remote (the q')))) }))"

definition rdma_write_async ::
    "env \<Rightarrow> rdma_transport \<Rightarrow> buffer_handle option \<Rightarrow> u64 \<Rightarrow> u32 \<Rightarrow> u64 \<Rightarrow> u64 \<Rightarrow> u64 \<Rightarrow> (trace, int) state" where
  "rdma_write_async E tr local remote_addr rkey len wid off =
     (case local of None \<Rightarrow> ret (-1)
      | Some b \<Rightarrow> do {
          r \<leftarrow> rai_post_write E (Some (rt_qp tr)) (bh_priv b) (ucast len) {SEND_SIGNALED} (remote_addr + off) rkey wid off;
          ret (if r \<noteq> 0 then -1 else 0) })"

definition rdma_read_async ::
    "env \<Rightarrow> rdma_transport \<Rightarrow> buffer_handle option \<Rightarrow> u64 \<Rightarrow> u32 \<Rightarrow> u64 \<Rightarrow> u64 \<Rightarrow> u64 \<Rightarrow> (trace, int) state" where
  "rdma_read_async E tr local remote_addr rkey len wid off =
     (case local of None \<Rightarrow> ret (-1)
      | Some b \<Rightarrow> do {
          r \<leftarrow> rai_post_read E (Some (rt_qp tr)) (bh_priv b) (ucast len) (remote_addr + off) rkey wid off;
          ret (if r \<noteq> 0 then -1 else 0) })"

definition rdma_poll :: "env \<Rightarrow> rdma_transport \<Rightarrow> u64 option \<Rightarrow> trace \<Rightarrow> ((int \<times> u64 option) \<times> trace) option" where
  "rdma_poll E tr completed_id = rai_poll_cq E (Some (rt_qp tr)) completed_id"

text \<open>The two guarded releases at the start of \<open>connect\<close> and \<open>listen\<close>.\<close>

definition close_listen_fd :: "env \<Rightarrow> rdma_transport \<Rightarrow> (trace, rdma_transport) state" where
  "close_listen_fd E tr =
     (if 0 \<le> rt_mr_listen_fd tr
      then do { _ \<leftarrow> exec_call E (Close (rt_mr_listen_fd tr)); ret (tr\<lparr>rt_mr_listen_fd := -1\<rparr>) }
      else ret tr)"

definition rdma_reset :: "env \<Rightarrow> rdma_transport \<Rightarrow> (trace, rdma_transport) state" where
  "rdma_reset E tr = do {
     q \<leftarrow> (if q_qp (rt_qp tr) \<noteq> 0 then rai_qp_destroy E (Some (rt_qp tr)) else ret (Some (rt_qp tr)));
     close_listen_fd E (tr\<lparr>rt_qp := the q\<rparr>) }"

definition rdma_connect :: "env \<Rightarrow> rdma_transport \<Rightarrow> string option \<Rightarrow> int \<Rightarrow> (trace, int \<times> rdma_transport) state" where
  "rdma_connect E tr host port =
     (case host of None \<Rightarrow> ret (-1, tr)
      | Some h \<Rightarrow> do {
          tr1 \<leftarrow> rdma_reset E tr;
          (r, q) \<leftarrow> rai_cm_connect_qp E (rt_qp tr1) h port;
          let tr2 = tr1\<lparr>rt_qp := q\<rparr>;
          if r \<noteq> 0 then ret (-1, tr2)
          else ret (0, tr2\<lparr>rt_is_server := False, rt_host := h, rt_port := port\<rparr>) })"

definition rdma_listen :: "env \<Rightarrow> rdma_transport \<Rightarrow> int \<Rightarrow> (trace, int \<times> rdma_transport) state" where
  "rdma_listen E tr port = do {
     tr1 \<leftarrow> rdma_reset E tr;
     (r, q, fd) \<leftarrow> rai_cm_listen_qp E (rt_qp tr1) port (Some (rt_mr_listen_fd tr1));
     let tr2 = tr1\<lparr>rt_qp := q, rt_mr_listen_fd := the fd\<rparr>;
     if r \<noteq> 0 then ret (-1, tr2) else ret (0, tr2\<lparr>rt_is_server := True\<rparr>) }"

definition rdma_accept :: "env \<Rightarrow> rdma_transport \<Rightarrow> (trace, int \<times> rdma_transport) state" where
  "rdma_accept E tr = do {
     r \<leftarrow> rai_cm_accept_qp E (rt_qp tr);
     ret (if r \<noteq> 0 then -1 else 0, tr) }"

definition rdma_close :: "env \<Rightarrow> rdma_transport \<Rightarrow> (trace, rdma_transport) state" where
  "rdma_close E tr = do {
     q \<leftarrow> rai_qp_destroy E (Some (rt_qp tr));
     close_listen_fd E (tr\<lparr>rt_qp := the q\<rparr>) }"

text \<open>\<open>ScopedBuffer\<close> (transport.hpp): its transport, NULL until \<open>init\<close>, and its handle.\<close>

record scoped_buffer =
  sb_t :: "rdma_transport option"
  sb_h :: buffer_handle

definition scoped_buffer_new :: scoped_buffer where
  "scoped_buffer_new = \<lparr>sb_t = None, sb_h = bh_zero\<rparr>"

definition scoped_buffer_init :: "env \<Rightarrow> scoped_buffer \<Rightarrow> rdma_transport \<Rightarrow> u64 \<Rightarrow> u64 \<Rightarrow> (trace, int \<times> scoped_buffer) state" where
  "scoped_buffer_init E b tr addr len = do {
     (r, h) \<leftarrow> rdma_reg_buf E tr addr len (Some (sb_h b));
     ret (r, b\<lparr>sb_t := Some tr, sb_h := the h\<rparr>) }"

definition scoped_buffer_destroy :: "env \<Rightarrow> scoped_buffer \<Rightarrow> (trace, scoped_buffer) state" where
  "scoped_buffer_destroy E b =
     (case sb_t b of None \<Rightarrow> ret b
      | Some tr \<Rightarrow> do { h \<leftarrow> rdma_dereg_buf E (Some (sb_h b)); ret (b\<lparr>sb_h := the h\<rparr>) })"

text \<open>What a transport, a handle or a scoped buffer stands for.\<close>

definition rdma_held :: "rdma_transport \<Rightarrow> res multiset" where
  "rdma_held tr = qp_held (rt_qp tr) + fd_held (Some (rt_mr_listen_fd tr))"

definition buf_held :: "scoped_buffer \<Rightarrow> res multiset" where
  "buf_held b = (if sb_t b = None then {#} else mr_held (bh_priv (sb_h b)))"

text \<open>The connection of a transport while others hold \<open>M\<close>: all there or nothing.\<close>

definition rdma_inv :: "res multiset \<Rightarrow> rdma_transport \<Rightarrow> bool" where
  "rdma_inv M tr \<longleftrightarrow> q_mode (rt_qp tr) = RAI_CONN_CM \<and> (q_qp (rt_qp tr) = 0 \<longrightarrow> qp_fresh (rt_qp tr)) \<and>
     (q_cm_id (rt_qp tr) \<noteq> 0 \<longrightarrow> Cm_qp (q_cm_id (rt_qp tr)) \<notin># M)"

definition rdma_env_ok :: "env \<Rightarrow> trace \<Rightarrow> bool" where
  "rdma_env_ok E t \<longleftrightarrow> cm_ok E \<and> cm_requests_ok E \<and> listeners t = {}"

definition rdma_op :: "env \<Rightarrow> session_op \<Rightarrow> rdma_transport \<Rightarrow> (trace, int \<times> rdma_transport) state" where
  "rdma_op E op tr = (case op of Op_connect host port \<Rightarrow> rdma_connect E tr host port
     | Op_listen port \<Rightarrow> rdma_listen E tr port | Op_accept \<Rightarrow> rdma_accept E tr)"

section \<open>Sessions\<close>

lemma fresh_held: "qp_fresh q \<Longrightarrow> qp_held q = {#}"
  by (simp add: qp_fresh_def qp_held_def)

lemma close_listen_spec:
  assumes "live E t = M + fd_held (Some (rt_mr_listen_fd tr))" and "run_state (close_listen_fd E tr) t = (tr', u)"
  shows "live E u = M \<and> listeners u = listeners t \<and> rt_mr_listen_fd tr' < 0 \<and> rt_qp tr' = rt_qp tr"
  using assms by (auto simp: close_listen_fd_def run_simps fd_held_def split: if_splits)

lemma rdma_destroy:
  assumes "cm_ok E" and "rdma_inv M tr" and "live E t = M + rdma_held tr"
    and "run_state (rai_qp_destroy E (Some (rt_qp tr))) t = (q, u)"
  shows "q = Some qp_zero \<and> live E u = M + fd_held (Some (rt_mr_listen_fd tr)) \<and> listeners u \<subseteq> listeners t"
proof -
  let ?f = "fd_held (Some (rt_mr_listen_fd tr))"
  have "Cm_qp i \<notin># ?f" for i by (simp add: fd_held_def)
  then have "cm_qp_ok E t (rt_qp tr)"
    using cm_qp_ok_held [OF assms(1), of t "[]" "rt_qp tr" "M + ?f"] assms(2,3)
    by (auto simp: rdma_inv_def rdma_held_def)
  from qp_destroy_spec [OF this assms(4)] destroy_listeners [OF assms(4)] assms(3) show ?thesis
    by (simp add: rdma_held_def)
qed

lemma rdma_reset_spec:
  assumes "rdma_env_ok E t" and "rdma_inv M tr" and "live E t = M + rdma_held tr" and "run_state (rdma_reset E tr) t = (tr', u)"
  shows "rdma_env_ok E u \<and> live E u = M \<and> qp_fresh (rt_qp tr') \<and> rt_mr_listen_fd tr' < 0"
proof -
  obtain q v where d: "run_state (if q_qp (rt_qp tr) \<noteq> 0 then rai_qp_destroy E (Some (rt_qp tr)) else ret (Some (rt_qp tr))) t = (q, v)"
    by (metis surj_pair)
  have ok: "cm_ok E" using assms(1) by (simp add: rdma_env_ok_def)
  have "\<exists>q'. q = Some q' \<and> qp_fresh q' \<and> live E v = M + fd_held (Some (rt_mr_listen_fd tr)) \<and> listeners v \<subseteq> listeners t"
    using d rdma_destroy [OF ok assms(2,3), of q v] assms(2,3)
    by (auto simp: run_if rdma_inv_def rdma_held_def fresh_held split: if_splits)
  with close_listen_spec [of E v M "tr\<lparr>rt_qp := the q\<rparr>" tr' u] assms(1,4) d show ?thesis
    by (auto simp: rdma_reset_def run_bind rdma_env_ok_def)
qed

lemma rdma_connect_spec:
  assumes "rdma_env_ok E t" and "rdma_inv M tr" and "live E t = M + rdma_held tr"
    and "run_state (rdma_connect E tr host port) t = ((r, tr'), u)"
  shows "rdma_env_ok E u \<and> rdma_inv M tr' \<and> live E u = M + rdma_held tr' \<and> (host \<noteq> None \<longrightarrow> (r = 0) = (q_qp (rt_qp tr') \<noteq> 0))"
proof (cases host)
  case None
  with assms show ?thesis by (simp add: rdma_connect_def)
next
  case (Some h)
  obtain tr1 v where r1: "run_state (rdma_reset E tr) t = (tr1, v)" by (metis surj_pair)
  obtain x q w where r2: "run_state (rai_cm_connect_qp E (rt_qp tr1) h port) v = ((x, q), w)" by (metis surj_pair)
  have s: "rdma_env_ok E v" "live E v = M" "qp_fresh (rt_qp tr1)" "rt_mr_listen_fd tr1 < 0"
    using rdma_reset_spec [OF assms(1-3) r1] by auto
  have ok: "cm_ok E" "cm_requests_ok E" "listeners v = {}" using s(1) by (auto simp: rdma_env_ok_def)
  have "u = w" "rt_qp tr' = q" "rt_mr_listen_fd tr' < 0" "r = 0 \<longleftrightarrow> x = 0"
    using assms(4) r1 r2 Some s(4) by (auto simp: rdma_connect_def run_simps Let_def split: if_splits)
  with cm_connect_spec [OF ok s(3) r2] ok s(2) show ?thesis
    by (auto simp: rdma_env_ok_def rdma_inv_def rdma_held_def fd_held_def qp_zero_def qp_fresh_def qp_held_def)
qed

lemma rdma_listen_spec:
  assumes "rdma_env_ok E t" and "rdma_inv M tr" and "live E t = M + rdma_held tr"
    and "run_state (rdma_listen E tr port) t = ((r, tr'), u)"
  shows "rdma_env_ok E u \<and> rdma_inv M tr' \<and> live E u = M + rdma_held tr' \<and> (r = 0) = (q_qp (rt_qp tr') \<noteq> 0)"
proof -
  obtain tr1 v where r1: "run_state (rdma_reset E tr) t = (tr1, v)" by (metis surj_pair)
  obtain x q fd w where r2: "run_state (rai_cm_listen_qp E (rt_qp tr1) port (Some (rt_mr_listen_fd tr1))) v = ((x, q, fd), w)"
    by (metis surj_pair)
  have s: "rdma_env_ok E v" "live E v = M" "qp_fresh (rt_qp tr1)" "rt_mr_listen_fd tr1 < 0"
    using rdma_reset_spec [OF assms(1-3) r1] by auto
  have ok: "cm_ok E" "cm_requests_ok E" "listeners v = {}" using s(1) by (auto simp: rdma_env_ok_def)
  have "u = w" "rt_qp tr' = q" "rt_mr_listen_fd tr' = the fd" "r = 0 \<longleftrightarrow> x = 0"
    using assms(4) r1 r2 by (auto simp: rdma_listen_def run_simps Let_def split: if_splits)
  with cm_listen_spec [OF ok(1) s(3) r2] ok s(2,4) show ?thesis
    by (auto simp: rdma_env_ok_def rdma_inv_def rdma_held_def fd_held_def qp_zero_def qp_fresh_def qp_held_def)
qed

lemma rdma_accept_spec:
  assumes "rdma_env_ok E t" and "run_state (rdma_accept E tr) t = ((r, tr'), u)"
  shows "rdma_env_ok E u \<and> tr' = tr \<and> live E u = live E t"
proof -
  obtain x v where a: "run_state (rai_cm_accept_qp E (rt_qp tr)) t = (x, v)" by (metis surj_pair)
  have "listeners t = {}" "cm_requests_ok E" using assms(1) by (auto simp: rdma_env_ok_def)
  from keepsD [OF keeps_accept [OF this(2)] this(1) a] assms a show ?thesis
    by (auto simp: rdma_accept_def run_simps rdma_env_ok_def)
qed

lemma rdma_close_spec:
  assumes "rdma_env_ok E t" and "rdma_inv M tr" and "live E t = M + rdma_held tr" and "run_state (rdma_close E tr) t = (tr', u)"
  shows "rdma_env_ok E u \<and> rdma_inv M tr' \<and> live E u = M \<and> rdma_held tr' = {#}"
proof -
  obtain q v where d: "run_state (rai_qp_destroy E (Some (rt_qp tr))) t = (q, v)" by (metis surj_pair)
  have ok: "cm_ok E" using assms(1) by (simp add: rdma_env_ok_def)
  note s = rdma_destroy [OF ok assms(2,3) d]
  have c: "run_state (close_listen_fd E (tr\<lparr>rt_qp := qp_zero\<rparr>)) v = (tr', u)"
    using assms(4) d s by (auto simp: rdma_close_def run_simps)
  from close_listen_spec [OF _ c, of M] s assms(1) show ?thesis
    by (auto simp: rdma_env_ok_def rdma_inv_def rdma_held_def fd_held_def qp_zero_def qp_held_def qp_fresh_def)
qed

interpretation rdma_session: transport_session rdma_env_ok rdma_inv "\<lambda>op tr. True" rdma_op rdma_close rdma_held
proof
  show "rdma_env_ok E u \<and> rdma_inv M tr' \<and> live E u = M + rdma_held tr'"
    if "rdma_env_ok E t" "rdma_inv M tr" "True" "live E t = M + rdma_held tr" "run_state (rdma_op E op tr) t = ((r, tr'), u)"
    for E t M tr op r tr' u
  proof (cases op)
    case (Op_connect host port)
    with that(5) rdma_connect_spec [OF that(1,2,4)] show ?thesis by (simp add: rdma_op_def)
  next
    case (Op_listen port)
    with that(5) rdma_listen_spec [OF that(1,2,4)] show ?thesis by (simp add: rdma_op_def)
  next
    case Op_accept
    with that(5) rdma_accept_spec [OF that(1)] that(2,4) show ?thesis by (auto simp: rdma_op_def)
  qed
qed (rule rdma_close_spec)

section \<open>Buffers\<close>

interpretation rdma_scoped: scoped_resource E
  "\<lambda>(tr, addr, len). scoped_buffer_init E scoped_buffer_new tr addr len" "scoped_buffer_destroy E" buf_held
  for E
proof
  show "r = 0 \<and> live E u = live E t + buf_held h \<or> r \<noteq> 0 \<and> live E u = live E t \<and> buf_held h = {#}"
    if "run_state (case a of (tr, addr, len) \<Rightarrow> scoped_buffer_init E scoped_buffer_new tr addr len) t = ((r, h), u)" for a t r h u
  proof -
    obtain tr addr len where a: "a = (tr, addr, len)" by (cases a)
    obtain x mr v where x: "run_state (rai_mr_reg_external E (Some (rt_qp tr)) (Some mr_zero) addr len) t = ((x, mr), v)"
      by (metis surj_pair)
    have "mr_held (Some mr_zero) = {#}" by (simp add: mr_held_def mr_zero_def)
    from mr_reg_external_spec [OF this x] that x show ?thesis
      by (auto simp: a scoped_buffer_init_def rdma_reg_buf_def scoped_buffer_new_def buf_held_def bh_zero_def run_simps
          mr_held_def split: if_splits)
  qed
  show "live E u = live E t - buf_held h \<and> buf_held h' = {#}"
    if "run_state (scoped_buffer_destroy E h) t = (h', u)" for h t h' u
    using that mr_dereg_spec [of E "bh_priv (sb_h h)" t]
    by (auto simp: scoped_buffer_destroy_def rdma_dereg_buf_def buf_held_def bh_zero_def run_simps mr_held_def
        split: option.splits prod.splits)
qed

section \<open>Transfers\<close>

text \<open>A handle that came from a registration on a connected transport.\<close>

definition rdma_wf :: "rdma_transport \<Rightarrow> buffer_handle \<Rightarrow> bool" where
  "rdma_wf tr h \<longleftrightarrow> q_qp (rt_qp tr) \<noteq> 0 \<and>
     (\<exists>m. bh_priv h = Some m \<and> mr_mr m \<noteq> 0 \<and> mr_buf m = bh_addr h \<and> mr_size m = bh_size h)"

lemma rdma_reg_wf:
  assumes "q_qp (rt_qp tr) \<noteq> 0" and "run_state (rdma_reg_buf E tr addr len out) t = ((0, Some h), u)"
  shows "rdma_wf tr h \<and> bh_addr h = addr \<and> bh_size h = len"
  using assms
  by (auto simp: rdma_reg_buf_def rai_mr_reg_external_def rdma_wf_def run_simps split: if_splits)

lemma unat_down: "unat (len :: u64) < 2 ^ 32 \<Longrightarrow> unat (ucast len :: u32) = unat len"
  by (simp add: unsigned_ucast_eq take_bit_nat_eq_self)

lemma sge_outside:
  fixes len off :: u64
  assumes "rdma_wf tr h" and "unat len \<le> 2 ^ 32 - 1" and "unat off + unat len < 2 ^ 64" and "unat (bh_size h) < unat off + unat len"
  shows "prepare_sge E (Some (rt_qp tr)) (bh_priv h) (ucast len) off = None"
proof -
  obtain m where m: "bh_priv h = Some m" "mr_size m = bh_size h" using assms(1) by (auto simp: rdma_wf_def)
  have u: "unat (ucast len :: u32) = unat len" using assms(2) by (intro unat_down) simp
  have "\<not> ucast (ucast len :: u32) + off \<le> bh_size h"
    using range_check [of off "ucast len :: u32" "bh_size h"] assms(3,4) u by simp
  then show ?thesis using m by (simp add: prepare_sge_def not_le)
qed

lemma sge_empty: "prepare_sge E qp mr 0 off = None"
  by (simp add: prepare_sge_def split: option.split)

lemma sge_inside:
  fixes len off :: u64
  assumes "rdma_wf tr h" and "0 < unat len" and "unat len < 2 ^ 32" and "unat off + unat len \<le> unat (bh_size h)"
  shows "\<exists>k. prepare_sge E (Some (rt_qp tr)) (bh_priv h) (ucast len) off =
    Some \<lparr>sge_addr = bh_addr h + off, sge_length = ucast len, sge_lkey = k\<rparr>"
proof -
  obtain m where m: "q_qp (rt_qp tr) \<noteq> 0" "bh_priv h = Some m" "mr_mr m \<noteq> 0" "mr_buf m = bh_addr h" "mr_size m = bh_size h"
    using assms(1) by (auto simp: rdma_wf_def)
  have u: "unat (ucast len :: u32) = unat len" by (rule unat_down [OF assms(3)])
  have n: "(ucast len :: u32) \<noteq> 0" using u assms(2) by (metis less_irrefl unsigned_0)
  have w: "unat off + unat (ucast len :: u32) < 2 ^ 64"
    using u assms(4) unsigned_less [of "bh_size h", where ?'a = nat] by simp
  have "ucast (ucast len :: u32) + off \<le> bh_size h" using range_check [OF w] u assms(4) by simp
  with m n show ?thesis by (simp add: prepare_sge_def not_less)
qed

interpretation rdma_sending: checked_transfer
  "\<lambda>h len off. run_state (rdma_send_async E tr (Some h) len wid off)" "rdma_wf tr" "2 ^ 32 - 1"
  for E tr wid
  by unfold_locales (simp_all add: rdma_send_async_def run_bind run_post_none sge_outside sge_empty)

interpretation rdma_receiving: checked_transfer
  "\<lambda>h len off. run_state (rdma_recv_async E tr (Some h) len wid off)" "rdma_wf tr" "2 ^ 32 - 1"
  for E tr wid
  by unfold_locales (simp_all add: rdma_recv_async_def run_bind run_post_none sge_outside sge_empty)

interpretation rdma_writing: checked_transfer
  "\<lambda>h len off. run_state (rdma_write_async E tr (Some h) ra rk len wid off)" "rdma_wf tr" "2 ^ 32 - 1"
  for E tr ra rk wid
  by unfold_locales (simp_all add: rdma_write_async_def run_bind run_post_none sge_outside sge_empty)

interpretation rdma_reading: checked_transfer
  "\<lambda>h len off. run_state (rdma_read_async E tr (Some h) ra rk len wid off)" "rdma_wf tr" "2 ^ 32 - 1"
  for E tr ra rk wid
  by unfold_locales (simp_all add: rdma_read_async_def run_bind run_post_none sge_outside sge_empty)


section \<open>Properties\<close>

text \<open>
  C22. What the RDMA transport posts: on a registered buffer, and for lengths below 4 GiB, each of the
  four transfers makes exactly one call when its range is not empty and lies in the buffer, for
  that range and, one-sided, for the same offset of the peer's buffer; every other transfer is
  refused without a call.
\<close>

theorem rdma_transfers:
  assumes "rdma_wf tr h" and "unat len < 2 ^ 32" and "unat off + unat len < 2 ^ 64"
  shows "if 0 < unat len \<and> unat off + unat len \<le> unat (bh_size h)
    then \<exists>g. sge_addr g = bh_addr h + off \<and> unat (sge_length g) = unat len \<and>
      (\<exists>w. run_state (rdma_send_async E tr (Some h) len i off) t = one_call E (Post_send (q_qp (rt_qp tr)) w) t \<and>
        wr_opcode w = WR_SEND \<and> wr_sge w = g \<and> wr_id w = i) \<and>
      run_state (rdma_recv_async E tr (Some h) len i off) t = one_call E (Post_recv (q_qp (rt_qp tr)) i g) t \<and>
      (\<exists>w. run_state (rdma_write_async E tr (Some h) ra rk len i off) t = one_call E (Post_send (q_qp (rt_qp tr)) w) t \<and>
        wr_opcode w = WR_RDMA_WRITE \<and> wr_sge w = g \<and> wr_id w = i \<and> wr_remote_addr w = ra + off \<and> wr_rkey w = rk \<and>
        SEND_SIGNALED \<in> wr_flags w) \<and>
      (\<exists>w. run_state (rdma_read_async E tr (Some h) ra rk len i off) t = one_call E (Post_send (q_qp (rt_qp tr)) w) t \<and>
        wr_opcode w = WR_RDMA_READ \<and> wr_sge w = g \<and> wr_id w = i \<and> wr_remote_addr w = ra + off \<and> wr_rkey w = rk)
    else run_state (rdma_send_async E tr (Some h) len i off) t = (-1, t) \<and>
      run_state (rdma_recv_async E tr (Some h) len i off) t = (-1, t) \<and>
      run_state (rdma_write_async E tr (Some h) ra rk len i off) t = (-1, t) \<and>
      run_state (rdma_read_async E tr (Some h) ra rk len i off) t = (-1, t)"
proof (cases "0 < unat len \<and> unat off + unat len \<le> unat (bh_size h)")
  case True
  then obtain k where k: "prepare_sge E (Some (rt_qp tr)) (bh_priv h) (ucast len) off =
      Some \<lparr>sge_addr = bh_addr h + off, sge_length = ucast len, sge_lkey = k\<rparr>" (is "_ = Some ?g")
    using sge_inside [OF assms(1) _ assms(2)] by blast
  have u: "unat (sge_length ?g) = unat len" using unat_down [OF assms(2)] by simp
  show ?thesis
    unfolding if_P [OF True]
    by (rule exI [of _ ?g])
      (simp add: u rdma_send_async_def rdma_recv_async_def rdma_write_async_def rdma_read_async_def run_bind run_if
        run_post_send [OF k] run_post_recv [OF k] run_post_write [OF k] run_post_read [OF k] one_call_def
        del: sge.simps; auto)
next
  case False
  have l: "unat len \<le> 2 ^ 32 - 1" using assms(2) by simp
  show ?thesis
    unfolding if_not_P [OF False]
    using False rdma_sending.accepted_inside [OF assms(1) l assms(3), of E i t]
      rdma_receiving.accepted_inside [OF assms(1) l assms(3), of E i t]
      rdma_writing.accepted_inside [OF assms(1) l assms(3), of E ra rk i t]
      rdma_reading.accepted_inside [OF assms(1) l assms(3), of E ra rk i t]
    by blast
qed

definition conn4 :: rdma_transport where
  "conn4 = rdma_new\<lparr>rt_qp := qp_zero\<lparr>q_qp := 14, q_pd := 12\<rparr>\<rparr>"

definition reg4 :: buffer_handle where
  "reg4 = \<lparr>bh_addr = 4096, bh_size = 64, bh_priv = Some \<lparr>mr_mr = 15, mr_buf = 4096, mr_size = 64, owns_buf = False\<rparr>\<rparr>"

theorem rdma_transfers_witness:
  "run_state (rdma_write_async calm conn4 (Some reg4) 8192 22 16 5 49) [] = (-1, []) \<and>
   (\<exists>w. run_state (rdma_write_async calm conn4 (Some reg4) 8192 22 16 5 48) [] = one_call calm (Post_send 14 w) [] \<and>
      wr_remote_addr w = 8192 + 48)"
proof -
  have wf: "rdma_wf conn4 reg4" by (simp add: rdma_wf_def conn4_def reg4_def)
  have q: "q_qp (rt_qp conn4) = 14" "bh_size reg4 = 64" by (simp_all add: conn4_def reg4_def)
  show ?thesis
    using rdma_transfers [OF wf, of 16 49 calm 5 "[]" 8192 22] rdma_transfers [OF wf, of 16 48 calm 5 "[]" 8192 22]
    by (auto simp: q)
qed

text \<open>
  C39. The RDMA transport truncates lengths: a send of \<open>2^32 + 16\<close> bytes from a buffer that holds them
  posts 16 bytes and reports success.
\<close>

theorem rdma_length_truncated:
  "\<exists>w. run_state (rdma_send_async calm conn4
       (Some \<lparr>bh_addr = 4096, bh_size = 2 ^ 33, bh_priv = Some \<lparr>mr_mr = 15, mr_buf = 4096, mr_size = 2 ^ 33, owns_buf = False\<rparr>\<rparr>)
       (2 ^ 32 + 16) 5 0) [] = (0, [(Post_send 14 w, 0, [])]) \<and> sge_length (wr_sge w) = 16"
  by (simp add: rdma_send_async_def rai_post_send_def prepare_sge_def conn4_def run_simps calm_def)

text \<open>
  C24. An RDMA transport leaks nothing: after any sequence of connecting, listening and accepting on
  one transport, each failing or not, it holds exactly the objects of its current connection and
  its side listener; closing leaves held what others hold, and closing again does nothing.
\<close>

theorem rdma_sessions_balanced:
  assumes "cm_ok E" "cm_requests_ok E" "listeners t = {}" and "session (\<lambda>op tr. True) (rdma_op E) ops rdma_new t = (tr, v)"
    and "run_state (rdma_close E tr) v = (tr', w)" and "run_state (rdma_close E tr') w = (tr'', x)"
  shows "live E v = live E t + rdma_held tr \<and> live E w = live E t \<and> live E x = live E t"
proof -
  have n: "rdma_env_ok E t" "rdma_inv (live E t) rdma_new" "live E t = live E t + rdma_held rdma_new"
    using assms(1-3) by (simp_all add: rdma_env_ok_def rdma_inv_def rdma_new_def rdma_held_def fd_held_def)
      (simp add: qp_zero_def)
  show ?thesis
    using rdma_session.session_keeps [OF n assms(4)] rdma_session.session_closed [OF n assms(4-6)] by simp
qed

theorem rdma_sessions_balanced_witness:
  "\<exists>tr v. session (\<lambda>op tr. True) (rdma_op cm_calm) [Op_connect (Some ''10.0.0.1'') 7] rdma_new [] = (tr, v) \<and>
     q_qp (rt_qp tr) \<noteq> 0 \<and> live cm_calm v = rdma_held tr \<and> live cm_calm (snd (run_state (rdma_close cm_calm tr) v)) = {#}"
proof -
  let ?ops = "[Op_connect (Some ''10.0.0.1'') 7]"
  obtain tr v where v: "session (\<lambda>op tr. True) (rdma_op cm_calm) ?ops rdma_new [] = (tr, v)" by (metis surj_pair)
  obtain tr' w where d: "run_state (rdma_close cm_calm tr) v = (tr', w)" by (metis surj_pair)
  obtain tr'' x where d': "run_state (rdma_close cm_calm tr') w = (tr'', x)" by (metis surj_pair)
  obtain q u where c: "run_state (rai_cm_connect_qp cm_calm qp_zero ''10.0.0.1'' 7) [] = ((0, q), u)"
    using calm_connects by blast
  have "q_qp q \<noteq> 0" using cm_connect_spec(1) [OF cm_calm_ok cm_calm_requests _ qp_fresh_zero c] by simp
  moreover have "rt_qp tr = q"
    using v c by (auto simp: rdma_op_def rdma_connect_def rdma_reset_def close_listen_fd_def rdma_new_def run_simps Let_def)
      (auto simp: qp_zero_def)
  ultimately show ?thesis
    using rdma_sessions_balanced [OF cm_calm_ok cm_calm_requests _ v d d'] v d by simp
qed


lemma exchange_server:
  assumes "bh_priv b = Some m" and "rt_is_server tr"
    and "run_state (rdma_exchange_buf E tr (Some b) (Some a) (Some k)) t = ((0, tr', ra, rk), u)"
  shows "\<exists>q'. run_state (rai_oob_accept E (rt_mr_listen_fd tr) (Some ((rt_qp tr)\<lparr>q_local :=
      (q_local (rt_qp tr))\<lparr>ci_addr := e_mr_addr E (mr_mr m), ci_rkey := e_mr_rkey E (mr_mr m)\<rparr>\<rparr>))) t = ((0, q'), u) \<and>
    ra = Some (ci_addr (q_remote (the q'))) \<and> rk = Some (ci_rkey (q_remote (the q')))"
  using assms by (auto simp: rdma_exchange_buf_def run_simps Let_def split: if_splits prod.splits)

lemma exchange_client:
  assumes "bh_priv b = Some m" and "\<not> rt_is_server tr"
    and "run_state (rdma_exchange_buf E tr (Some b) (Some a) (Some k)) t = ((0, tr', ra, rk), u)"
  shows "\<exists>q'. run_state (rai_oob_connect E (Some ((rt_qp tr)\<lparr>q_local :=
      (q_local (rt_qp tr))\<lparr>ci_addr := e_mr_addr E (mr_mr m), ci_rkey := e_mr_rkey E (mr_mr m)\<rparr>\<rparr>))
      (Some (rt_host tr)) (rt_port tr + 1)) t = ((0, q'), u) \<and>
    ra = Some (ci_addr (q_remote (the q'))) \<and> rk = Some (ci_rkey (q_remote (the q')))"
  using assms by (auto simp: rdma_exchange_buf_def run_simps Let_def split: if_splits prod.splits)

text \<open>
  C23. The exchange of buffers over RDMA: when the listening and the connecting side both succeed over
  one connection, each has the address and the remote key of the other's registered region.
\<close>

theorem rdma_exchange:
  assumes "sock_ok Es" "sock_ok Ec" and "conn_info_wf (q_local (rt_qp trs))" "conn_info_wf (q_remote (rt_qp trs))"
    and "conn_info_wf (q_local (rt_qp trc))" "conn_info_wf (q_remote (rt_qp trc))"
    and "bh_priv bs = Some ms" and "bh_priv bc = Some mc" and "rt_is_server trs" and "\<not> rt_is_server trc"
    and "run_state (rdma_exchange_buf Es trs (Some bs) (Some a) (Some k)) ts = ((0, trs', ras, rks), (Close sfd, e) # us)"
    and "run_state (rdma_exchange_buf Ec trc (Some bc) (Some a') (Some k')) tc = ((0, trc', rac, rkc), (Close cfd, e') # uc)"
    and "connected sfd ts us cfd tc uc"
  shows "ras = Some (e_mr_addr Ec (mr_mr mc)) \<and> rks = Some (e_mr_rkey Ec (mr_mr mc)) \<and>
    rac = Some (e_mr_addr Es (mr_mr ms)) \<and> rkc = Some (e_mr_rkey Es (mr_mr ms))"
proof -
  let ?ls = "(q_local (rt_qp trs))\<lparr>ci_addr := e_mr_addr Es (mr_mr ms), ci_rkey := e_mr_rkey Es (mr_mr ms)\<rparr>"
  let ?lc = "(q_local (rt_qp trc))\<lparr>ci_addr := e_mr_addr Ec (mr_mr mc), ci_rkey := e_mr_rkey Ec (mr_mr mc)\<rparr>"
  let ?qs = "(rt_qp trs)\<lparr>q_local := ?ls\<rparr>" and ?qc = "(rt_qp trc)\<lparr>q_local := ?lc\<rparr>"
  obtain qs where s: "run_state (rai_oob_accept Es (rt_mr_listen_fd trs) (Some ?qs)) ts = ((0, qs), (Close sfd, e) # us)"
    "ras = Some (ci_addr (q_remote (the qs)))" "rks = Some (ci_rkey (q_remote (the qs)))"
    using exchange_server [OF assms(7,9,11)] by blast
  obtain qc where c: "run_state (rai_oob_connect Ec (Some ?qc) (Some (rt_host trc)) (rt_port trc + 1)) tc = ((0, qc), (Close cfd, e') # uc)"
    "rac = Some (ci_addr (q_remote (the qc)))" "rkc = Some (ci_rkey (q_remote (the qc)))"
    using exchange_client [OF assms(8,10,12)] by blast
  have "qs = Some (?qs\<lparr>q_remote := q_local ?qc\<rparr>) \<and> qc = Some (?qc\<lparr>q_remote := q_local ?qs\<rparr>)"
    by (rule oob_exchange_pair [OF assms(1,2) _ _ _ _ s(1) c(1) assms(13)])
      (use assms(3-6) in \<open>simp_all add: conn_info_wf_def\<close>)
  with s(2,3) c(2,3) show ?thesis by simp
qed

definition calm_ones :: env where
  "calm_ones = calm\<lparr>e_mr_addr := (\<lambda>_. ci_addr ones), e_mr_rkey := (\<lambda>_. ci_rkey ones)\<rparr>"

theorem rdma_exchange_witness:
  "\<exists>trs us trc uc. let qp = qp_zero\<lparr>q_qp := 14, q_local := ones\<rparr>; r = (Some (ci_addr ones), Some (ci_rkey ones)) in
     run_state (rdma_exchange_buf calm_ones \<lparr>rt_qp = qp, rt_port = -1, rt_mr_listen_fd = 9, rt_is_server = True, rt_host = []\<rparr>
       (Some reg4) (Some 0) (Some 0)) [] = ((0, trs, r), us) \<and>
     run_state (rdma_exchange_buf calm_ones \<lparr>rt_qp = qp, rt_port = 7, rt_mr_listen_fd = -1, rt_is_server = False, rt_host = ''10.0.0.1''\<rparr>
       (Some reg4) (Some 0) (Some 0)) [] = ((0, trc, r), uc)"
proof -
  let ?qp = "qp_zero\<lparr>q_qp := 14, q_local := ones\<rparr>"
  let ?s = "\<lparr>rt_qp = ?qp, rt_port = -1, rt_mr_listen_fd = 9, rt_is_server = True, rt_host = []\<rparr>"
  let ?c = "\<lparr>rt_qp = ?qp, rt_port = 7, rt_mr_listen_fd = -1, rt_is_server = False, rt_host = ''10.0.0.1''\<rparr>"
  let ?us = "[(Recv 4 40, 40, replicate 40 1), (Send 4 (replicate 40 1), 40, []), (Accept 9, 4, [])]"
  let ?uc = "[(Send 3 (replicate 40 1), 40, []), (Recv 3 40, 40, replicate 40 1), (Connect 3 ''10.0.0.1'' 8, 0, []),
    (Socket, 3, []), (Inet_pton ''10.0.0.1'', 1, [])]"
  let ?m = "\<lparr>mr_mr = 15, mr_buf = 4096, mr_size = 64, owns_buf = False\<rparr>"
  let ?q' = "?qp\<lparr>q_remote := conn_info_of (replicate 40 1)\<rparr>"
  have z: "q_remote qp_zero = conn_info_zero" "ones\<lparr>ci_addr := ci_addr ones, ci_rkey := ci_rkey ones\<rparr> = ones" by (simp_all add: qp_zero_def)
  have b: "bh_priv reg4 = Some ?m" by (simp add: reg4_def)
  have e: "e_ret calm_ones t (Accept x) = 4" "e_ret calm_ones t Socket = 3" "e_ret calm_ones t (Close x) = 0"
    "e_ret calm_ones t (Inet_pton a) = 1" "e_ret calm_ones t (Connect x a p) = 0" "e_data calm_ones t (Accept x) = []"
    "e_data calm_ones t Socket = []" "e_data calm_ones t (Close x) = []" "e_data calm_ones t (Inet_pton a) = []"
    "e_data calm_ones t (Connect x a p) = []" "e_ret calm_ones t (Send x xs) = int (length xs)"
    "e_ret calm_ones t (Recv x n) = int n" "e_data calm_ones t (Send x xs) = []" "e_data calm_ones t (Recv x n) = replicate n 1"
    "e_mr_addr calm_ones h = ci_addr ones" "e_mr_rkey calm_ones h = ci_rkey ones" for t x a p xs n h
    by (simp_all add: calm_ones_def calm_def)
  have ok: "sock_ok calm_ones" by (simp add: sock_ok_def e)
  note ev = rdma_exchange_buf_def rai_oob_accept_def rai_oob_connect_def run_simps Let_def e z run_send_all run_recv_all
    ones_bytes sizeof_conn_info_def send_once recv_once zero_bytes reg4_def
  have s: "run_state (rdma_exchange_buf calm_ones ?s (Some reg4) (Some 0) (Some 0)) [] =
      ((0, ?s\<lparr>rt_qp := ?q'\<rparr>, Some (ci_addr (q_remote ?q')), Some (ci_rkey (q_remote ?q'))), (Close 4, 0, []) # ?us)"
    by (simp add: ev)
  have c: "run_state (rdma_exchange_buf calm_ones ?c (Some reg4) (Some 0) (Some 0)) [] =
      ((0, ?c\<lparr>rt_qp := ?q'\<rparr>, Some (ci_addr (q_remote ?q')), Some (ci_rkey (q_remote ?q'))), (Close 3, 0, []) # ?uc)"
    by (simp add: ev)
  have n: "connected 4 [] ?us 3 [] ?uc" by (simp add: connected_def sent_on_def rcvd_on_def)
  have wf: "conn_info_wf (q_local ?qp)" "conn_info_wf (q_remote ?qp)" by (simp_all add: ones_bytes z)
  show ?thesis
    using rdma_exchange [OF ok ok _ _ _ _ b b _ _ s c n] wf s c by (simp add: Let_def e)
qed

text \<open>
  C38. A \<open>ScopedBuffer\<close> gives its region back: whether or not its registration worked and whatever was
  done in its scope, its destructor leaves held exactly what the scope itself left.
\<close>

theorem scoped_buffer_balanced:
  assumes "run_state (scoped_buffer_init E scoped_buffer_new tr addr len) t = ((r, b), u)" and "live E v = live E u + M"
    and "run_state (scoped_buffer_destroy E b) v = (b', w)"
  shows "live E w = live E t + M \<and> (r \<noteq> 0 \<longrightarrow> live E u = live E t) \<and> live E (snd (run_state (scoped_buffer_destroy E b') w)) = live E w"
proof -
  have a: "run_state (case (tr, addr, len) of (tr, addr, len) \<Rightarrow> scoped_buffer_init E scoped_buffer_new tr addr len) t = ((r, b), u)"
    using assms(1) by simp
  obtain b'' x where d: "run_state (scoped_buffer_destroy E b') w = (b'', x)" by (metis surj_pair)
  show ?thesis
    using rdma_scoped.scope_balanced [OF a assms(2,3)] rdma_scoped.acquire_spec [OF a]
      rdma_scoped.release_twice [OF assms(3) d] d by auto
qed

theorem scoped_buffer_balanced_witness:
  "\<exists>b u w b'. run_state (scoped_buffer_init calm scoped_buffer_new conn4 4096 64) [] = ((0, b), u) \<and> live calm u = {#Mr 15#} \<and>
     run_state (scoped_buffer_destroy calm b) u = (b', w) \<and> live calm w = {#}"
proof -
  let ?b = "\<lparr>sb_t = Some conn4, sb_h = reg4\<rparr>" and ?u = "[(Reg_mr 12 4096 64 mr_access, 15, [])]"
  have i: "run_state (scoped_buffer_init calm scoped_buffer_new conn4 4096 64) [] = ((0, ?b), ?u)"
    by (simp add: scoped_buffer_init_def scoped_buffer_new_def rdma_reg_buf_def rai_mr_reg_external_def conn4_def reg4_def
        mr_zero_def run_simps calm_def)
  obtain b' w where d: "run_state (scoped_buffer_destroy calm ?b) ?u = (b', w)" by (metis surj_pair)
  have "live calm w = {#}" using scoped_buffer_balanced [OF i _ d, of "{#}"] by simp
  with i d show ?thesis by auto
qed


end
