(* ===== verification/World.thy ===== *)
theory World
  imports Tcp_Transport Rdma_Transport Ring_Program
begin

text \<open>
  Building the process group (world.cpp): a transport of either kind behind the class
  \<open>Transport\<close>, and \<open>world_init\<close>, which waits for its left neighbour in one thread while it
  connects to its right neighbour in another, trying again until the neighbour listens. The
  threads share no state of the program, so each has an outside and a history of its own.
\<close>

section \<open>Definitions\<close>

datatype transport = TcpT tcp_transport | RdmaT rdma_transport

definition create_transport :: "bool \<Rightarrow> transport" where
  "create_transport use_rdma = (if use_rdma then RdmaT rdma_new else TcpT tcp_new)"

text \<open>The virtual calls: \<open>connect\<close>, \<open>listen\<close>, \<open>accept\<close>, and \<open>close\<close>, which the destructors call.\<close>

definition transport_op :: "env \<Rightarrow> session_op \<Rightarrow> transport \<Rightarrow> (trace, int \<times> transport) state" where
  "transport_op E op tr =
     (case tr of TcpT x \<Rightarrow> do { (r, y) \<leftarrow> tcp_op E op x; ret (r, TcpT y) }
      | RdmaT x \<Rightarrow> do { (r, y) \<leftarrow> rdma_op E op x; ret (r, RdmaT y) })"

definition transport_close :: "env \<Rightarrow> transport \<Rightarrow> (trace, transport) state" where
  "transport_close E tr =
     (case tr of TcpT x \<Rightarrow> do { y \<leftarrow> tcp_close E x; ret (TcpT y) }
      | RdmaT x \<Rightarrow> do { y \<leftarrow> rdma_close E x; ret (RdmaT y) })"

record group = world +
  w_left :: transport
  w_right :: transport

text \<open>The thread that serves the left neighbour.\<close>

definition listen_thread :: "env \<Rightarrow> transport \<Rightarrow> int \<Rightarrow> (trace, int \<times> transport) state" where
  "listen_thread E left port = do {
     (l, left1) \<leftarrow> transport_op E (Op_listen port) left;
     if l \<noteq> 0 then ret (-1, left1)
     else do {
       (a, left2) \<leftarrow> transport_op E Op_accept left1;
       ret (if a \<noteq> 0 then -1 else 0, left2) } }"

text \<open>The loop that connects to the right neighbour, with the tries it has left.\<close>

fun connect_retry :: "env \<Rightarrow> string option \<Rightarrow> int \<Rightarrow> nat \<Rightarrow> transport \<Rightarrow> (trace, int \<times> transport) state" where
  "connect_retry E host port 0 right = ret (-1, right)"
| "connect_retry E host port (Suc n) right = do {
     (c, right1) \<leftarrow> transport_op E (Op_connect host port) right;
     if c = 0 then ret (0, right1)
     else do {
       _ \<leftarrow> exec_call E (Usleep 100000);
       connect_retry E host port n right1 } }"

text \<open>
  \<open>world_init\<close>, with the outside and history of the listening thread and of the main one.
  \<open>new\<close> does not return NULL, so the check for it has no branch here.
\<close>

definition world_init ::
    "env \<Rightarrow> env \<Rightarrow> group option \<Rightarrow> int \<Rightarrow> int \<Rightarrow> (int \<Rightarrow> string option) \<Rightarrow> int \<Rightarrow> bool \<Rightarrow> trace \<times> trace \<Rightarrow>
      (int \<times> group option) \<times> trace \<times> trace" where
  "world_init El Em w rank n host_list base_port use_rdma ts =
     (case w of None \<Rightarrow> ((-1, None), ts)
      | Some _ \<Rightarrow>
        (let ((listen_ret, left), ta) = run_state (listen_thread El (create_transport use_rdma) (base_port + rank)) (fst ts);
             rank_right = c_rem (rank + 1) n;
             ((connect_ret, right), tb) = run_state (connect_retry Em (host_list rank_right) (base_port + rank_right) 600
               (create_transport use_rdma)) (snd ts)
         in ((if listen_ret \<noteq> 0 \<or> connect_ret \<noteq> 0 then -1 else 0,
              Some \<lparr>w_rank = rank, w_size = n, w_left = left, w_right = right\<rparr>), (ta, tb))))"

section \<open>Sessions of either kind\<close>

definition transport_held :: "transport \<Rightarrow> res multiset" where
  "transport_held tr = (case tr of TcpT x \<Rightarrow> tcp_held x | RdmaT x \<Rightarrow> rdma_held x)"

definition transport_may :: "session_op \<Rightarrow> transport \<Rightarrow> bool" where
  "transport_may op tr = (case tr of TcpT x \<Rightarrow> tcp_may op x | RdmaT x \<Rightarrow> True)"

definition transport_inv :: "res multiset \<Rightarrow> transport \<Rightarrow> bool" where
  "transport_inv M tr = (case tr of TcpT x \<Rightarrow> True | RdmaT x \<Rightarrow> rdma_inv M x)"

text \<open>The contract of sessions carries over to the class.\<close>

lemma tcp_op_quiet:
  "run_state (tcp_op E op tr) t = ((r, tr'), u) \<Longrightarrow> listeners u = listeners t"
  by (cases op) (auto simp: tcp_op_def tcp_connect_def tcp_listen_def tcp_accept_def run_simps split: option.splits if_splits)

lemma tcp_close_quiet: "run_state (tcp_close E tr) t = (tr', u) \<Longrightarrow> listeners u = listeners t"
  by (auto simp: tcp_close_def close_fd_def run_simps split: if_splits)

interpretation transports: transport_session rdma_env_ok transport_inv transport_may transport_op transport_close transport_held
proof
  show "rdma_env_ok E u \<and> transport_inv M tr' \<and> live E u = M + transport_held tr'"
    if a: "rdma_env_ok E t" "transport_inv M tr" "transport_may op tr" "live E t = M + transport_held tr"
      "run_state (transport_op E op tr) t = ((r, tr'), u)" for E t M tr op r tr' u
  proof (cases tr)
    case (TcpT x)
    then obtain y where y: "run_state (tcp_op E op x) t = ((r, y), u)" "tr' = TcpT y"
      using a(5) by (auto simp: transport_op_def run_simps split: prod.splits)
    with tcp_session.step_spec [of op x E t M r y u] tcp_op_quiet [OF y(1)] a TcpT show ?thesis
      by (simp add: transport_may_def transport_held_def transport_inv_def rdma_env_ok_def)
  next
    case (RdmaT x)
    then obtain y where y: "run_state (rdma_op E op x) t = ((r, y), u)" "tr' = RdmaT y"
      using a(5) by (auto simp: transport_op_def run_simps split: prod.splits)
    with rdma_session.step_spec [of E t M x op r y u] a RdmaT show ?thesis
      by (simp add: transport_held_def transport_inv_def)
  qed
  show "rdma_env_ok E u \<and> transport_inv M tr' \<and> live E u = M \<and> transport_held tr' = {#}"
    if a: "rdma_env_ok E t" "transport_inv M tr" "live E t = M + transport_held tr"
      "run_state (transport_close E tr) t = (tr', u)" for E t M tr tr' u
  proof (cases tr)
    case (TcpT x)
    then obtain y where y: "run_state (tcp_close E x) t = (y, u)" "tr' = TcpT y"
      using a(4) by (auto simp: transport_close_def run_simps split: prod.splits)
    with tcp_session.close_spec [of E t M x y u] tcp_close_quiet [OF y(1)] a TcpT show ?thesis
      by (simp add: transport_held_def transport_inv_def rdma_env_ok_def)
  next
    case (RdmaT x)
    then obtain y where y: "run_state (rdma_close E x) t = (y, u)" "tr' = RdmaT y"
      using a(4) by (auto simp: transport_close_def run_simps split: prod.splits)
    with rdma_session.close_spec [of E t M x y u] a RdmaT show ?thesis
      by (simp add: transport_held_def transport_inv_def)
  qed
qed

text \<open>A transport that is not connected may connect, and stays so when it fails.\<close>

definition unconnected :: "transport \<Rightarrow> bool" where
  "unconnected tr = (case tr of TcpT x \<Rightarrow> tt_fd x < 0 | RdmaT x \<Rightarrow> True)"

lemma connect_failed_unconnected:
  assumes "unconnected tr" and "run_state (transport_op E (Op_connect host port) tr) t = ((r, tr'), u)" and "r \<noteq> 0"
  shows "unconnected tr'"
proof (cases tr)
  case (TcpT x)
  then obtain y where "run_state (tcp_connect E x host port) t = ((r, y), u)" "tr' = TcpT y"
    using assms(2) by (auto simp: transport_op_def tcp_op_def run_simps split: prod.splits)
  with tcp_connect_held [of x E host port t r y u] assms(1,3) TcpT show ?thesis by (simp add: unconnected_def)
next
  case (RdmaT x)
  with assms(2) show ?thesis by (auto simp: transport_op_def unconnected_def run_simps split: prod.splits)
qed

lemma usleep_quiet [simp]: "rdma_env_ok E ((Usleep n, r, d) # t) \<longleftrightarrow> rdma_env_ok E t"
  by (simp add: rdma_env_ok_def)

lemma connect_retry_balanced:
  assumes "rdma_env_ok E t" and "transport_inv M tr" and "unconnected tr" and "live E t = M + transport_held tr"
    and "run_state (connect_retry E host port n tr) t = ((r, tr'), u)"
  shows "rdma_env_ok E u \<and> transport_inv M tr' \<and> live E u = M + transport_held tr'"
  using assms
proof (induction n arbitrary: tr t)
  case (Suc n)
  obtain c tr1 v where run: "run_state (transport_op E (Op_connect host port) tr) t = ((c, tr1), v)" by (metis surj_pair)
  have may: "transport_may (Op_connect host port) tr"
    using Suc.prems(3) by (auto simp: transport_may_def tcp_may_def unconnected_def split: transport.split)
  note s = transports.step_spec [OF Suc.prems(1,2) may Suc.prems(4) run]
  show ?case
  proof (cases "c = 0")
    case True
    with Suc.prems(5) run s show ?thesis by (simp add: run_simps)
  next
    case False
    let ?v = "(Usleep 100000, e_ret E v (Usleep 100000), e_data E v (Usleep 100000)) # v"
    have "run_state (connect_retry E host port n tr1) ?v = ((r, tr'), u)" using Suc.prems(5) run False by (simp add: run_simps)
    with Suc.IH [OF _ _ connect_failed_unconnected [OF Suc.prems(3) run False], of ?v] s show ?thesis by simp
  qed
qed simp

lemma create_held: "transport_inv M (create_transport b)" "transport_held (create_transport b) = {#}"
  by (simp_all add: create_transport_def transport_inv_def transport_held_def rdma_inv_def rdma_new_def rdma_held_def tcp_new_def
      tcp_held_def one_fd_def fd_held_def) (simp_all add: qp_zero_def)

lemma create_unconnected: "unconnected (create_transport b)" "transport_may (Op_listen port) (create_transport b)"
  by (simp_all add: create_transport_def unconnected_def transport_may_def tcp_may_def tcp_new_def)

lemma listen_thread_balanced:
  assumes "rdma_env_ok E t" and "run_state (listen_thread E (create_transport b) port) t = ((r, tr'), u)"
  shows "rdma_env_ok E u \<and> transport_inv (live E t) tr' \<and> live E u = live E t + transport_held tr'"
proof -
  let ?new = "create_transport b"
  obtain l tr1 v where l: "run_state (transport_op E (Op_listen port) ?new) t = ((l, tr1), v)" by (metis surj_pair)
  have s: "rdma_env_ok E v" "transport_inv (live E t) tr1" "live E v = live E t + transport_held tr1"
    using transports.step_spec [OF assms(1) create_held(1) create_unconnected(2) _ l] create_held(2) by auto
  have may: "transport_may Op_accept tr1"
    using l by (auto simp: transport_op_def create_transport_def transport_may_def tcp_may_def tcp_op_def tcp_listen_def
        tcp_new_def run_simps split: if_splits prod.splits)
  obtain a tr2 w where a: "run_state (transport_op E Op_accept tr1) v = ((a, tr2), w)" by (metis surj_pair)
  show ?thesis
    using transports.step_spec [OF s(1,2) may s(3) a] s assms(2) l a
    by (auto simp: listen_thread_def run_simps split: if_splits)
qed

section \<open>Trying again\<close>

text \<open>The transport and the history after \<open>k\<close> tries, each followed by a pause.\<close>

fun tries :: "env \<Rightarrow> string option \<Rightarrow> int \<Rightarrow> nat \<Rightarrow> transport \<times> trace \<Rightarrow> transport \<times> trace" where
  "tries E host port 0 (tr, t) = (tr, t)"
| "tries E host port (Suc k) (tr, t) =
     (case run_state (transport_op E (Op_connect host port) tr) t of
        ((c, tr'), u) \<Rightarrow> tries E host port k (tr', (Usleep 100000, e_ret E u (Usleep 100000), e_data E u (Usleep 100000)) # u))"

definition try_fails :: "env \<Rightarrow> string option \<Rightarrow> int \<Rightarrow> transport \<times> trace \<Rightarrow> bool" where
  "try_fails E host port x \<longleftrightarrow> fst (fst (run_state (transport_op E (Op_connect host port) (fst x)) (snd x))) \<noteq> 0"

lemma connect_retry_fails:
  assumes "\<And>j. j < n \<Longrightarrow> try_fails E host port (tries E host port j (tr, t))"
  shows "run_state (connect_retry E host port n tr) t = (case tries E host port n (tr, t) of (tr', u) \<Rightarrow> ((-1, tr'), u))"
  using assms
proof (induction n arbitrary: tr t)
  case (Suc n)
  obtain c tr1 v where run: "run_state (transport_op E (Op_connect host port) tr) t = ((c, tr1), v)" by (metis surj_pair)
  have c: "c \<noteq> 0" using Suc.prems [of 0] run by (simp add: try_fails_def)
  let ?v = "(Usleep 100000, e_ret E v (Usleep 100000), e_data E v (Usleep 100000)) # v"
  have "try_fails E host port (tries E host port j (tr1, ?v))" if "j < n" for j
    using Suc.prems [of "Suc j"] that run by simp
  from Suc.IH [OF this] c run show ?case by (simp add: run_simps)
qed simp

lemma connect_retry_succeeds:
  assumes "k < n" and "\<And>j. j < k \<Longrightarrow> try_fails E host port (tries E host port j (tr, t))"
    and "\<not> try_fails E host port (tries E host port k (tr, t))"
  shows "run_state (connect_retry E host port n tr) t =
    run_state (transport_op E (Op_connect host port) (fst (tries E host port k (tr, t)))) (snd (tries E host port k (tr, t)))"
  using assms
proof (induction n arbitrary: k tr t)
  case (Suc n)
  obtain c tr1 v where run: "run_state (transport_op E (Op_connect host port) tr) t = ((c, tr1), v)" by (metis surj_pair)
  show ?case
  proof (cases k)
    case 0
    with Suc.prems(3) run have "c = 0" by (simp add: try_fails_def)
    with run 0 show ?thesis by (simp add: run_simps)
  next
    case (Suc i)
    have c: "c \<noteq> 0" using Suc.prems(2) [of 0] run Suc by (simp add: try_fails_def)
    let ?v = "(Usleep 100000, e_ret E v (Usleep 100000), e_data E v (Usleep 100000)) # v"
    have "try_fails E host port (tries E host port j (tr1, ?v))" if "j < i" for j
      using Suc.prems(2) [of "Suc j"] that run Suc by simp
    from Suc.IH [OF _ this] Suc.prems(1,3) c run Suc show ?thesis by (simp add: run_simps)
  qed
qed simp

text \<open>What each thread holds when \<open>world_init\<close> returns: the transport it set up, whether or not that worked.\<close>

lemma world_init_holds:
  assumes "rdma_env_ok El ta" "rdma_env_ok Em tb"
    and "world_init El Em (Some w) rank n hosts base b (ta, tb) = ((r, Some g), (ua, ub))"
  shows "rdma_env_ok El ua" "transport_inv (live El ta) (w_left g)" "live El ua = live El ta + transport_held (w_left g)"
    and "rdma_env_ok Em ub" "transport_inv (live Em tb) (w_right g)" "live Em ub = live Em tb + transport_held (w_right g)"
    and "w_rank g = rank" "w_size g = n"
proof -
  let ?q = "c_rem (rank + 1) n"
  obtain l where l: "run_state (listen_thread El (create_transport b) (base + rank)) ta = ((l, w_left g), ua)"
    using assms(3) by (auto simp: world_init_def Let_def split: prod.splits)
  obtain c where c: "run_state (connect_retry Em (hosts ?q) (base + ?q) 600 (create_transport b)) tb = ((c, w_right g), ub)"
    using assms(3) by (auto simp: world_init_def Let_def split: prod.splits)
  show "w_rank g = rank" "w_size g = n" using assms(3) by (auto simp: world_init_def Let_def split: prod.splits)
  show "rdma_env_ok El ua" "transport_inv (live El ta) (w_left g)" "live El ua = live El ta + transport_held (w_left g)"
    using listen_thread_balanced [OF assms(1) l] by auto
  show "rdma_env_ok Em ub" "transport_inv (live Em tb) (w_right g)" "live Em ub = live Em tb + transport_held (w_right g)"
    using connect_retry_balanced [OF assms(2) create_held(1) create_unconnected(1) _ c] create_held(2) by auto
qed

section \<open>Properties\<close>

text \<open>
  Building the group leaks nothing: whether it succeeds or not, destroying the group, which closes
  both transports, leaves held in the history of either thread what was held before.
\<close>

theorem world_init_balanced:
  assumes "cm_ok El" "cm_requests_ok El" "listeners ta = {}" "cm_ok Em" "cm_requests_ok Em" "listeners tb = {}"
    and "world_init El Em (Some w) rank n hosts base b (ta, tb) = ((r, Some g), (ua, ub))"
    and "run_state (transport_close El (w_left g)) ua = (x, va)" and "run_state (transport_close Em (w_right g)) ub = (y, vb)"
  shows "live El va = live El ta \<and> live Em vb = live Em tb \<and> w_rank g = rank \<and> w_size g = n"
proof -
  have "rdma_env_ok El ta" "rdma_env_ok Em tb" using assms(1-6) by (simp_all add: rdma_env_ok_def)
  note h = world_init_holds [OF this assms(7)]
  from transports.close_spec [OF h(1-3) assms(8)] transports.close_spec [OF h(4-6) assms(9)] h(7,8) show ?thesis by simp
qed

lemma world_init_some: "\<exists>r g ua ub. world_init El Em (Some w) rank n hosts base b ts = ((r, Some g), (ua, ub))"
  by (simp add: world_init_def Let_def split: prod.split)

definition lone :: group where
  "lone = \<lparr>w_rank = 0, w_size = 0, w_left = TcpT tcp_new, w_right = TcpT tcp_new\<rparr>"

theorem world_init_balanced_witness:
  "\<exists>r g ua ub. world_init cm_calm cm_calm (Some lone) 1 2 (\<lambda>_. Some ''10.0.0.1'') 7000 True ([], []) = ((r, Some g), (ua, ub)) \<and>
     live cm_calm (snd (run_state (transport_close cm_calm (w_left g)) ua)) = {#} \<and>
     live cm_calm (snd (run_state (transport_close cm_calm (w_right g)) ub)) = {#}"
proof -
  obtain r g ua ub where run:
      "world_init cm_calm cm_calm (Some lone) 1 2 (\<lambda>_. Some ''10.0.0.1'') 7000 True ([], []) = ((r, Some g), (ua, ub))"
    using world_init_some by blast
  obtain x va where x: "run_state (transport_close cm_calm (w_left g)) ua = (x, va)" by (metis surj_pair)
  obtain y vb where y: "run_state (transport_close cm_calm (w_right g)) ub = (y, vb)" by (metis surj_pair)
  have "listeners [] = {}" by simp
  from world_init_balanced [OF cm_calm_ok cm_calm_requests this cm_calm_ok cm_calm_requests this run x y] run x y
  show ?thesis by auto
qed

text \<open>
  C18. Connecting to the right neighbour: when it starts to accept before the 600th try, the group's
  right transport is the one of the first try that worked, made to the host and port of rank
  \<open>(rank + 1) mod size\<close>; when none of the 600 works, building the group fails.
\<close>

theorem world_init_connects:
  assumes "0 \<le> rank" and "0 < n" and "q = (rank + 1) mod n"
    and "x = (\<lambda>k. tries Em (hosts q) (base + q) k (create_transport b, tb))"
    and "world_init El Em (Some w) rank n hosts base b (ta, tb) = ((r, g), (ua, ub))"
  shows "(\<forall>k < 600. (\<forall>j < k. try_fails Em (hosts q) (base + q) (x j)) \<and> \<not> try_fails Em (hosts q) (base + q) (x k) \<longrightarrow>
      (r = 0 \<longleftrightarrow> fst (fst (run_state (listen_thread El (create_transport b) (base + rank)) ta)) = 0) \<and>
      (\<exists>c. run_state (transport_op Em (Op_connect (hosts q) (base + q)) (fst (x k))) (snd (x k)) = ((c, w_right (the g)), ub))) \<and>
    ((\<forall>j < 600. try_fails Em (hosts q) (base + q) (x j)) \<longrightarrow> r = -1)"
proof -
  have q: "c_rem (rank + 1) n = q" using assms(1-3) by simp
  obtain l left where l: "run_state (listen_thread El (create_transport b) (base + rank)) ta = ((l, left), ua)"
    and c: "\<exists>c. run_state (connect_retry Em (hosts q) (base + q) 600 (create_transport b)) tb = ((c, w_right (the g)), ub) \<and>
      (r = 0 \<longleftrightarrow> l = 0 \<and> c = 0) \<and> (r \<noteq> 0 \<longrightarrow> r = -1)"
    using assms(5) q by (auto simp: world_init_def Let_def split: prod.splits)
  show ?thesis
  proof (intro conjI allI impI)
    fix k :: nat
    assume k: "k < 600" "(\<forall>j < k. try_fails Em (hosts q) (base + q) (x j)) \<and> \<not> try_fails Em (hosts q) (base + q) (x k)"
    then have run: "run_state (connect_retry Em (hosts q) (base + q) 600 (create_transport b)) tb =
        run_state (transport_op Em (Op_connect (hosts q) (base + q)) (fst (x k))) (snd (x k))"
      using connect_retry_succeeds [OF k(1)] assms(4) by simp
    with c k(2) show "r = 0 \<longleftrightarrow> fst (fst (run_state (listen_thread El (create_transport b) (base + rank)) ta)) = 0"
      using l by (auto simp: try_fails_def)
    from run c show "\<exists>c. run_state (transport_op Em (Op_connect (hosts q) (base + q)) (fst (x k))) (snd (x k)) = ((c, w_right (the g)), ub)"
      by metis
  next
    assume "\<forall>j < 600. try_fails Em (hosts q) (base + q) (x j)"
    then have "run_state (connect_retry Em (hosts q) (base + q) 600 (create_transport b)) tb =
        (case x 600 of (tr', u) \<Rightarrow> ((-1, tr'), u))"
      using connect_retry_fails [of 600 Em "hosts q" "base + q"] assms(4) by simp
    with c show "r = -1" by (auto split: prod.splits)
  qed
qed


theorem world_init_connects_witness:
  "fst (fst (world_init calm calm (Some lone) 1 2 (\<lambda>_. Some ''10.0.0.1'') 7000 False ([], []))) = 0"
proof -
  let ?h = "\<lambda>_ :: int. Some ''10.0.0.1''"
  obtain r g ua ub where run: "world_init calm calm (Some lone) 1 2 ?h 7000 False ([], []) = ((r, g), (ua, ub))"
    by (metis surj_pair)
  have e: "e_ret calm t Socket = 3" "e_ret calm t (Inet_pton s) = 1" "e_ret calm t (Connect i s j) = 0" "e_ret calm t (Accept i) = 4"
    "e_ret calm t (Bind i j) = 0" "e_ret calm t (Listen i j) = 0" for t s i j by (simp_all add: calm_def)
  have l: "fst (fst (run_state (listen_thread calm (create_transport False) (7000 + 1)) [])) = 0"
    by (simp add: listen_thread_def transport_op_def create_transport_def tcp_op_def tcp_listen_def tcp_accept_def tcp_new_def run_simps e)
  have t: "\<not> try_fails calm (?h 0) (7000 + 0) (create_transport False, [])"
    by (simp add: try_fails_def transport_op_def create_transport_def tcp_op_def tcp_connect_def tcp_new_def run_simps e)
  have q: "(0 :: int) = (1 + 1) mod 2" by simp
  have "r = 0"
    using world_init_connects [OF _ _ q refl run, THEN conjunct1, rule_format, of 0] l t by simp
  with run show ?thesis by simp
qed

end
