(* ===== verification/Args.thy ===== *)
theory Args
  imports Prelude
begin

text \<open>
  What the programs do with their command line: C's \<open>atoi\<close>, as the C library implements it
  (\<open>strtol\<close> in base ten, which saturates at the range of \<open>long\<close>, then a conversion to \<open>int\<close>), and
  the conversions of its result to the unsigned types the programs store it in.
\<close>

section \<open>Definitions\<close>

definition is_space :: "char \<Rightarrow> bool" where
  "is_space c \<longleftrightarrow> c = CHR '' '' \<or> (9 \<le> (of_char c :: nat) \<and> (of_char c :: nat) \<le> 13)"

definition is_digit :: "char \<Rightarrow> bool" where
  "is_digit c \<longleftrightarrow> 48 \<le> (of_char c :: nat) \<and> (of_char c :: nat) \<le> 57"

fun digits_val :: "string \<Rightarrow> int \<Rightarrow> int" where
  "digits_val [] v = v"
| "digits_val (c # cs) v = (if is_digit c then digits_val cs (10 * v + (of_char c - 48)) else v)"

definition strtol :: "string \<Rightarrow> int" where
  "strtol s =
     (let cs = dropWhile is_space s;
          v = (case cs of [] \<Rightarrow> 0
               | c # ds \<Rightarrow> if c = CHR ''-'' then - digits_val ds 0
                           else if c = CHR ''+'' then digits_val ds 0
                           else digits_val cs 0)
      in max (- (2 ^ 63)) (min (2 ^ 63 - 1) v))"

definition atoi :: "string \<Rightarrow> int" where
  "atoi s = signed_take_bit 31 (strtol s)"

text \<open>A C string that does not start with a minus sign; the empty one starts with NUL.\<close>

definition positional :: "string \<Rightarrow> bool" where
  "positional s \<longleftrightarrow> (case s of [] \<Rightarrow> True | c # cs \<Rightarrow> c \<noteq> CHR ''-'')"

section \<open>Decimal numerals\<close>

definition digit_char :: "nat \<Rightarrow> char" where
  "digit_char d = char_of (48 + d)"

fun decimal :: "nat \<Rightarrow> string" where
  "decimal n = (if n < 10 then [digit_char n] else decimal (n div 10) @ [digit_char (n mod 10)])"

declare decimal.simps [simp del]

lemma digit_char: "d < 10 \<Longrightarrow> is_digit (digit_char d) \<and> of_char (digit_char d) = (48 + d :: nat)"
  by (simp add: digit_char_def is_digit_def)

lemma digit_int: "d < 10 \<Longrightarrow> of_char (digit_char d) - 48 = int d"
  using digit_char [of d] by (metis add_diff_cancel_left' of_nat_add of_nat_numeral of_nat_of_char)

lemma digits_val_snoc:
  "\<forall>c \<in> set cs. is_digit c \<Longrightarrow> digits_val (cs @ ds) v = digits_val ds (digits_val cs v)"
  by (induction cs arbitrary: v) auto

lemma decimal_digits: "\<forall>c \<in> set (decimal n). is_digit c"
proof (induction n rule: decimal.induct)
  case (1 n)
  then show ?case by (subst decimal.simps) (auto simp: digit_char)
qed

lemma decimal_val: "digits_val (decimal n) 0 = int n"
proof (induction n rule: decimal.induct)
  case (1 n)
  show ?case
  proof (cases "n < 10")
    case True
    then show ?thesis by (subst decimal.simps) (simp add: digit_char digit_int)
  next
    case False
    have "digits_val (decimal (n div 10) @ [digit_char (n mod 10)]) 0 = 10 * int (n div 10) + int (n mod 10)"
      using 1 False by (simp add: digits_val_snoc [OF decimal_digits] digit_char digit_int)
    also have "\<dots> = int (10 * (n div 10) + n mod 10)" by (simp only: of_nat_add of_nat_mult of_nat_numeral)
    also have "\<dots> = int n" by simp
    finally show ?thesis using False by (subst decimal.simps) simp
  qed
qed

lemma digit_not_special: "is_digit c \<Longrightarrow> \<not> is_space c \<and> c \<noteq> CHR ''-'' \<and> c \<noteq> CHR ''+''"
  by (auto simp: is_digit_def is_space_def)

lemma decimal_head: "\<exists>c cs. decimal n = c # cs \<and> is_digit c"
  using decimal_digits [of n] by (cases "decimal n") (auto simp: decimal.simps [of n] split: if_splits)

lemma strtol_decimal: "int n < 2 ^ 63 \<Longrightarrow> strtol (decimal n) = int n"
proof -
  assume n: "int n < 2 ^ 63"
  obtain c cs where d: "decimal n = c # cs" "is_digit c" using decimal_head by blast
  with digit_not_special [of c] have "strtol (decimal n) = max (- (2 ^ 63)) (min (2 ^ 63 - 1) (int n))"
    using decimal_val [of n] by (simp add: strtol_def Let_def)
  also have "\<dots> = int n" using n by simp
  finally show ?thesis .
qed

text \<open>\<open>atoi\<close> reads back every decimal numeral an \<open>int\<close> can hold.\<close>

lemma atoi_decimal: "n < 2 ^ 31 \<Longrightarrow> atoi (decimal n) = int n"
proof -
  assume n: "n < 2 ^ 31"
  then have i: "int n < 2 ^ 31" by (simp add: of_nat_less_numeral_power_cancel_iff [symmetric] del: of_nat_less_numeral_power_cancel_iff)
  then have "strtol (decimal n) = int n" by (intro strtol_decimal) simp
  then show ?thesis using i by (simp add: atoi_def signed_take_bit_int_eq_self)
qed

lemma atoi_range: "- (2 ^ 31) \<le> atoi s \<and> atoi s < 2 ^ 31"
  unfolding atoi_def using signed_take_bit_int_greater_eq_minus_exp [of 31 "strtol s"] signed_take_bit_int_less_exp [of 31 "strtol s"]
  by simp

text \<open>An argument that is no number reads as 0.\<close>

lemma atoi_garbage: "\<not> is_digit c \<Longrightarrow> \<not> is_space c \<Longrightarrow> c \<noteq> CHR ''-'' \<Longrightarrow> c \<noteq> CHR ''+'' \<Longrightarrow> atoi (c # cs) = 0"
  by (simp add: atoi_def strtol_def Let_def)

end
