(* ===== verification/Bench_Config.thy ===== *)
theory Bench_Config
  imports Args Cm_Connect
begin

text \<open>
  The command line of the phase1 benchmarks (bench_config.h): its options, the validation at the
  end of parsing, and the choice of the connection mode.
\<close>

section \<open>Definitions\<close>

record bench_config =
  bc_server_ip :: "string option"
  bc_port :: int
  bc_iters :: int
  bc_size :: int
  bc_depth :: int
  bc_conn :: rai_conn_mode
  bc_csv :: bool
  bc_csv_header :: bool

definition bench_config_init :: bench_config where
  "bench_config_init = \<lparr>bc_server_ip = None, bc_port = 12345, bc_iters = 1000, bc_size = 4096, bc_depth = 16,
     bc_conn = RAI_CONN_CM, bc_csv = False, bc_csv_header = False\<rparr>"

text \<open>An option with its value: None where it is unknown, or \<open>--conn\<close> has neither of its values.\<close>

definition set_option :: "string \<Rightarrow> string \<Rightarrow> bench_config \<Rightarrow> bench_config option" where
  "set_option opt val cfg =
     (if opt = ''--port'' then Some (cfg\<lparr>bc_port := atoi val\<rparr>)
      else if opt = ''--iters'' then Some (cfg\<lparr>bc_iters := atoi val\<rparr>)
      else if opt = ''--size'' then Some (cfg\<lparr>bc_size := atoi val\<rparr>)
      else if opt = ''--depth'' then Some (cfg\<lparr>bc_depth := atoi val\<rparr>)
      else if opt = ''--conn'' then
        (if val = ''cm'' then Some (cfg\<lparr>bc_conn := RAI_CONN_CM\<rparr>)
         else if val = ''verbs'' then Some (cfg\<lparr>bc_conn := RAI_CONN_VERBS\<rparr>)
         else None)
      else None)"

text \<open>The loop over the arguments after the program's name, and the checks after it.\<close>

fun parse_args :: "string list \<Rightarrow> bench_config \<Rightarrow> int \<times> bench_config" where
  "parse_args [] cfg = (0, cfg)"
| "parse_args (opt # rest) cfg =
     (if positional opt then parse_args rest (cfg\<lparr>bc_server_ip := Some opt\<rparr>)
      else if opt = ''--csv'' then parse_args rest (cfg\<lparr>bc_csv := True\<rparr>)
      else if opt = ''--csv-header'' then parse_args rest (cfg\<lparr>bc_csv_header := True\<rparr>)
      else case rest of [] \<Rightarrow> (-1, cfg)
      | val # rest' \<Rightarrow> (case set_option opt val cfg of None \<Rightarrow> (-1, cfg) | Some cfg' \<Rightarrow> parse_args rest' cfg'))"

definition bench_config_parse :: "string list \<Rightarrow> bench_config \<Rightarrow> int \<times> bench_config" where
  "bench_config_parse args cfg =
     (case parse_args args cfg of (r, cfg') \<Rightarrow>
        if r \<noteq> 0 then (-1, cfg')
        else if bc_port cfg' < 1 \<or> 65534 < bc_port cfg' then (-1, cfg')
        else if bc_iters cfg' < 1 then (-1, cfg')
        else if bc_size cfg' < 1 then (-1, cfg')
        else if bc_depth cfg' < 1 \<or> RAI_QP_MAX_WR \<le> bc_depth cfg' then (-1, cfg')
        else (0, cfg'))"

definition bench_listen :: "env \<Rightarrow> rai_qp \<Rightarrow> bench_config \<Rightarrow> int option \<Rightarrow> (trace, int \<times> rai_qp \<times> int option) state" where
  "bench_listen E qp cfg fd =
     (if bc_conn cfg = RAI_CONN_VERBS then rai_verbs_listen_qp E qp (bc_port cfg) fd
      else rai_cm_listen_qp E qp (bc_port cfg) fd)"

definition bench_accept :: "env \<Rightarrow> rai_qp \<Rightarrow> bench_config \<Rightarrow> (trace, int) state" where
  "bench_accept E qp cfg = (if bc_conn cfg = RAI_CONN_VERBS then rai_verbs_accept_qp E qp else rai_cm_accept_qp E qp)"

text \<open>A client connects to its \<open>server_ip\<close>, which is not NULL there.\<close>

definition bench_connect :: "env \<Rightarrow> rai_qp \<Rightarrow> bench_config \<Rightarrow> (trace, int \<times> rai_qp) state" where
  "bench_connect E qp cfg =
     (if bc_conn cfg = RAI_CONN_VERBS then rai_verbs_connect_qp E qp (bc_server_ip cfg) (bc_port cfg)
      else rai_cm_connect_qp E qp (the (bc_server_ip cfg)) (bc_port cfg))"

section \<open>The command line as a list of settings\<close>

text \<open>
  What a command line means, without a parser: a list of settings, each with the words it is
  written with and the change it makes. The last one of a kind counts.
\<close>

datatype setting = Server string | Csv | Csv_header | Valued string string

fun words :: "setting \<Rightarrow> string list" where
  "words (Server s) = [s]"
| "words Csv = [''--csv'']"
| "words Csv_header = [''--csv-header'']"
| "words (Valued opt val) = [opt, val]"

fun setting_ok :: "setting \<Rightarrow> bool" where
  "setting_ok (Server s) = positional s"
| "setting_ok (Valued opt val) = (opt \<in> {''--port'', ''--iters'', ''--size'', ''--depth''} \<or>
     opt = ''--conn'' \<and> val \<in> {''cm'', ''verbs''})"
| "setting_ok _ = True"

fun apply_setting :: "setting \<Rightarrow> bench_config \<Rightarrow> bench_config" where
  "apply_setting (Server s) cfg = cfg\<lparr>bc_server_ip := Some s\<rparr>"
| "apply_setting Csv cfg = cfg\<lparr>bc_csv := True\<rparr>"
| "apply_setting Csv_header cfg = cfg\<lparr>bc_csv_header := True\<rparr>"
| "apply_setting (Valued opt val) cfg = the (set_option opt val cfg)"

definition config_ok :: "bench_config \<Rightarrow> bool" where
  "config_ok cfg \<longleftrightarrow> 1 \<le> bc_port cfg \<and> bc_port cfg \<le> 65534 \<and> 1 \<le> bc_iters cfg \<and> 1 \<le> bc_size cfg \<and>
     1 \<le> bc_depth cfg \<and> bc_depth cfg \<le> 127"

lemma set_option_some:
  "(\<exists>c. set_option opt val cfg = Some c) \<longleftrightarrow> setting_ok (Valued opt val)"
  by (auto simp: set_option_def)

lemma valued_dashed: "setting_ok (Valued opt val) \<Longrightarrow> \<not> positional opt \<and> opt \<noteq> ''--csv'' \<and> opt \<noteq> ''--csv-header''"
  by (auto simp: positional_def)

lemma dashed [simp]: "\<not> positional ''--csv''" "\<not> positional ''--csv-header''"
  by (simp_all add: positional_def)

lemma parse_settings:
  "\<forall>s \<in> set ss. setting_ok s \<Longrightarrow> parse_args (concat (map words ss)) cfg = (0, fold apply_setting ss cfg)"
proof (induction ss arbitrary: cfg)
  case (Cons s ss)
  have IH: "parse_args (concat (map words ss)) c = (0, fold apply_setting ss c)" for c
    using Cons.IH Cons.prems by simp
  show ?case
  proof (cases s)
    case (Valued opt val)
    then have ok: "setting_ok (Valued opt val)" using Cons.prems by simp
    then obtain c where c: "set_option opt val cfg = Some c" using set_option_some by blast
    with valued_dashed [OF ok] Valued IH show ?thesis by simp
  qed (use Cons.prems IH in auto)
qed simp

lemma parse_args_settings:
  assumes "parse_args args cfg = (0, cfg')"
  shows "\<exists>ss. (\<forall>s \<in> set ss. setting_ok s) \<and> args = concat (map words ss) \<and> cfg' = fold apply_setting ss cfg"
  using assms
proof (induction args cfg rule: parse_args.induct)
  case (2 opt rest cfg)
  note IH = 2
  have one: ?case if "setting_ok s" "words s @ args' = opt # rest" "parse_args args' (apply_setting s cfg) = (0, cfg')"
    "\<exists>ss. (\<forall>s \<in> set ss. setting_ok s) \<and> args' = concat (map words ss) \<and> cfg' = fold apply_setting ss (apply_setting s cfg)" for s args'
  proof -
    note h = that
    obtain ss where "\<forall>s \<in> set ss. setting_ok s" "args' = concat (map words ss)" "cfg' = fold apply_setting ss (apply_setting s cfg)"
      using h(4) by blast
    with h(1,2) show ?thesis by (intro exI [of _ "s # ss"]) auto
  qed
  consider "positional opt" | "\<not> positional opt" "opt = ''--csv''" | "\<not> positional opt" "opt = ''--csv-header''"
    | "\<not> positional opt" "opt \<noteq> ''--csv''" "opt \<noteq> ''--csv-header''" by blast
  then show ?case
  proof cases
    case 1
    then show ?thesis using IH by (intro one [of "Server opt" rest]) auto
  next
    case 2
    then show ?thesis using IH by (intro one [of Csv rest]) auto
  next
    case 3
    then show ?thesis using IH by (intro one [of Csv_header rest]) auto
  next
    case 4
    then obtain val rest' c where v: "rest = val # rest'" "set_option opt val cfg = Some c" "parse_args rest' c = (0, cfg')"
      using IH(5) by (auto split: list.splits option.splits)
    have ok: "setting_ok (Valued opt val)" using v(2) set_option_some by blast
    have "\<exists>ss. (\<forall>s \<in> set ss. setting_ok s) \<and> rest' = concat (map words ss) \<and> cfg' = fold apply_setting ss c"
      using IH(4) [OF 4(1-3) v(1,2,3)] by blast
    with v ok show ?thesis by (intro one [of "Valued opt val" rest']) auto
  qed
qed (simp add: exI [of _ "[]"])

section \<open>Properties\<close>

text \<open>
  The benchmarks' command line: an argument list is accepted exactly when it is a sequence of
  known options with their values (a positional argument names the server) and the settings it
  leaves, the last of each kind counting, are in range, so that the port of the second connection
  is a port too and the depth fits the work queues; the configuration is then exactly these
  settings.
\<close>

theorem bench_config_accepted:
  "bench_config_parse args cfg = (0, cfg') \<longleftrightarrow>
     (\<exists>ss. (\<forall>s \<in> set ss. setting_ok s) \<and> args = concat (map words ss) \<and> cfg' = fold apply_setting ss cfg \<and> config_ok cfg')"
proof -
  have "bench_config_parse args cfg = (0, cfg') \<longleftrightarrow> parse_args args cfg = (0, cfg') \<and> config_ok cfg'"
    by (cases "parse_args args cfg") (auto simp: bench_config_parse_def config_ok_def RAI_QP_MAX_WR_def not_less)
  also have "\<dots> \<longleftrightarrow> (\<exists>ss. (\<forall>s \<in> set ss. setting_ok s) \<and> args = concat (map words ss) \<and> cfg' = fold apply_setting ss cfg \<and> config_ok cfg')"
    (is "?L \<longleftrightarrow> ?R")
  proof
    show "?R" if "?L" using that parse_args_settings [of args cfg cfg'] by fast
    show "?L" if "?R" using that parse_settings [of _ cfg] by (elim exE conjE) simp
  qed
  finally show ?thesis .
qed

theorem bench_config_accepted_witness:
  "bench_config_parse [''10.0.0.1'', ''--depth'', ''8'', ''--conn'', ''verbs''] bench_config_init =
     (0, bench_config_init\<lparr>bc_server_ip := Some ''10.0.0.1'', bc_depth := 8, bc_conn := RAI_CONN_VERBS\<rparr>)"
proof -
  let ?ss = "[Server ''10.0.0.1'', Valued ''--depth'' ''8'', Valued ''--conn'' ''verbs'']"
  let ?c = "bench_config_init\<lparr>bc_server_ip := Some ''10.0.0.1'', bc_depth := 8, bc_conn := RAI_CONN_VERBS\<rparr>"
  have a: "atoi ''8'' = 8" by (simp add: atoi_def strtol_def is_space_def is_digit_def)
  have f: "fold apply_setting ?ss bench_config_init = ?c" by (simp add: set_option_def a)
  have "config_ok ?c" by (simp add: config_ok_def bench_config_init_def)
  moreover have "\<forall>s \<in> set ?ss. setting_ok s" by (simp add: positional_def)
  moreover have "concat (map words ?ss) = [''10.0.0.1'', ''--depth'', ''8'', ''--conn'', ''verbs'']" by simp
  ultimately show ?thesis
    by (intro bench_config_accepted [THEN iffD2] exI [of _ ?ss]) (simp_all only: f simp_thms)
qed

end
