(* ===== verification/Bench_Stats.thy ===== *)
theory Bench_Stats
  imports Prelude "HOL-Library.Multiset"
begin

text \<open>
  The statistics of the benchmarks (bench_utils.h, timing.h): the comparator they sort the
  samples with, the four figures of a latency report, elapsed time, and the samples array
  as the measuring loops fill it. Times are nanoseconds; their conversion to microseconds
  for printing is left out.
\<close>

section \<open>Definitions\<close>

definition kWarmup :: int where
  "kWarmup = 20"

definition time_elapsed_ns :: "u64 \<Rightarrow> u64 \<Rightarrow> u64" where
  "time_elapsed_ns start end' = (if start < end' then end' - start else 0)"

definition cmp_u64 :: "u64 \<Rightarrow> u64 \<Rightarrow> int" where
  "cmp_u64 x y = of_bool (y < x) - of_bool (x < y)"

record lat_stats =
  ls_min :: u64
  ls_median :: u64
  ls_p99 :: u64
  ls_max :: u64

text \<open>
  \<open>(int)((n - 1) * 0.99)\<close>. The constant is below 99/100 by less than a tenth of half a unit in the
  last place, so the rounded product is 99 (n - 1) / 100 where that is a whole number and is
  a hundredth or more away from every whole number elsewhere: its floor is the exact one.
\<close>

definition p99_index :: "int \<Rightarrow> int" where
  "p99_index n = 99 * (n - 1) div 100"

definition latency_stats :: "u64 list \<Rightarrow> int \<Rightarrow> lat_stats" where
  "latency_stats samples n =
     (if n \<le> 0 then \<lparr>ls_min = 0, ls_median = 0, ls_p99 = 0, ls_max = 0\<rparr>
      else \<lparr>ls_min = samples ! 0, ls_median = samples ! nat ((n - 1) div 2),
            ls_p99 = samples ! nat (p99_index n), ls_max = samples ! nat (n - 1)\<rparr>)"

text \<open>
  What \<open>qsort\<close> promises for a comparator: the same elements, in an order the comparator does not
  reject.
\<close>

definition sorted_by :: "('a \<Rightarrow> 'a \<Rightarrow> int) \<Rightarrow> 'a list \<Rightarrow> 'a list \<Rightarrow> bool" where
  "sorted_by cmp xs ys \<longleftrightarrow> mset ys = mset xs \<and> (\<forall>i j. i < j \<longrightarrow> j < length ys \<longrightarrow> cmp (ys ! i) (ys ! j) \<le> 0)"

section \<open>Sorting\<close>

lemma cmp_u64_le: "cmp_u64 x y \<le> 0 \<longleftrightarrow> x \<le> y"
  by (auto simp: cmp_u64_def)

lemma sorted_by_sort: "sorted_by cmp_u64 xs ys \<longleftrightarrow> ys = sort xs"
proof
  assume s: "sorted_by cmp_u64 xs ys"
  then have "sorted ys" by (auto simp: sorted_by_def cmp_u64_le sorted_iff_nth_mono_less)
  with s show "ys = sort xs" by (metis properties_for_sort sorted_by_def)
next
  assume "ys = sort xs"
  then show "sorted_by cmp_u64 xs ys"
    by (auto simp: sorted_by_def cmp_u64_le intro: sorted_nth_mono)
qed

lemma sorted_hd_Min: "sorted xs \<Longrightarrow> xs \<noteq> [] \<Longrightarrow> xs ! 0 = Min (set xs)"
  by (cases xs) (auto intro!: Min_eqI [symmetric])

lemma sorted_last_Max:
  fixes xs :: "u64 list"
  assumes "sorted xs" and "xs \<noteq> []"
  shows "xs ! (length xs - 1) = Max (set xs)"
proof (rule Max_eqI [symmetric])
  show "y \<le> xs ! (length xs - 1)" if "y \<in> set xs" for y
    using that assms by (auto simp: in_set_conv_nth intro: sorted_nth_mono)
qed (use assms(2) in auto)

text \<open>In a sorted list at least \<open>i + 1\<close> elements are no larger than the one at \<open>i\<close>.\<close>

lemma sorted_rank:
  assumes "sorted xs" and "i < length xs"
  shows "Suc i \<le> length (filter (\<lambda>x. x \<le> xs ! i) xs)"
proof -
  have "filter (\<lambda>x. x \<le> xs ! i) (take (Suc i) xs) = take (Suc i) xs"
    using assms sorted_nth_mono [OF assms(1), of _ i] by (auto simp: filter_id_conv in_set_conv_nth)
  then have "length (filter (\<lambda>x. x \<le> xs ! i) (take (Suc i) xs @ drop (Suc i) xs)) \<ge> Suc i"
    using assms(2) by (simp only: filter_append length_append length_take)
  then show ?thesis by simp
qed

lemma elapsed_exact: "unat (time_elapsed_ns a b) = unat b - unat a"
  using unat_sub [of a b] by (cases "a < b") (auto simp: time_elapsed_ns_def word_less_nat_alt less_imp_le)

section \<open>Properties\<close>

text \<open>
  The latency report is what it says: for n samples sorted with the benchmarks' comparator, the
  report reads only inside the array, its first and last figures are the minimum and the maximum,
  the four are in order, at least half of the samples (rounded up) are no larger than the median,
  and more than 99 percent of n - 1 are no larger than the p99 figure.
\<close>

theorem latency_report:
  assumes "n = int (length xs)" and "0 < n" and "sorted_by cmp_u64 xs ys"
  shows "p99_index n < n \<and> ls_min (latency_stats ys n) = Min (set xs) \<and> ls_max (latency_stats ys n) = Max (set xs) \<and>
    ls_min (latency_stats ys n) \<le> ls_median (latency_stats ys n) \<and>
    ls_median (latency_stats ys n) \<le> ls_p99 (latency_stats ys n) \<and>
    ls_p99 (latency_stats ys n) \<le> ls_max (latency_stats ys n) \<and>
    n \<le> 2 * int (length (filter (\<lambda>x. x \<le> ls_median (latency_stats ys n)) xs)) \<and>
    99 * (n - 1) < 100 * int (length (filter (\<lambda>x. x \<le> ls_p99 (latency_stats ys n)) xs))"
proof -
  have ys: "ys = sort xs" using assms(3) by (simp add: sorted_by_sort)
  then have so: "sorted ys" and l: "length ys = length xs" and st: "set ys = set xs" by simp_all
  have f: "length (filter P xs) = length (filter P ys)" for P
    using ys by (metis mset_filter mset_sort size_mset)
  define k where "k = nat (p99_index n)"
  define h where "h = nat ((n - 1) div 2)"
  have p: "0 \<le> p99_index n" "p99_index n < n" "(n - 1) div 2 \<le> p99_index n" "0 \<le> (n - 1) div 2"
    using assms(2) by (auto simp: p99_index_def)
  have k: "k < length ys" and h: "h \<le> k" using p assms(1) l by (auto simp: k_def h_def)
  have rk: "int (Suc i) \<le> int (length (filter (\<lambda>x. x \<le> ys ! i) xs))" if "i < length ys" for i
    unfolding f of_nat_le_iff by (rule sorted_rank [OF so that])
  have "n \<le> 2 * int (Suc h)" "99 * (n - 1) < 100 * int (Suc k)"
    using p(1,4) by (simp_all add: k_def h_def p99_index_def)
  with rk [of h] rk [of k] k h
  have r: "n \<le> 2 * int (length (filter (\<lambda>x. x \<le> ys ! h) xs))"
      "99 * (n - 1) < 100 * int (length (filter (\<lambda>x. x \<le> ys ! k) xs))" by simp_all
  have ne: "ys \<noteq> []" using k by auto
  have "nat (n - 1) = length ys - 1" using assms(1) l by linarith
  then have e: "ls_min (latency_stats ys n) = ys ! 0" "ls_median (latency_stats ys n) = ys ! h"
      "ls_p99 (latency_stats ys n) = ys ! k" "ls_max (latency_stats ys n) = ys ! (length ys - 1)"
    using assms(2) by (simp_all add: latency_stats_def k_def h_def)
  show ?thesis
    unfolding e using sorted_hd_Min [OF so ne] sorted_last_Max [OF so ne] st p(2) r
      sorted_nth_mono [OF so, of 0 h] sorted_nth_mono [OF so, of h k] sorted_nth_mono [OF so, of k "length ys - 1"] h k
    by simp
qed

theorem latency_report_witness:
  "ls_median (latency_stats [1, 2, 5] 3) = 2 \<and> ls_p99 (latency_stats [1, 2, 5] 3) \<le> ls_max (latency_stats [1, 2, 5] 3) \<and>
     ls_max (latency_stats [1, 2, 5] 3) = Max (set [5, 1, 2 :: u64])"
proof -
  have "sort [5, 1, 2 :: u64] = [1, 2, 5]" by (simp add: word_le_nat_alt)
  then have "sorted_by cmp_u64 [5, 1, 2] [1, 2, 5]" by (simp only: sorted_by_sort)
  from latency_report [OF _ _ this, of 3] show ?thesis by (simp add: latency_stats_def)
qed

end
