(* ===== verification/Stmts.thy ===== *)
theory Stmts
  imports Verbs_Ops
begin

text \<open>
  The main programs as statements: a statement runs on the program's variables and the history,
  returns 0 to go on and anything else to leave (a \<open>goto out\<close>, or a return out of a scope), and has
  no result where it waits forever. Sequences, loops and waiting loops are built from these, with
  the two facts the programs' proofs use of them: what every statement preserves the whole
  preserves, and where every wait ends the whole ends.
\<close>

section \<open>Definitions\<close>

type_synonym 'v stmt = "'v \<Rightarrow> trace \<Rightarrow> ((int \<times> 'v) \<times> trace) option"

definition skip :: "'v stmt" where
  "skip v t = Some ((0, v), t)"

definition then_do :: "'v stmt \<Rightarrow> 'v stmt \<Rightarrow> 'v stmt" where
  "then_do f g v t = (case f v t of None \<Rightarrow> None
     | Some ((r, v'), u) \<Rightarrow> if r \<noteq> 0 then Some ((r, v'), u) else g v' u)"

definition block :: "'v stmt list \<Rightarrow> 'v stmt" where
  "block ss = foldr then_do ss skip"

text \<open>\<open>for (i : is) f(i)\<close>, left at the first failure.\<close>

primrec for_each :: "('i \<Rightarrow> 'v stmt) \<Rightarrow> 'i list \<Rightarrow> 'v stmt" where
  "for_each f [] = skip"
| "for_each f (i # is) = then_do (f i) (for_each f is)"

text \<open>A call that always returns: its code, and the variables after it.\<close>

definition run_stmt :: "('v \<Rightarrow> (trace, int \<times> 'v) state) \<Rightarrow> 'v stmt" where
  "run_stmt m v t = Some (run_state (m v) t)"

text \<open>A call that changes no variable.\<close>

definition do_call :: "('v \<Rightarrow> (trace, int) state) \<Rightarrow> 'v stmt" where
  "do_call m v t = (case run_state (m v) t of (r, u) \<Rightarrow> Some ((r, v), u))"

text \<open>A call whose return value is not looked at.\<close>

definition do_event :: "env \<Rightarrow> ('v \<Rightarrow> call) \<Rightarrow> 'v stmt" where
  "do_event E c v t = Some ((0, v), (c v, e_ret E t (c v), e_data E t (c v)) # t)"

definition set_vars :: "('v \<Rightarrow> 'v) \<Rightarrow> 'v stmt" where
  "set_vars f v t = Some ((0, f v), t)"

text \<open>\<open>time_now_ns()\<close>, kept in a variable.\<close>

definition do_clock :: "env \<Rightarrow> (u64 \<Rightarrow> 'v \<Rightarrow> 'v) \<Rightarrow> 'v stmt" where
  "do_clock E f v t = Some ((0, f (word_of_int (e_ret E t Clock_gettime)) v),
     (Clock_gettime, e_ret E t Clock_gettime, e_data E t Clock_gettime) # t)"

text \<open>A loop that watches a place in memory until \<open>seen\<close> holds of it.\<close>

partial_function (option) spin :: "env \<Rightarrow> u64 \<Rightarrow> (int \<Rightarrow> bool) \<Rightarrow> trace \<Rightarrow> trace option" where
  "spin E a seen t =
     (let n = e_ret E t (Load a); t' = (Load a, n, e_data E t (Load a)) # t
      in if seen n then Some t' else spin E a seen t')"

definition do_spin :: "env \<Rightarrow> ('v \<Rightarrow> u64) \<Rightarrow> (int \<Rightarrow> bool) \<Rightarrow> 'v stmt" where
  "do_spin E a P v t = map_option (\<lambda>u. ((0, v), u)) (spin E (a v) P t)"

section \<open>Running\<close>

lemma block_Nil [simp]: "block [] = skip"
  by (simp add: block_def)

lemma block_Cons [simp]: "block (s # ss) = then_do s (block ss)"
  by (simp add: block_def)

lemma then_do_some:
  "then_do f g v t = Some ((r, v'), u) \<longleftrightarrow>
     (\<exists>x w s. f v t = Some ((x, w), s) \<and> (if x \<noteq> 0 then r = x \<and> v' = w \<and> u = s else g w s = Some ((r, v'), u)))"
  by (auto simp: then_do_def split: option.split)

lemma skip_some [simp]: "skip v t = Some ((r, v'), u) \<longleftrightarrow> r = 0 \<and> v' = v \<and> u = t"
  by (auto simp: skip_def)

subsection \<open>What statements preserve\<close>

named_theorems preserves_intros

definition preserves :: "('v \<Rightarrow> trace \<Rightarrow> bool) \<Rightarrow> 'v stmt \<Rightarrow> bool" where
  "preserves I f \<longleftrightarrow> (\<forall>v t r v' u. I v t \<longrightarrow> f v t = Some ((r, v'), u) \<longrightarrow> I v' u)"

lemma preservesI: "(\<And>v t r v' u. I v t \<Longrightarrow> f v t = Some ((r, v'), u) \<Longrightarrow> I v' u) \<Longrightarrow> preserves I f"
  by (auto simp: preserves_def)

lemma preservesD: "preserves I f \<Longrightarrow> I v t \<Longrightarrow> f v t = Some ((r, v'), u) \<Longrightarrow> I v' u"
  by (auto simp: preserves_def)

lemma preserves_skip [preserves_intros]: "preserves I skip"
  by (rule preservesI) simp

lemma preserves_then [preserves_intros]: "preserves I f \<Longrightarrow> preserves I g \<Longrightarrow> preserves I (then_do f g)"
  by (rule preservesI) (auto simp: then_do_some split: if_splits dest: preservesD)

lemma preserves_block: "(\<And>s. s \<in> set ss \<Longrightarrow> preserves I s) \<Longrightarrow> preserves I (block ss)"
  by (induction ss) (auto intro!: preserves_intros)

lemma preserves_for [preserves_intros]: "(\<And>i. i \<in> set is \<Longrightarrow> preserves I (f i)) \<Longrightarrow> preserves I (for_each f is)"
  by (induction "is") (auto intro!: preserves_intros)

lemma preserves_if [preserves_intros]: "preserves I f \<Longrightarrow> preserves I g \<Longrightarrow> preserves I (if b then f else g)"
  by simp

lemma preserves_set [preserves_intros]: "(\<And>v t. I v t \<Longrightarrow> I (f v) t) \<Longrightarrow> preserves I (set_vars f)"
  by (rule preservesI) (auto simp: set_vars_def)

lemma preserves_call: "(\<And>v t r u. I v t \<Longrightarrow> run_state (m v) t = (r, u) \<Longrightarrow> I v u) \<Longrightarrow> preserves I (do_call m)"
  by (rule preservesI) (auto simp: do_call_def split: prod.splits)

lemma preserves_run: "(\<And>v t r v' u. I v t \<Longrightarrow> run_state (m v) t = ((r, v'), u) \<Longrightarrow> I v' u) \<Longrightarrow> preserves I (run_stmt m)"
  by (rule preservesI) (auto simp: run_stmt_def)

lemma preserves_event: "(\<And>v t. I v t \<Longrightarrow> I v ((c v, e_ret E t (c v), e_data E t (c v)) # t)) \<Longrightarrow> preserves I (do_event E c)"
  by (rule preservesI) (auto simp: do_event_def)

lemma preserves_clock:
  "(\<And>v t x n d. I v t \<Longrightarrow> I (f x v) ((Clock_gettime, n, d) # t)) \<Longrightarrow> preserves I (do_clock E f)"
  by (rule preservesI) (auto simp: do_clock_def)

lemma spin_invariant:
  assumes "spin E a seen t = Some u" and "J t" and "\<And>t n d. J t \<Longrightarrow> J ((Load a, n, d) # t)"
  shows "J u"
proof -
  have "(\<forall>t n d. J t \<longrightarrow> J ((Load a, n, d) # t)) \<longrightarrow> J t \<longrightarrow> J u"
    by (rule spin.raw_induct [OF _ assms(1)]) (auto simp: Let_def split: if_splits)
  with assms(2,3) show ?thesis by blast
qed

lemma preserves_spin:
  "(\<And>v t n d. I v t \<Longrightarrow> I v ((Load (a v), n, d) # t)) \<Longrightarrow> preserves I (do_spin E a P)"
proof (rule preservesI)
  fix v t r v' u
  assume l: "\<And>v t n d. I v t \<Longrightarrow> I v ((Load (a v), n, d) # t)" and i: "I v t" and s: "do_spin E a P v t = Some ((r, v'), u)"
  then have "v' = v" "spin E (a v) P t = Some u" by (auto simp: do_spin_def)
  with spin_invariant [of E "a v" P t u "I v"] l i show "I v' u" by simp
qed

text \<open>From \<open>I\<close> to \<open>J\<close> where the statement goes on, and to \<open>K\<close> where it leaves.\<close>

definition triple :: "('v \<Rightarrow> trace \<Rightarrow> bool) \<Rightarrow> 'v stmt \<Rightarrow> ('v \<Rightarrow> trace \<Rightarrow> bool) \<Rightarrow> ('v \<Rightarrow> trace \<Rightarrow> bool) \<Rightarrow> bool" where
  "triple I f J K \<longleftrightarrow> (\<forall>v t r v' u. I v t \<longrightarrow> f v t = Some ((r, v'), u) \<longrightarrow> (if r = 0 then J v' u else K v' u))"

lemma tripleI:
  "(\<And>v t r v' u. I v t \<Longrightarrow> f v t = Some ((r, v'), u) \<Longrightarrow> if r = 0 then J v' u else K v' u) \<Longrightarrow> triple I f J K"
  by (auto simp: triple_def)

lemma tripleD: "triple I f J K \<Longrightarrow> I v t \<Longrightarrow> f v t = Some ((r, v'), u) \<Longrightarrow> if r = 0 then J v' u else K v' u"
  by (auto simp: triple_def)

lemma triple_then:
  assumes "triple I f J K" and "triple J g L K"
  shows "triple I (then_do f g) L K"
  using assms by (auto simp: triple_def then_do_some split: if_splits) blast+

lemma triple_skip: "triple I skip I K"
  by (simp add: triple_def)

lemma triple_if: "(b \<Longrightarrow> triple I f J K) \<Longrightarrow> (\<not> b \<Longrightarrow> triple I g J K) \<Longrightarrow> triple I (if b then f else g) J K"
  by simp

lemma triple_preserves: "preserves I f \<Longrightarrow> (\<And>v t. I v t \<Longrightarrow> K v t) \<Longrightarrow> triple I f I K"
  by (auto simp: triple_def preserves_def)

lemma triple_weaken: "triple I f J K \<Longrightarrow> (\<And>v t. J v t \<Longrightarrow> J' v t) \<Longrightarrow> triple I f J' K"
  by (auto simp: triple_def)

lemma triple_leave: "triple I f J K \<Longrightarrow> (\<And>v t. K v t \<Longrightarrow> K' v t) \<Longrightarrow> triple I f J K'"
  by (auto simp: triple_def)

lemma triple_for:
  "(\<And>i. i \<in> set is \<Longrightarrow> triple I (f i) I K) \<Longrightarrow> triple I (for_each f is) I K"
  by (induction "is") (auto intro: triple_then triple_skip)

text \<open>A counted loop, with what holds before round \<open>i\<close>.\<close>

lemma triple_upto:
  assumes "\<And>i. a \<le> i \<Longrightarrow> i \<le> b \<Longrightarrow> triple (I i) (f i) (I (i + 1)) K" and "a \<le> b + 1"
  shows "triple (I a) (for_each f [a..b]) (I (b + 1)) K"
  using assms
proof (induction "nat (b + 1 - a)" arbitrary: a)
  case 0
  then have "a = b + 1" by simp
  then show ?case by (simp add: triple_skip)
next
  case (Suc n)
  then have ab: "a \<le> b" by linarith
  have "triple (I (a + 1)) (for_each f [a + 1..b]) (I (b + 1)) K"
    by (rule Suc.hyps(1)) (use Suc.hyps(2) Suc.prems ab in auto)
  with Suc.prems(1) [of a] ab have "triple (I a) (then_do (f a) (for_each f [a + 1..b])) (I (b + 1)) K"
    by (intro triple_then) auto
  then show ?case using ab by (simp add: upto_rec1)
qed

lemma triple_call:
  "(\<And>v t r u. I v t \<Longrightarrow> run_state (m v) t = (r, u) \<Longrightarrow> if r = 0 then J v u else K v u) \<Longrightarrow> triple I (do_call m) J K"
  by (rule tripleI) (auto simp: do_call_def split: prod.splits)

subsection \<open>Where statements return\<close>

definition returns :: "'v stmt \<Rightarrow> bool" where
  "returns f \<longleftrightarrow> (\<forall>v t. f v t \<noteq> None)"

lemma returns_then: "returns f \<Longrightarrow> returns g \<Longrightarrow> returns (then_do f g)"
  by (auto simp: returns_def then_do_def split: option.split)

lemma returns_skip: "returns skip"
  by (simp add: returns_def skip_def)

lemma returns_for: "(\<And>i. returns (f i)) \<Longrightarrow> returns (for_each f is)"
  by (induction "is") (auto intro: returns_then returns_skip)

lemma returns_simple: "returns (do_call m)" "returns (run_stmt m')" "returns (do_event E c)" "returns (set_vars f)" "returns (do_clock E g)"
  by (auto simp: returns_def do_call_def run_stmt_def do_event_def set_vars_def do_clock_def split: prod.splits)

definition returns_from :: "('v \<Rightarrow> trace \<Rightarrow> bool) \<Rightarrow> 'v stmt \<Rightarrow> bool" where
  "returns_from I f \<longleftrightarrow> (\<forall>v t. I v t \<longrightarrow> f v t \<noteq> None)"

lemma returns_from_all: "returns f \<Longrightarrow> returns_from I f"
  by (simp add: returns_def returns_from_def)

lemma returns_from_then:
  assumes "returns_from I f" and "triple I f J K" and "returns_from J g"
  shows "returns_from I (then_do f g)"
  unfolding returns_from_def
proof (intro allI impI)
  fix v t assume i: "I v t"
  then obtain r v' u where f: "f v t = Some ((r, v'), u)" using assms(1) unfolding returns_from_def by (metis not_Some_eq surj_pair)
  with tripleD [OF assms(2) i f] assms(3) show "then_do f g v t \<noteq> None" by (auto simp: then_do_def returns_from_def)
qed

subsection \<open>Both at once\<close>

text \<open>From \<open>I\<close> the statement returns, in \<open>J\<close> where it goes on and in \<open>K\<close> where it leaves.\<close>

definition reaches :: "('v \<Rightarrow> trace \<Rightarrow> bool) \<Rightarrow> 'v stmt \<Rightarrow> ('v \<Rightarrow> trace \<Rightarrow> bool) \<Rightarrow> ('v \<Rightarrow> trace \<Rightarrow> bool) \<Rightarrow> bool" where
  "reaches I f J K \<longleftrightarrow> (\<forall>v t. I v t \<longrightarrow> (\<exists>r v' u. f v t = Some ((r, v'), u) \<and> (if r = 0 then J v' u else K v' u)))"

lemma reachesI: "triple I f J K \<Longrightarrow> returns_from I f \<Longrightarrow> reaches I f J K"
  unfolding reaches_def triple_def returns_from_def by (metis option.exhaust prod.collapse)

lemma reachesD:
  assumes "reaches I f J K" and "I v t"
  obtains r v' u where "f v t = Some ((r, v'), u)" "if r = 0 then J v' u else K v' u"
  using assms unfolding reaches_def by blast

lemma reaches_skip: "reaches I skip I K"
  by (simp add: reaches_def skip_def)

lemma reaches_then:
  assumes "reaches I f J K" and "reaches J g L K"
  shows "reaches I (then_do f g) L K"
  unfolding reaches_def
proof (intro allI impI)
  fix v t assume "I v t"
  with assms(1) obtain x w s where f: "f v t = Some ((x, w), s)" "if x = 0 then J w s else K w s" by (rule reachesD)
  show "\<exists>r v' u. then_do f g v t = Some ((r, v'), u) \<and> (if r = 0 then L v' u else K v' u)"
  proof (cases "x = 0")
    case True
    with f assms(2) show ?thesis unfolding reaches_def by (simp add: then_do_def)
  qed (use f in \<open>simp add: then_do_def\<close>)
qed

lemma reaches_upto:
  assumes "\<And>i. a \<le> i \<Longrightarrow> i \<le> b \<Longrightarrow> reaches (I i) (f i) (I (i + 1)) K" and "a \<le> b + 1"
  shows "reaches (I a) (for_each f [a..b]) (I (b + 1)) K"
  using assms
proof (induction "nat (b + 1 - a)" arbitrary: a)
  case 0
  then have "a = b + 1" by simp
  then show ?case by (simp add: reaches_skip)
next
  case (Suc n)
  then have ab: "a \<le> b" by linarith
  have "reaches (I (a + 1)) (for_each f [a + 1..b]) (I (b + 1)) K"
    by (rule Suc.hyps(1)) (use Suc.hyps(2) Suc.prems ab in auto)
  with Suc.prems(1) [of a] ab have "reaches (I a) (then_do (f a) (for_each f [a + 1..b])) (I (b + 1)) K"
    by (intro reaches_then) auto
  then show ?case using ab by (simp add: upto_rec1)
qed

end
