(* ===== verification/Control.thy ===== *)
theory Control
  imports Cm_Connect
begin

text \<open>
  Setting a connection up and tearing it down never touches the data path: whatever these functions
  do, they post no work request, poll no completion, access no memory the network card reads or
  writes and read no clock. So what is outstanding on the queue pair is the programs' own doing.
\<close>

section \<open>Definitions\<close>

fun data_call :: "call \<Rightarrow> bool" where
  "data_call (Post_send q w) = True"
| "data_call (Post_recv q i g) = True"
| "data_call (Poll_cq q) = True"
| "data_call (Poll_cq_batch q n) = True"
| "data_call (Load a) = True"
| "data_call (Store a bs) = True"
| "data_call (Memset a x n) = True"
| "data_call Clock_gettime = True"
| "data_call c = False"

text \<open>What a run added to the history: calls of a given kind only.\<close>

definition adds :: "(call \<Rightarrow> bool) \<Rightarrow> trace \<Rightarrow> trace \<Rightarrow> bool" where
  "adds P t u \<longleftrightarrow> (\<exists>s. u = s @ t \<and> (\<forall>e \<in> set s. P (fst e)))"

definition only :: "(call \<Rightarrow> bool) \<Rightarrow> (trace, 'a) state \<Rightarrow> bool" where
  "only P m \<longleftrightarrow> (\<forall>t. adds P t (snd (run_state m t)))"

abbreviation adds_control :: "trace \<Rightarrow> trace \<Rightarrow> bool" where
  "adds_control \<equiv> adds (\<lambda>c. \<not> data_call c)"

abbreviation control :: "(trace, 'a) state \<Rightarrow> bool" where
  "control \<equiv> only (\<lambda>c. \<not> data_call c)"

section \<open>Composing\<close>

lemma adds_refl [simp]: "adds P t t"
  by (simp add: adds_def)

lemma adds_trans: "adds P t u \<Longrightarrow> adds P u v \<Longrightarrow> adds P t v"
  unfolding adds_def by fastforce

lemma adds_call: "P c \<Longrightarrow> adds P t ((c, r, d) # t)"
  by (auto simp: adds_def)

lemma onlyD: "only P m \<Longrightarrow> run_state m t = (x, u) \<Longrightarrow> adds P t u"
  by (auto simp: only_def dest: spec [of _ t])

lemma only_ret: "only P (ret x)"
  by (simp add: only_def)

lemma only_look: "only P (look f)"
  by (simp add: only_def run_look)

lemma only_call: "P c \<Longrightarrow> only P (exec_call E c)"
  by (simp add: only_def run_call adds_call)

lemma only_bind: "only P m \<Longrightarrow> (\<And>x. only P (f x)) \<Longrightarrow> only P (State_Monad.bind m f)"
  unfolding only_def run_bind by (simp add: case_prod_beta) (blast intro: adds_trans)

lemma only_if: "(b \<Longrightarrow> only P m) \<Longrightarrow> (\<not> b \<Longrightarrow> only P n) \<Longrightarrow> only P (if b then m else n)"
  by simp

lemma only_option: "only P m \<Longrightarrow> (\<And>x. only P (f x)) \<Longrightarrow> only P (case o' of None \<Rightarrow> m | Some x \<Rightarrow> f x)"
  by (cases o') simp_all

lemma only_pair: "(\<And>a b. only P (f a b)) \<Longrightarrow> only P (case p of (a, b) \<Rightarrow> f a b)"
  by (cases p) simp

lemma only_drop: "P c \<Longrightarrow> only P (drop_if E b c)"
  by (simp add: only_def run_drop_if adds_call)

lemma only_send: "(\<And>xs. P (Send fd xs)) \<Longrightarrow> only P (send_all E fd buf)"
proof -
  assume p: "\<And>xs. P (Send fd xs)"
  have "send_loop E fd buf k t = (r, u) \<Longrightarrow> adds P t u" for k t r u
    using p
  proof (induction E fd buf k t rule: send_loop.induct)
    case (1 E fd buf k t)
    show ?case
      using 1(1) [OF _ refl refl refl] 1(2,3) unfolding send_loop.simps [of E fd buf k t]
      by (auto simp: Let_def adds_call split: if_splits intro: adds_trans [OF adds_call, rotated])
  qed
  then show ?thesis by (auto simp: only_def run_send_all) (metis prod.collapse)
qed

lemma only_recv: "(\<And>n. P (Recv fd n)) \<Longrightarrow> only P (recv_all E fd buf n)"
proof -
  assume p: "\<And>n. P (Recv fd n)"
  have "recv_loop E fd n buf k t = ((r, b), u) \<Longrightarrow> adds P t u" for k t r b u
    using p
  proof (induction E fd n buf k t rule: recv_loop.induct)
    case (1 E fd n buf k t)
    show ?case
      using 1(1) [OF _ refl refl refl] 1(2,3) unfolding recv_loop.simps [of E fd n buf k t]
      by (auto simp: Let_def adds_call split: if_splits intro: adds_trans [OF adds_call, rotated])
  qed
  then show ?thesis by (auto simp: only_def run_recv_all) (metis prod.collapse)
qed

lemmas only_intros = only_ret only_look only_bind only_if only_option only_pair only_drop only_send only_recv only_call

section \<open>The functions of phase1_verbs\<close>

lemma control_oob:
  "control (rai_oob_listen E port fd)" "control (rai_oob_accept E fd qp)" "control (rai_oob_connect E qp ip port)"
  unfolding rai_oob_listen_def rai_oob_accept_def rai_oob_connect_def Let_def by (intro only_intros; simp)+

lemma control_mr: "control (rai_mr_reg E qp mr n)" "control (rai_mr_reg_external E qp mr a n)" "control (rai_mr_dereg E mr)"
  unfolding rai_mr_reg_def rai_mr_reg_external_def rai_mr_dereg_def Let_def by (intro only_intros; simp)+

lemma control_destroy: "control (rai_qp_destroy E qp)"
  unfolding rai_qp_destroy_def qp_destroy_verbs_def qp_destroy_cm_def by (intro only_intros; simp)

lemma control_gid: "control (gid_scan E ctx port is a b)"
proof (induction "is" arbitrary: a b)
  case (Cons i "is")
  show ?case unfolding gid_scan.simps by (intro only_intros Cons.IH) simp
qed (simp add: only_ret)

lemma control_devices: "control (device_scan E ds)"
proof (induction ds)
  case (Cons d ds)
  show ?case unfolding device_scan.simps by (intro only_intros Cons.IH) simp_all
qed (simp add: only_ret)

lemma control_build: "control (build_qp_verbs E q)"
  unfolding build_qp_verbs_def open_device_def find_roce_v2_gid_def build_qp_objects_def Let_def
  by (intro only_intros control_gid control_devices; simp)

lemma control_verbs:
  "control (rai_verbs_listen_qp E q port fd)" "control (rai_verbs_accept_qp E q)" "control (rai_verbs_connect_qp E q ip port)"
  unfolding rai_verbs_listen_qp_def rai_verbs_accept_qp_def rai_verbs_connect_qp_def verbs_listen_out_def second_listener_def
    qp_to_rts_def Let_def
  by (intro only_intros control_oob control_build control_destroy; simp)+

lemma control_cm_parts:
  "control (build_qp_from_cm E q i)" "control (cm_wait_event E ec ev)" "control (cm_expect E ec ev)"
  "control (cm_listen_out E r i q fd)" "control (cm_connect_out E r q)" "control (second_listener E port fd)"
  "control (cm_resolve E ec i ip port)" "control (cm_finish E ec i)"
  unfolding build_qp_from_cm_def cm_wait_event_def cm_expect_def cm_listen_out_def cm_connect_out_def second_listener_def
    cm_resolve_def cm_finish_def Let_def
  by (intro only_intros control_oob control_destroy; simp)+

lemma control_cm:
  "control (rai_cm_listen_qp E q port fd)" "control (rai_cm_accept_qp E q)" "control (rai_cm_connect_qp E q ip' port)"
  unfolding rai_cm_listen_qp_def rai_cm_accept_qp_def rai_cm_connect_qp_def Let_def
  by (intro only_intros control_cm_parts; simp)+

end
