(* ===== verification/Frames.thy ===== *)
theory Frames
  imports Stmts Control Rdma_Transport Tcp_Transport
begin

text \<open>
  What the operations of an open connection leave alone: transfers, polls and exchanges over the
  out-of-band channel acquire nothing and release nothing, so what a program holds is settled where
  it connects, registers and allocates.
\<close>

section \<open>Definitions\<close>

text \<open>A call that neither acquires nor releases, nor listens.\<close>

fun silent :: "call \<Rightarrow> bool" where
  "silent (Load a) = True"
| "silent (Store a bs) = True"
| "silent (Memset a x n) = True"
| "silent Clock_gettime = True"
| "silent (Poll_cq q) = True"
| "silent (Poll_cq_batch q n) = True"
| "silent (Post_send q w) = True"
| "silent (Post_recv q i g) = True"
| "silent (Send fd xs) = True"
| "silent (Recv fd n) = True"
| "silent (Inet_pton s) = True"
| "silent (Connect fd s p) = True"
| "silent Sysconf_pagesize = True"
| "silent c = False"

text \<open>The block behind a pointer that starts out NULL.\<close>

definition block_held :: "u64 option \<Rightarrow> res multiset" where
  "block_held b = (case b of None \<Rightarrow> {#} | Some p \<Rightarrow> {#Memory p#})"

section \<open>Composing\<close>

lemma silent_live [simp]: "silent c \<Longrightarrow> live E ((c, r, d) # t) = live E t"
  by (cases c) simp_all

lemma silent_listeners [simp]: "silent c \<Longrightarrow> listeners ((c, r, d) # t) = listeners t"
  by (cases c) simp_all

lemma adds_silent: "adds silent t u \<Longrightarrow> live E u = live E t \<and> listeners u = listeners t"
proof -
  assume "adds silent t u"
  then obtain s where s: "u = s @ t" "\<forall>e \<in> set s. silent (fst e)" by (auto simp: adds_def)
  from s(2) have "live E (s @ t) = live E t \<and> listeners (s @ t) = listeners t"
  proof (induction s)
    case (Cons e s)
    obtain c r d where e: "e = (c, r, d)" by (cases e)
    then have "silent c" using Cons.prems by simp
    with Cons e show ?case by (simp del: live.simps listeners.simps)
  qed simp
  with s(1) show ?thesis by simp
qed

lemmas quietD = adds_silent [OF onlyD]

lemma poll_invariant:
  assumes "poll_loop E cq t = Some (x, u)" and "J t" and "\<And>t n d. J t \<Longrightarrow> J ((Poll_cq cq, n, d) # t)"
  shows "J u"
proof -
  have "(\<forall>t n d. J t \<longrightarrow> J ((Poll_cq cq, n, d) # t)) \<longrightarrow> J t \<longrightarrow> J (snd (x, u))"
    by (rule poll_loop.raw_induct [OF _ assms(1)]) (auto simp: Let_def split: if_splits)
  with assms(2,3) show ?thesis by simp
qed

lemma run_post_cases:
  "run_state (rai_post_recv E qp mr len i off) t = (r, u) \<Longrightarrow> u = t \<or> (\<exists>c x d. silent c \<and> u = (c, x, d) # t)"
  "run_state (rai_post_send E qp mr len i off) t = (r, u) \<Longrightarrow> u = t \<or> (\<exists>c x d. silent c \<and> u = (c, x, d) # t)"
  "run_state (rai_post_write E qp mr len fl ra rk i off) t = (r, u) \<Longrightarrow> u = t \<or> (\<exists>c x d. silent c \<and> u = (c, x, d) # t)"
  "run_state (rai_post_read E qp mr len ra rk i off) t = (r, u) \<Longrightarrow> u = t \<or> (\<exists>c x d. silent c \<and> u = (c, x, d) # t)"
  by (auto simp: rai_post_recv_def rai_post_send_def rai_post_write_def rai_post_read_def run_simps split: option.splits)

section \<open>The out-of-band channel\<close>

lemma send_loop_listeners: "send_loop E fd buf s t = (r, u) \<Longrightarrow> listeners u = listeners t"
proof (induction E fd buf s t rule: send_loop.induct)
  case (1 E fd buf s t)
  then show ?case by (subst (asm) send_loop.simps) (auto simp: Let_def split: if_splits)
qed

lemma recv_loop_listeners: "recv_loop E fd len buf k t = ((r, b), u) \<Longrightarrow> listeners u = listeners t"
proof (induction E fd len buf k t rule: recv_loop.induct)
  case (1 E fd len buf k t)
  then show ?case by (subst (asm) recv_loop.simps) (auto simp: Let_def split: if_splits)
qed

text \<open>An out-of-band exchange changes only what the structure knows of the other end.\<close>

lemma oob_accept_frame:
  assumes "run_state (rai_oob_accept E fd (Some q)) t = ((r, q'), u)"
  shows "live E u = live E t \<and> listeners u = listeners t \<and> (\<exists>i. q' = Some (q\<lparr>q_remote := i\<rparr>))"
proof -
  have "listeners u = listeners t \<and> (\<exists>i. q' = Some (q\<lparr>q_remote := i\<rparr>))"
    using assms
    by (auto simp: rai_oob_accept_def run_simps run_send_all run_recv_all Let_def split: if_splits prod.splits
        dest!: send_loop_listeners recv_loop_listeners intro: exI [of _ "q_remote q"])
  with oob_accept_live [OF assms] show ?thesis by simp
qed

lemma oob_connect_frame:
  assumes "run_state (rai_oob_connect E (Some q) ip port) t = ((r, q'), u)"
  shows "live E u = live E t \<and> listeners u = listeners t \<and> (\<exists>i. q' = Some (q\<lparr>q_remote := i\<rparr>))"
proof -
  have "listeners u = listeners t \<and> (\<exists>i. q' = Some (q\<lparr>q_remote := i\<rparr>))"
    using assms
    by (auto simp: rai_oob_connect_def run_simps run_send_all run_recv_all Let_def split: if_splits prod.splits option.splits
        dest!: send_loop_listeners recv_loop_listeners intro: exI [of _ "q_remote q"])
  with oob_connect_live [OF assms] show ?thesis by simp
qed


section \<open>The transports\<close>

lemma quiet_tcp:
  "only silent (tcp_send_async E tr m h len i off)" "only silent (tcp_recv_async E tr h len i off m')" "only silent (tcp_poll x)"
  "only silent (tcp_exchange_buf E tr h a k)"
  unfolding tcp_send_async_def tcp_recv_async_def tcp_poll_def tcp_exchange_buf_def tcp_send_all_def tcp_recv_all_def Let_def
  by (intro only_intros; simp)+

lemma quiet_rdma:
  "only silent (rdma_send_async E tr h len i off)" "only silent (rdma_recv_async E tr h len i off)"
  "only silent (rdma_write_async E tr h ra rk len i off)" "only silent (rdma_read_async E tr h ra rk len i off)"
  unfolding rdma_send_async_def rdma_recv_async_def rdma_write_async_def rdma_read_async_def rai_post_send_def rai_post_recv_def
    rai_post_write_def rai_post_read_def Let_def
  by (intro only_intros; simp)+

lemma quiet_rdma_poll:
  assumes "rdma_poll E tr c t = Some (x, u)"
  shows "adds silent t u"
proof -
  have "u = t \<or> (\<exists>y. poll_loop E (q_cq (rt_qp tr)) t = Some (y, u))"
    using assms by (auto simp: rdma_poll_def rai_poll_cq_def split: option.splits if_splits)
  then show ?thesis
    using poll_invariant [of E "q_cq (rt_qp tr)" t _ u "adds silent t"] adds_trans [OF _ adds_call] by fastforce
qed

text \<open>An exchange changes what the transport knows of the two ends, and nothing it holds.\<close>

lemma rdma_ends [simp]:
  "rdma_held (tr\<lparr>rt_qp := (rt_qp tr)\<lparr>q_local := i, q_remote := j\<rparr>\<rparr>) = rdma_held tr"
  "rdma_inv M (tr\<lparr>rt_qp := (rt_qp tr)\<lparr>q_local := i, q_remote := j\<rparr>\<rparr>) = rdma_inv M tr"
  "rdma_held (tr\<lparr>rt_qp := (rt_qp tr)\<lparr>q_local := i\<rparr>\<rparr>) = rdma_held tr"
  "rdma_inv M (tr\<lparr>rt_qp := (rt_qp tr)\<lparr>q_local := i\<rparr>\<rparr>) = rdma_inv M tr"
  by (simp_all add: rdma_held_def rdma_inv_def qp_held_def qp_fresh_def)

lemma rdma_inv_more:
  assumes "\<And>i. Cm_qp i \<notin># N"
  shows "rdma_inv (M + N) tr = rdma_inv M tr"
  using assms by (auto simp: rdma_inv_def)

lemma rdma_exchange_frame:
  assumes "run_state (rdma_exchange_buf E tr h a k) t = ((r, tr', a', k'), u)"
  shows "live E u = live E t \<and> listeners u = listeners t \<and> rdma_held tr' = rdma_held tr \<and> rdma_inv M tr' = rdma_inv M tr"
  using assms
  by (auto simp: rdma_exchange_buf_def run_simps Let_def split: option.splits if_splits prod.splits
      dest!: oob_accept_frame oob_connect_frame)

section \<open>Statements that only talk\<close>

text \<open>A statement that makes only silent calls and keeps \<open>parts\<close>, the variables that hold something.\<close>

definition leaves :: "('v \<Rightarrow> 'p) \<Rightarrow> 'v stmt \<Rightarrow> bool" where
  "leaves parts f \<longleftrightarrow> (\<forall>v t r v' u. f v t = Some ((r, v'), u) \<longrightarrow> adds silent t u \<and> parts v' = parts v)"

lemma leavesI: "(\<And>v t r v' u. f v t = Some ((r, v'), u) \<Longrightarrow> adds silent t u \<and> parts v' = parts v) \<Longrightarrow> leaves parts f"
  by (auto simp: leaves_def)

lemma leavesD: "leaves parts f \<Longrightarrow> f v t = Some ((r, v'), u) \<Longrightarrow> adds silent t u \<and> parts v' = parts v"
  by (auto simp: leaves_def)

lemma leaves_skip: "leaves parts skip"
  by (rule leavesI) simp

lemma leaves_then: "leaves parts f \<Longrightarrow> leaves parts g \<Longrightarrow> leaves parts (then_do f g)"
  unfolding leaves_def by (auto simp: then_do_some split: if_splits) (metis adds_trans)+

lemma leaves_if: "leaves parts f \<Longrightarrow> leaves parts g \<Longrightarrow> leaves parts (if b then f else g)"
  by simp

lemma leaves_for: "(\<And>i. leaves parts (f i)) \<Longrightarrow> leaves parts (for_each f is)"
  by (induction "is") (auto intro: leaves_skip leaves_then)

lemma leaves_call: "(\<And>v. only silent (m v)) \<Longrightarrow> leaves parts (do_call m)"
  by (rule leavesI) (auto simp: do_call_def split: prod.splits dest: onlyD)

lemma leaves_event: "(\<And>v. silent (c v)) \<Longrightarrow> leaves parts (do_event E c)"
  by (rule leavesI) (auto simp: do_event_def adds_call)

lemma leaves_set: "(\<And>v. parts (f v) = parts v) \<Longrightarrow> leaves parts (set_vars f)"
  by (rule leavesI) (auto simp: set_vars_def)

lemma leaves_clock: "(\<And>x v. parts (f x v) = parts v) \<Longrightarrow> leaves parts (do_clock E f)"
  by (rule leavesI) (auto simp: do_clock_def adds_call)

lemma leaves_run:
  assumes "\<And>v. only silent (m v)" and "\<And>v t r v' u. run_state (m v) t = ((r, v'), u) \<Longrightarrow> parts v' = parts v"
  shows "leaves parts (run_stmt m)"
  using assms by (intro leavesI) (auto simp: run_stmt_def dest: onlyD)

lemma leaves_spin: "leaves parts (do_spin E a P)"
proof (rule leavesI)
  fix v t r v' u assume "do_spin E a P v t = Some ((r, v'), u)"
  then have "v' = v" "spin E (a v) P t = Some u" by (auto simp: do_spin_def)
  moreover have "adds silent t u"
    by (rule spin_invariant [OF calculation(2)]) (auto intro: adds_trans [OF _ adds_call])
  ultimately show "adds silent t u \<and> parts v' = parts v" by simp
qed

lemmas leaves_intros = leaves_skip leaves_then leaves_if leaves_for leaves_call leaves_event leaves_set leaves_clock leaves_spin

end
