(* ===== verification/Verbs_Bench.thy ===== *)
theory Verbs_Bench
  imports Bench_Config Bench_Stats Frames
begin

text \<open>
  The three benchmarks of phase1_verbs, from \<open>main\<close> to \<open>return\<close>: lat_rdma_write.c (a round trip of
  one-sided writes), bw_rdma_write.c (a window of outstanding writes) and lat_send_recv.c (a round
  trip of sends). Every \<open>goto out\<close> is a statement that leaves; what they hold is released there.
  Memory that the network card reads or writes is accessed by events of the history.
\<close>

section \<open>Definitions\<close>

text \<open>\<open>bv_samples\<close> is the array \<open>latencies\<close>, with None for an entry not yet written; \<open>bv_report\<close> is what is reported.\<close>

record bench_vars =
  bv_qp :: rai_qp
  bv_mr :: rai_mr
  bv_fd :: int
  bv_lat :: handle
  bv_samples :: "u64 option list"
  bv_start :: u64
  bv_total_time :: u64
  bv_scnt :: u64
  bv_ccnt :: u64
  bv_report :: "lat_stats option"

definition bench_vars_init :: bench_vars where
  "bench_vars_init = \<lparr>bv_qp = qp_zero, bv_mr = mr_zero, bv_fd = -1, bv_lat = 0, bv_samples = [], bv_start = 0,
     bv_total_time = 0, bv_scnt = 0, bv_ccnt = 0, bv_report = None\<rparr>"

definition is_server :: "bench_config \<Rightarrow> bool" where
  "is_server cfg \<longleftrightarrow> bc_server_ip cfg = None"

text \<open>\<open>int total_iters = kWarmup + cfg.iters\<close>, which overflows for an accepted number above \<open>2 ^ 31 - 21\<close>.\<close>

definition total_iters :: "bench_config \<Rightarrow> int" where
  "total_iters cfg = c_int (kWarmup + bc_iters cfg)"

subsection \<open>Calls\<close>

definition do_listen :: "env \<Rightarrow> bench_config \<Rightarrow> bench_vars stmt" where
  "do_listen E cfg = run_stmt (\<lambda>v. do {
     (r, q, fd) \<leftarrow> bench_listen E (bv_qp v) cfg (Some (bv_fd v));
     ret (r, v\<lparr>bv_qp := q, bv_fd := the fd\<rparr>) })"

definition do_connect :: "env \<Rightarrow> bench_config \<Rightarrow> bench_vars stmt" where
  "do_connect E cfg = run_stmt (\<lambda>v. do {
     (r, q) \<leftarrow> bench_connect E (bv_qp v) cfg;
     ret (r, v\<lparr>bv_qp := q\<rparr>) })"

definition do_mr_reg :: "env \<Rightarrow> u64 \<Rightarrow> bench_vars stmt" where
  "do_mr_reg E len = run_stmt (\<lambda>v. do {
     (r, mr) \<leftarrow> rai_mr_reg E (Some (bv_qp v)) (Some (bv_mr v)) len;
     ret (r, v\<lparr>bv_mr := the mr\<rparr>) })"

definition do_accept :: "env \<Rightarrow> bench_config \<Rightarrow> bench_vars stmt" where
  "do_accept E cfg = do_call (\<lambda>v. bench_accept E (bv_qp v) cfg)"

text \<open>\<open>rai_oob_accept\<close> on one side, \<open>rai_oob_connect\<close> on the other: the exchange, and each barrier.\<close>

definition do_sync :: "env \<Rightarrow> bench_config \<Rightarrow> bench_vars stmt" where
  "do_sync E cfg = run_stmt (\<lambda>v. do {
     (r, q) \<leftarrow> (if is_server cfg then rai_oob_accept E (bv_fd v) (Some (bv_qp v))
                else rai_oob_connect E (Some (bv_qp v)) (bc_server_ip cfg) (bc_port cfg + 1));
     ret (r, v\<lparr>bv_qp := the q\<rparr>) })"

definition do_post_recv :: "env \<Rightarrow> bench_config \<Rightarrow> bench_vars stmt" where
  "do_post_recv E cfg = do_call (\<lambda>v. rai_post_recv E (Some (bv_qp v)) (Some (bv_mr v)) (word_of_int (bc_size cfg)) 1 0)"

definition do_post_send :: "env \<Rightarrow> bench_config \<Rightarrow> bench_vars stmt" where
  "do_post_send E cfg = do_call (\<lambda>v. rai_post_send E (Some (bv_qp v)) (Some (bv_mr v)) (word_of_int (bc_size cfg)) 1 0)"

definition do_post_write :: "env \<Rightarrow> bench_config \<Rightarrow> u64 \<Rightarrow> bench_vars stmt" where
  "do_post_write E cfg off = do_call (\<lambda>v. rai_post_write E (Some (bv_qp v)) (Some (bv_mr v)) (word_of_int (bc_size cfg))
     {SEND_SIGNALED} (ci_addr (q_remote (bv_qp v)) + off) (ci_rkey (q_remote (bv_qp v))) 1 off)"

definition do_poll :: "env \<Rightarrow> bench_vars stmt" where
  "do_poll E v t = (case rai_poll_cq E (Some (bv_qp v)) None t of None \<Rightarrow> None
     | Some ((r, out), u) \<Rightarrow> Some ((r, v), u))"

definition do_malloc :: "env \<Rightarrow> bench_config \<Rightarrow> bench_vars stmt" where
  "do_malloc E cfg = run_stmt (\<lambda>v. do {
     p \<leftarrow> exec_call E (Malloc (word_of_int (bc_iters cfg) * 8));
     ret (if p = 0 then -1 else 0, v\<lparr>bv_lat := p, bv_samples := replicate (nat (bc_iters cfg)) None\<rparr>) })"

text \<open>\<open>if (i >= kWarmup) latencies[i - kWarmup] = time_elapsed_ns(iter_start, time_now_ns())\<close>\<close>

definition do_sample :: "env \<Rightarrow> int \<Rightarrow> bench_vars stmt" where
  "do_sample E i = (if kWarmup \<le> i
     then do_clock E (\<lambda>now v. v\<lparr>bv_samples := (bv_samples v)[nat (i - kWarmup) := Some (time_elapsed_ns (bv_start v) now)]\<rparr>)
     else skip)"

text \<open>\<open>qsort\<close> with \<open>cmp_u64\<close>, then the report.\<close>

definition do_report :: "bench_config \<Rightarrow> bench_vars stmt" where
  "do_report cfg = set_vars (\<lambda>v. v\<lparr>bv_report := Some (latency_stats (sort (map the (bv_samples v))) (bc_iters cfg))\<rparr>)"

text \<open>The label \<open>out\<close>.\<close>

definition bench_out :: "env \<Rightarrow> bench_vars \<Rightarrow> (trace, unit) state" where
  "bench_out E v = do {
     _ \<leftarrow> drop_if E (0 \<le> bv_fd v) (Close (bv_fd v));
     _ \<leftarrow> drop_if E (bv_lat v \<noteq> 0) (Free (word_of_int (bv_lat v)));
     _ \<leftarrow> rai_mr_dereg E (Some (bv_mr v));
     _ \<leftarrow> rai_qp_destroy E (Some (bv_qp v));
     ret () }"

definition bench_main :: "env \<Rightarrow> (bench_config \<Rightarrow> bench_vars stmt) \<Rightarrow> string list \<Rightarrow> trace \<Rightarrow> ((int \<times> bench_vars) \<times> trace) option" where
  "bench_main E body args t =
     (case bench_config_parse args bench_config_init of (r, cfg) \<Rightarrow>
        if r \<noteq> 0 then Some ((1, bench_vars_init), snd (run_state (bench_out E bench_vars_init) t))
        else if bc_csv_header cfg then Some ((0, bench_vars_init), t)
        else (case body cfg bench_vars_init t of None \<Rightarrow> None
          | Some ((x, v), u) \<Rightarrow> Some ((if x \<noteq> 0 then 1 else 0, v), snd (run_state (bench_out E v) u))))"

text \<open>The start of all three: the server listens, registers, prepares and accepts; the client connects and registers.\<close>

definition bench_setup :: "env \<Rightarrow> bench_config \<Rightarrow> u64 \<Rightarrow> bench_vars stmt \<Rightarrow> bench_vars stmt" where
  "bench_setup E cfg len prepare =
     (if is_server cfg then block [do_listen E cfg, do_mr_reg E len, prepare, do_accept E cfg]
      else block [do_connect E cfg, do_mr_reg E len])"

text \<open>Our side of the exchange.\<close>

definition set_local :: "env \<Rightarrow> bench_vars stmt" where
  "set_local E = set_vars (\<lambda>v. v\<lparr>bv_qp := (bv_qp v)\<lparr>q_local := (q_local (bv_qp v))
     \<lparr>ci_addr := e_mr_addr E (mr_mr (bv_mr v)), ci_rkey := e_mr_rkey E (mr_mr (bv_mr v))\<rparr>\<rparr>\<rparr>)"

subsection \<open>lat_rdma_write.c\<close>

definition write_server_iter :: "env \<Rightarrow> bench_config \<Rightarrow> int \<Rightarrow> bench_vars stmt" where
  "write_server_iter E cfg i =
     (let reply_off = word_of_int (bc_size cfg); seq = word_of_int (i + 1) :: byte
      in block [do_spin E (\<lambda>v. mr_buf (bv_mr v) + reply_off - 1) (\<lambda>n. word_of_int n = seq),
           do_event E (\<lambda>v. Store (mr_buf (bv_mr v) + 2 * reply_off - 1) [seq]),
           do_post_write E cfg reply_off,
           do_poll E])"

definition write_client_iter :: "env \<Rightarrow> bench_config \<Rightarrow> int \<Rightarrow> bench_vars stmt" where
  "write_client_iter E cfg i =
     (let reply_off = word_of_int (bc_size cfg); seq = word_of_int (i + 1) :: byte
      in block [do_event E (\<lambda>v. Store (mr_buf (bv_mr v) + reply_off - 1) [seq]),
           do_clock E (\<lambda>now v. v\<lparr>bv_start := now\<rparr>),
           do_post_write E cfg 0,
           do_poll E,
           do_spin E (\<lambda>v. mr_buf (bv_mr v) + 2 * reply_off - 1) (\<lambda>n. word_of_int n = seq),
           do_sample E i])"

definition lat_rdma_write :: "env \<Rightarrow> bench_config \<Rightarrow> bench_vars stmt" where
  "lat_rdma_write E cfg =
     (let reply_off = word_of_int (bc_size cfg)
      in block [bench_setup E cfg (2 * reply_off) skip,
           do_event E (\<lambda>v. Memset (mr_buf (bv_mr v)) 0 (2 * reply_off)),
           set_local E,
           do_sync E cfg,
           if is_server cfg then for_each (write_server_iter E cfg) [0..total_iters cfg - 1]
           else block [do_malloc E cfg, for_each (write_client_iter E cfg) [0..total_iters cfg - 1], do_report cfg],
           do_sync E cfg])"

subsection \<open>bw_rdma_write.c\<close>

definition CQ_POLL_BATCH :: int where
  "CQ_POLL_BATCH = 16"

text \<open>The inner loop: post until the window is full or everything is posted.\<close>

definition window_open :: "bench_config \<Rightarrow> bench_vars \<Rightarrow> bool" where
  "window_open cfg v \<longleftrightarrow> bv_scnt v < word_of_int (total_iters cfg) \<and> bv_scnt v - bv_ccnt v < word_of_int (bc_depth cfg)"

definition post_one :: "env \<Rightarrow> bench_config \<Rightarrow> bench_vars \<Rightarrow> (trace, int \<times> bench_vars) state" where
  "post_one E cfg v = do {
     _ \<leftarrow> drop_if E (bv_scnt v = word_of_int (total_iters cfg) - 1) (Store (mr_buf (bv_mr v) + word_of_int (bc_size cfg) - 1) [1]);
     now \<leftarrow> (if bv_scnt v = word_of_int kWarmup then exec_call E Clock_gettime else ret (uint (bv_start v)));
     let v' = v\<lparr>bv_start := word_of_int now\<rparr>;
     p \<leftarrow> rai_post_write E (Some (bv_qp v)) (Some (bv_mr v)) (word_of_int (bc_size cfg)) {SEND_SIGNALED}
            (ci_addr (q_remote (bv_qp v))) (ci_rkey (q_remote (bv_qp v))) 1 0;
     ret (if p \<noteq> 0 then (-1, v') else (0, v'\<lparr>bv_scnt := bv_scnt v + 1\<rparr>)) }"

lemma post_one_scnt: "run_state (post_one E cfg v) t = ((0, v'), u) \<Longrightarrow> bv_scnt v' = bv_scnt v + 1"
  by (auto simp: post_one_def run_simps Let_def split: prod.splits if_splits)

lemma left_decreases: "a < b \<Longrightarrow> unat (b - (a + 1)) < unat (b - a)" for a b :: u64
proof -
  assume a: "a < b"
  have "Suc (unat a) < 2 ^ 64" using a unsigned_less [of b, where ?'a = nat] by (simp add: word_less_nat_alt)
  then have "unat (a + 1) = Suc (unat a)" by (simp add: unat_word_ariths)
  with a show ?thesis by (simp add: word_less_nat_alt unat_sub_if')
qed

function post_window :: "env \<Rightarrow> bench_config \<Rightarrow> bench_vars \<Rightarrow> trace \<Rightarrow> (int \<times> bench_vars) \<times> trace" where
  "post_window E cfg v t =
     (if window_open cfg v
      then case run_state (post_one E cfg v) t of ((r, v'), u) \<Rightarrow> if r \<noteq> 0 then ((r, v'), u) else post_window E cfg v' u
      else ((0, v), t))"
  by pat_completeness auto
termination
  by (relation "measure (\<lambda>(E, cfg, v, t). unat (word_of_int (total_iters cfg) - bv_scnt v))")
    (auto simp: window_open_def dest!: post_one_scnt [OF sym] intro!: left_decreases)

declare post_window.simps [simp del]

text \<open>One poll of up to \<open>CQ_POLL_BATCH\<close> completions: all must be successes.\<close>

definition reap :: "env \<Rightarrow> bench_vars \<Rightarrow> trace \<Rightarrow> (int \<times> bench_vars) \<times> trace" where
  "reap E v t =
     (let c = Poll_cq_batch (q_cq (bv_qp v)) CQ_POLL_BATCH; ne = e_ret E t c; u = (c, ne, e_data E t c) # t
      in if ne < 0 then ((-1, v), u)
         else if \<exists>k < nat ne. \<not> e_wc_ok E u k then ((-1, v), u)
         else ((0, v\<lparr>bv_ccnt := bv_ccnt v + word_of_int ne\<rparr>), u))"

partial_function (option) bw_loop :: "env \<Rightarrow> bench_config \<Rightarrow> bench_vars \<Rightarrow> trace \<Rightarrow> ((int \<times> bench_vars) \<times> trace) option" where
  "bw_loop E cfg v t =
     (if bv_ccnt v < word_of_int (total_iters cfg)
      then (case post_window E cfg v t of ((r, v1), u) \<Rightarrow>
              if r \<noteq> 0 then Some ((r, v1), u)
              else (case reap E v1 u of ((r', v2), w) \<Rightarrow> if r' \<noteq> 0 then Some ((r', v2), w) else bw_loop E cfg v2 w))
      else Some ((0, v), t))"

definition bw_rdma_write :: "env \<Rightarrow> bench_config \<Rightarrow> bench_vars stmt" where
  "bw_rdma_write E cfg =
     (let doorbell = (\<lambda>v. mr_buf (bv_mr v) + word_of_int (bc_size cfg) - 1)
      in block [bench_setup E cfg (word_of_int (bc_size cfg)) (do_event E (\<lambda>v. Store (doorbell v) [0])),
           set_local E,
           do_sync E cfg,
           if is_server cfg then do_spin E doorbell (\<lambda>n. (word_of_int n :: byte) \<noteq> 0)
           else block [do_event E (\<lambda>v. Store (doorbell v) [0]),
             bw_loop E cfg,
             do_clock E (\<lambda>now v. v\<lparr>bv_total_time := time_elapsed_ns (bv_start v) now\<rparr>)],
           do_sync E cfg])"

subsection \<open>lat_send_recv.c\<close>

definition prepost :: "bench_config \<Rightarrow> int" where
  "prepost cfg = (if bc_depth cfg < total_iters cfg then bc_depth cfg else total_iters cfg)"

definition do_prepost :: "env \<Rightarrow> bench_config \<Rightarrow> bench_vars stmt" where
  "do_prepost E cfg = for_each (\<lambda>j. do_post_recv E cfg) [0..prepost cfg - 1]"

definition recv_server_iter :: "env \<Rightarrow> bench_config \<Rightarrow> int \<Rightarrow> bench_vars stmt" where
  "recv_server_iter E cfg i = block [do_poll E,
     if c_int (i + prepost cfg) < total_iters cfg then do_post_recv E cfg else skip,
     do_post_send E cfg,
     do_poll E]"

definition recv_client_iter :: "env \<Rightarrow> bench_config \<Rightarrow> int \<Rightarrow> bench_vars stmt" where
  "recv_client_iter E cfg i = block [
     if c_int (i + prepost cfg) < total_iters cfg then do_post_recv E cfg else skip,
     do_clock E (\<lambda>now v. v\<lparr>bv_start := now\<rparr>),
     do_post_send E cfg,
     do_poll E,
     do_poll E,
     do_sample E i]"

definition lat_send_recv :: "env \<Rightarrow> bench_config \<Rightarrow> bench_vars stmt" where
  "lat_send_recv E cfg = block [bench_setup E cfg (word_of_int (bc_size cfg)) (do_prepost E cfg),
     do_sync E cfg,
     if is_server cfg then for_each (recv_server_iter E cfg) [0..total_iters cfg - 1]
     else block [do_malloc E cfg, do_prepost E cfg, for_each (recv_client_iter E cfg) [0..total_iters cfg - 1], do_report cfg]]"

section \<open>Nothing stays behind\<close>

definition qp_safe :: "res multiset \<Rightarrow> rai_qp \<Rightarrow> bool" where
  "qp_safe M q \<longleftrightarrow> (q_mode q = RAI_CONN_CM \<longrightarrow> q_cm_id q \<noteq> 0 \<longrightarrow> Cm_qp (q_cm_id q) \<notin># M)"

definition mem_held :: "handle \<Rightarrow> res multiset" where
  "mem_held p = (if p \<noteq> 0 then {#Memory (word_of_int p)#} else {#})"

definition vars_held :: "bench_vars \<Rightarrow> res multiset" where
  "vars_held v = qp_held (bv_qp v) + mr_held (Some (bv_mr v)) + fd_held (Some (bv_fd v)) + mem_held (bv_lat v)"

text \<open>The variables hold exactly what was acquired; in the CM mode nothing listens any more.\<close>

definition bench_inv :: "env \<Rightarrow> bench_config \<Rightarrow> res multiset \<Rightarrow> bench_vars \<Rightarrow> trace \<Rightarrow> bool" where
  "bench_inv E cfg M v t \<longleftrightarrow> live E t = M + vars_held v \<and> qp_safe M (bv_qp v) \<and> (bc_conn cfg = RAI_CONN_CM \<longrightarrow> listeners t = {})"

lemma bench_inv_silent: "bench_inv E cfg M v t \<Longrightarrow> silent c \<Longrightarrow> bench_inv E cfg M v ((c, r, d) # t)"
  unfolding bench_inv_def by (simp del: live.simps listeners.simps)

lemma bench_inv_scratch [simp]:
  "bench_inv E cfg M (v\<lparr>bv_start := a\<rparr>) t = bench_inv E cfg M v t"
  "bench_inv E cfg M (v\<lparr>bv_total_time := a\<rparr>) t = bench_inv E cfg M v t"
  "bench_inv E cfg M (v\<lparr>bv_scnt := a\<rparr>) t = bench_inv E cfg M v t"
  "bench_inv E cfg M (v\<lparr>bv_ccnt := a\<rparr>) t = bench_inv E cfg M v t"
  "bench_inv E cfg M (v\<lparr>bv_samples := s\<rparr>) t = bench_inv E cfg M v t"
  "bench_inv E cfg M (v\<lparr>bv_report := b\<rparr>) t = bench_inv E cfg M v t"
  by (simp_all add: bench_inv_def vars_held_def)

lemma bench_inv_qp:
  assumes "qp_held q = qp_held (bv_qp v)" "q_mode q = q_mode (bv_qp v)" "q_cm_id q = q_cm_id (bv_qp v)"
  shows "bench_inv E cfg M (v\<lparr>bv_qp := q\<rparr>) t = bench_inv E cfg M v t"
  using assms by (simp add: bench_inv_def vars_held_def qp_safe_def)

lemma preserves_poll [preserves_intros]:
  assumes "\<And>v t r d c. I v t \<Longrightarrow> silent c \<Longrightarrow> I v ((c, r, d) # t)"
  shows "preserves I (do_poll E)"
proof (rule preservesI)
  fix v t r v' u assume i: "I v t" and p: "do_poll E v t = Some ((r, v'), u)"
  then have v: "v' = v" and "u = t \<or> (\<exists>x. poll_loop E (q_cq (bv_qp v)) t = Some (x, u))"
    by (auto simp: do_poll_def rai_poll_cq_def split: option.splits if_splits)
  then show "I v' u" using poll_invariant [of E "q_cq (bv_qp v)" t _ u "I v"] i assms by auto
qed

lemma preserves_posts [preserves_intros]:
  assumes "\<And>v t r d c. I v t \<Longrightarrow> silent c \<Longrightarrow> I v ((c, r, d) # t)"
  shows "preserves I (do_post_recv E cfg)" "preserves I (do_post_send E cfg)" "preserves I (do_post_write E cfg off)"
  unfolding do_post_recv_def do_post_send_def do_post_write_def
  by (auto intro!: preserves_call dest!: run_post_cases intro: assms)


lemma preserves_sync: "preserves (bench_inv E cfg M) (do_sync E cfg)"
  unfolding do_sync_def
proof (rule preserves_run)
  fix v t r v' u
  assume i: "bench_inv E cfg M v t"
    and r: "run_state (do { (r, q) \<leftarrow> (if is_server cfg then rai_oob_accept E (bv_fd v) (Some (bv_qp v))
        else rai_oob_connect E (Some (bv_qp v)) (bc_server_ip cfg) (bc_port cfg + 1)); ret (r, v\<lparr>bv_qp := the q\<rparr>) }) t = ((r, v'), u)"
  then have "live E u = live E t \<and> listeners u = listeners t \<and> (\<exists>j. v' = v\<lparr>bv_qp := (bv_qp v)\<lparr>q_remote := j\<rparr>\<rparr>)"
    by (auto simp: run_simps split: if_splits prod.splits dest!: oob_accept_frame oob_connect_frame)
  with i show "bench_inv E cfg M v' u" by (auto simp: bench_inv_def vars_held_def qp_safe_def)
qed

lemma preserves_local: "preserves (bench_inv E cfg M) (set_local E')"
  unfolding set_local_def by (rule preserves_set) (subst bench_inv_qp; simp add: qp_held_def)

lemma accept_frame:
  assumes "cm_requests_ok E" and "bc_conn cfg = RAI_CONN_CM \<longrightarrow> listeners t = {}" and "run_state (bench_accept E q cfg) t = (r, u)"
  shows "live E u = live E t \<and> (bc_conn cfg = RAI_CONN_CM \<longrightarrow> listeners u = {})"
proof (cases "bc_conn cfg")
  case RAI_CONN_CM
  with assms(2,3) keepsD [OF keeps_accept [OF assms(1)]] show ?thesis by (simp add: bench_accept_def)
next
  case RAI_CONN_VERBS
  with assms(3) show ?thesis
    by (auto simp: bench_accept_def rai_verbs_accept_qp_def run_simps split: prod.splits dest!: qp_to_rts_spec(1))
qed

lemma preserves_accept: "cm_requests_ok E \<Longrightarrow> preserves (bench_inv E cfg M) (do_accept E cfg)"
  unfolding do_accept_def by (rule preserves_call) (auto simp: bench_inv_def dest!: accept_frame)

lemma preserves_sample: "preserves (bench_inv E cfg M) (do_sample E' i)"
  by (auto simp: do_sample_def intro!: preserves_intros preserves_clock bench_inv_silent)

lemma preserves_report: "preserves (bench_inv E cfg M) (do_report cfg)"
  unfolding do_report_def by (rule preserves_set) simp

lemmas bench_preserves = preserves_sync preserves_local preserves_accept preserves_sample preserves_report
  preserves_block preserves_clock preserves_event preserves_spin bench_inv_silent

text \<open>The statements that acquire, in the order the programs make them.\<close>

definition bench_start :: "env \<Rightarrow> bench_config \<Rightarrow> res multiset \<Rightarrow> bench_vars \<Rightarrow> trace \<Rightarrow> bool" where
  "bench_start E cfg M v t \<longleftrightarrow> v = bench_vars_init \<and> live E t = M \<and> (bc_conn cfg = RAI_CONN_CM \<longrightarrow> listeners t = {})"

definition bench_open :: "env \<Rightarrow> bench_config \<Rightarrow> res multiset \<Rightarrow> bench_vars \<Rightarrow> trace \<Rightarrow> bool" where
  "bench_open E cfg M v t \<longleftrightarrow> bench_inv E cfg M v t \<and> bv_mr v = mr_zero \<and> bv_lat v = 0"

definition bench_ready :: "env \<Rightarrow> bench_config \<Rightarrow> res multiset \<Rightarrow> bench_vars \<Rightarrow> trace \<Rightarrow> bool" where
  "bench_ready E cfg M v t \<longleftrightarrow> bench_inv E cfg M v t \<and> bv_lat v = 0"

lemma mr_held_zero [simp]: "mr_held (Some mr_zero) = {#}"
  by (simp add: mr_held_def mr_zero_def)

lemma qp_zero_id [simp]: "q_cm_id qp_zero = 0"
  by (simp add: qp_zero_def)

lemma mem_held_zero [simp]: "mem_held 0 = {#}"
  by (simp add: mem_held_def)

lemma verbs_listen_fd:
  "run_state (rai_verbs_listen_qp E q port (Some m)) t = ((r, q', fd), u) \<Longrightarrow> fd \<noteq> None"
  by (auto simp: rai_verbs_listen_qp_def second_listener_def verbs_listen_out_def run_simps Let_def
      split: if_splits prod.splits option.splits)

lemma triple_listen:
  assumes "cm_ok E"
  shows "triple (bench_start E cfg M) (do_listen E cfg) (bench_open E cfg M) (bench_inv E cfg M)"
proof (rule tripleI)
  fix v t r v' u
  assume s: "bench_start E cfg M v t" and d: "do_listen E cfg v t = Some ((r, v'), u)"
  obtain x q fd w where l: "run_state (bench_listen E qp_zero cfg (Some (-1))) t = ((x, q, fd), w)" by (metis surj_pair)
  then have e: "r = x" "v' = bench_vars_init\<lparr>bv_qp := q, bv_fd := the fd\<rparr>" "u = w"
    using s d by (auto simp: bench_start_def do_listen_def run_stmt_def run_simps bench_vars_init_def)
  have "(bc_conn cfg = RAI_CONN_CM \<longrightarrow> listeners u = {}) \<and> live E u = M + qp_held q + fd_held (Some (the fd)) \<and> qp_safe M q"
  proof (cases "bc_conn cfg")
    case RAI_CONN_CM
    then have c: "run_state (rai_cm_listen_qp E qp_zero (bc_port cfg) (Some (-1))) t = ((r, q, fd), u)" "listeners t = {}" "live E t = M"
      using l s e by (simp_all add: bench_listen_def bench_start_def)
    from cm_listen_spec [OF assms qp_fresh_zero c(1)] c(2,3) show ?thesis
      by (auto simp: qp_safe_def fd_held_def)
  next
    case RAI_CONN_VERBS
    then have c: "run_state (rai_verbs_listen_qp E qp_zero (bc_port cfg) (Some (-1))) t = ((r, q, fd), u)" "live E t = M"
      using l s e by (simp_all add: bench_listen_def bench_start_def)
    from verbs_listen_spec [OF qp_fresh_zero c(1)] verbs_listen_fd [OF c(1)] c(2) RAI_CONN_VERBS show ?thesis
      by (auto simp: qp_safe_def fd_held_def split: option.splits)
  qed
  then show "if r = 0 then bench_open E cfg M v' u else bench_inv E cfg M v' u"
    by (simp add: e bench_open_def bench_inv_def vars_held_def bench_vars_init_def)
qed

lemma triple_connect:
  assumes "cm_ok E" "cm_requests_ok E"
  shows "triple (bench_start E cfg M) (do_connect E cfg) (bench_open E cfg M) (bench_inv E cfg M)"
proof (rule tripleI)
  fix v t r v' u
  assume s: "bench_start E cfg M v t" and d: "do_connect E cfg v t = Some ((r, v'), u)"
  obtain x q w where l: "run_state (bench_connect E qp_zero cfg) t = ((x, q), w)" by (metis surj_pair)
  then have e: "r = x" "v' = bench_vars_init\<lparr>bv_qp := q\<rparr>" "u = w"
    using s d by (auto simp: bench_start_def do_connect_def run_stmt_def run_simps bench_vars_init_def)
  have "(bc_conn cfg = RAI_CONN_CM \<longrightarrow> listeners u = {}) \<and> live E u = M + qp_held q \<and> qp_safe M q"
  proof (cases "bc_conn cfg")
    case RAI_CONN_CM
    then have c: "run_state (rai_cm_connect_qp E qp_zero (the (bc_server_ip cfg)) (bc_port cfg)) t = ((r, q), u)" "listeners t = {}" "live E t = M"
      using l s e by (simp_all add: bench_connect_def bench_start_def)
    from cm_connect_spec [OF assms c(2) qp_fresh_zero c(1)] c(3) show ?thesis
      by (auto simp: qp_safe_def)
  next
    case RAI_CONN_VERBS
    then have c: "run_state (rai_verbs_connect_qp E qp_zero (bc_server_ip cfg) (bc_port cfg)) t = ((r, q), u)" "live E t = M"
      using l s e by (simp_all add: bench_connect_def bench_start_def)
    from verbs_connect_spec [OF qp_fresh_zero c(1)] c(2) RAI_CONN_VERBS show ?thesis
      by (auto simp: qp_safe_def)
  qed
  then show "if r = 0 then bench_open E cfg M v' u else bench_inv E cfg M v' u"
    by (simp add: e bench_open_def bench_inv_def vars_held_def bench_vars_init_def fd_held_def)
qed

lemma triple_mr_reg: "triple (bench_open E cfg M) (do_mr_reg E len) (bench_ready E cfg M) (bench_inv E cfg M)"
proof (rule tripleI)
  fix v t r v' u
  assume s: "bench_open E cfg M v t" and d: "do_mr_reg E len v t = Some ((r, v'), u)"
  then obtain mr where g: "run_state (rai_mr_reg E (Some (bv_qp v)) (Some mr_zero) len) t = ((r, mr), u)" "v' = v\<lparr>bv_mr := the mr\<rparr>"
    by (auto simp: bench_open_def do_mr_reg_def run_stmt_def run_simps split: prod.splits)
  have l: "listeners u = listeners t \<and> mr \<noteq> None"
    using g(1) by (auto simp: rai_mr_reg_def run_simps Let_def split: if_splits)
  with mr_reg_spec [OF mr_held_zero g(1)] s g(2) show "if r = 0 then bench_ready E cfg M v' u else bench_inv E cfg M v' u"
    by (auto simp: bench_open_def bench_ready_def bench_inv_def vars_held_def)
qed

lemma triple_malloc: "triple (bench_ready E cfg M) (do_malloc E cfg) (bench_inv E cfg M) (bench_inv E cfg M)"
  by (rule tripleI) (auto simp: bench_ready_def do_malloc_def run_stmt_def run_simps bench_inv_def vars_held_def mem_held_def)

lemma triple_ready:
  "preserves (bench_inv E cfg M) f \<Longrightarrow> preserves (\<lambda>v t. bv_lat v = 0) f \<Longrightarrow>
     triple (bench_ready E cfg M) f (bench_ready E cfg M) (bench_inv E cfg M)"
  by (rule tripleI) (auto simp: bench_ready_def dest: preservesD)

lemma triple_inv: "preserves (bench_inv E cfg M) f \<Longrightarrow> triple (bench_inv E cfg M) f (bench_inv E cfg M) (bench_inv E cfg M)"
  by (rule triple_preserves)

lemma triple_forget:
  "preserves (bench_inv E cfg M) f \<Longrightarrow> triple (bench_ready E cfg M) f (bench_inv E cfg M) (bench_inv E cfg M)"
  by (rule tripleI) (auto simp: bench_ready_def dest: preservesD)

lemma keeps_lat_simple:
  "preserves (\<lambda>v t. bv_lat v = 0) (do_sync E cfg)" "preserves (\<lambda>v t. bv_lat v = 0) (set_local E)"
  "preserves (\<lambda>v t. bv_lat v = 0) (do_accept E cfg)" "preserves (\<lambda>v t. bv_lat v = 0) (do_event E c)"
  "preserves (\<lambda>v t. bv_lat v = 0) (do_post_recv E cfg)"
  by (rule preservesI; auto simp: do_sync_def set_local_def do_accept_def do_event_def do_post_recv_def run_stmt_def do_call_def
      set_vars_def run_simps split: prod.splits)+

text \<open>The common start, with what the server does between registering and accepting.\<close>

lemma triple_setup:
  assumes "cm_ok E" "cm_requests_ok E" and "preserves (bench_inv E cfg M) p" "preserves (\<lambda>v t. bv_lat v = 0) p"
  shows "triple (bench_start E cfg M) (bench_setup E cfg len p) (bench_ready E cfg M) (bench_inv E cfg M)"
proof -
  have acc: "preserves (bench_inv E cfg M) (do_accept E cfg)" using assms(2) by (rule preserves_accept)
  show ?thesis
    unfolding bench_setup_def block_Cons block_Nil
    by (intro triple_if triple_then [OF triple_listen [OF assms(1)]] triple_then [OF triple_connect [OF assms(1,2)]]
        triple_then [OF triple_mr_reg] triple_then [OF triple_ready [OF assms(3,4)]]
        triple_then [OF triple_ready [OF acc keeps_lat_simple(3)]] triple_skip)
qed

lemma bench_out_spec:
  assumes "cm_ok E" and "bench_inv E cfg M v t" and "run_state (bench_out E v) t = (x, u)"
  shows "live E u = M"
proof -
  let ?q = "bv_qp v"
  define t1 where t1: "t1 = (if 0 \<le> bv_fd v then (Close (bv_fd v), e_ret E t (Close (bv_fd v)), e_data E t (Close (bv_fd v))) # t else t)"
  let ?f = "Free (word_of_int (bv_lat v))"
  define t2 where t2: "t2 = (if bv_lat v \<noteq> 0 then (?f, e_ret E t1 ?f, e_data E t1 ?f) # t1 else t1)"
  obtain mr t3 where d: "run_state (rai_mr_dereg E (Some (bv_mr v))) t2 = (mr, t3)" by (metis surj_pair)
  obtain q where q: "run_state (rai_qp_destroy E (Some ?q)) t3 = (q, u)"
    using assms(3) d by (auto simp: bench_out_def run_simps simp flip: t1 t2 split: prod.splits)
  have "live E t1 = M + qp_held ?q + mr_held (Some (bv_mr v)) + mem_held (bv_lat v)"
    using assms(2) by (auto simp: t1 bench_inv_def vars_held_def fd_held_def)
  then have "live E t2 = M + qp_held ?q + mr_held (Some (bv_mr v))" by (auto simp: t2 mem_held_def)
  with mr_dereg_spec [OF d] have l: "live E t3 = M + qp_held ?q" by simp
  have "cm_qp_ok E t3 ?q"
  proof (cases "q_mode ?q")
    case RAI_CONN_CM
    then show ?thesis using cm_qp_ok_held [OF assms(1), of t3 "[]" ?q M] l assms(2) by (auto simp: bench_inv_def qp_safe_def)
  qed (simp add: cm_qp_ok_def)
  from qp_destroy_spec [OF this q] l show ?thesis by simp
qed

text \<open>Any body that keeps the invariant makes a program that leaks nothing.\<close>

lemma bench_main_balanced:
  assumes "cm_ok E" and "listeners t = {}"
    and "\<And>cfg. triple (bench_start E cfg (live E t)) (body cfg) (bench_inv E cfg (live E t)) (bench_inv E cfg (live E t))"
    and "bench_main E body args t = Some ((r, v), u)"
  shows "live E u = live E t"
proof -
  obtain x cfg where p: "bench_config_parse args bench_config_init = (x, cfg)" by (metis surj_pair)
  have i0: "bench_start E cfg (live E t) bench_vars_init t" using assms(2) by (simp add: bench_start_def)
  then have v0: "bench_inv E cfg (live E t) bench_vars_init t"
    by (auto simp: bench_start_def bench_inv_def bench_vars_init_def vars_held_def fd_held_def qp_safe_def)
  consider "x \<noteq> 0" "u = snd (run_state (bench_out E bench_vars_init) t)" | "u = t"
    | y w s where "body cfg bench_vars_init t = Some ((y, w), s)" "u = snd (run_state (bench_out E w) s)"
    using assms(4) p by (auto simp: bench_main_def split: if_splits option.splits)
  then show ?thesis
  proof cases
    case 1
    then show ?thesis using bench_out_spec [OF assms(1) v0] by (metis prod.collapse)
  next
    case 3
    from tripleD [OF assms(3) i0 3(1)] have "bench_inv E cfg (live E t) w s" by (simp split: if_splits)
    then show ?thesis using bench_out_spec [OF assms(1)] 3(2) by (metis prod.collapse)
  qed simp
qed

lemma iter_preserves:
  "preserves (bench_inv E cfg M) (write_server_iter E cfg i)" "preserves (bench_inv E cfg M) (write_client_iter E cfg i)"
  "preserves (bench_inv E cfg M) (recv_server_iter E cfg i)" "preserves (bench_inv E cfg M) (recv_client_iter E cfg i)"
  by (auto simp: write_server_iter_def write_client_iter_def recv_server_iter_def recv_client_iter_def Let_def
      intro!: preserves_intros bench_preserves)

lemma prepost_preserves:
  "preserves (bench_inv E cfg M) (do_prepost E cfg)" "preserves (\<lambda>v t. bv_lat v = 0) (do_prepost E cfg)"
  unfolding do_prepost_def by (auto intro!: preserves_intros bench_preserves keeps_lat_simple)

lemma post_one_inv:
  assumes "bench_inv E cfg M v t" and "run_state (post_one E' cfg' v) t = ((r, v'), u)"
  shows "bench_inv E cfg M v' u"
proof -
  define t1 where "t1 = snd (run_state (drop_if E' (bv_scnt v = word_of_int (total_iters cfg') - 1)
    (Store (mr_buf (bv_mr v) + word_of_int (bc_size cfg') - 1) [1])) t)"
  define t2 where "t2 = (if bv_scnt v = word_of_int kWarmup then (Clock_gettime, e_ret E' t1 Clock_gettime, e_data E' t1 Clock_gettime) # t1 else t1)"
  have i2: "bench_inv E cfg M v t2" using assms(1) by (auto simp: t1_def t2_def run_simps intro!: bench_inv_silent)
  obtain p s where w: "run_state (rai_post_write E' (Some (bv_qp v)) (Some (bv_mr v)) (word_of_int (bc_size cfg')) {SEND_SIGNALED}
      (ci_addr (q_remote (bv_qp v))) (ci_rkey (q_remote (bv_qp v))) 1 0) t2 = (p, s)" by (metis surj_pair)
  have "u = s" and "bench_inv E cfg M v' s = bench_inv E cfg M v s"
    using assms(2) w by (auto simp: post_one_def run_simps Let_def t1_def t2_def split: if_splits)
  moreover have "bench_inv E cfg M v s" using run_post_cases(3) [OF w] i2 by (auto intro: bench_inv_silent)
  ultimately show ?thesis by simp
qed

lemma post_window_inv:
  "bench_inv E cfg M v t \<Longrightarrow> post_window E' cfg' v t = ((r, v'), u) \<Longrightarrow> bench_inv E cfg M v' u"
proof (induction E' cfg' v t rule: post_window.induct)
  case (1 E' cfg' v t)
  then show ?case
    by (subst (asm) (2) post_window.simps) (auto split: if_splits prod.splits dest: post_one_inv)
qed

lemma reap_inv: "bench_inv E cfg M v t \<Longrightarrow> reap E' v t = ((r, v'), u) \<Longrightarrow> bench_inv E cfg M v' u"
  by (auto simp: reap_def Let_def intro: bench_inv_silent split: if_splits)

lemma bw_loop_preserves: "preserves (bench_inv E cfg M) (bw_loop E' cfg')"
proof (rule preservesI)
  fix v t r v' u assume i: "bench_inv E cfg M v t" and b: "bw_loop E' cfg' v t = Some ((r, v'), u)"
  have "bench_inv E cfg M v t \<longrightarrow> (case ((r, v'), u) of ((r, v'), u) \<Rightarrow> bench_inv E cfg M v' u)"
    by (rule bw_loop.raw_induct [OF _ b])
      (auto split: if_splits prod.splits dest: post_window_inv reap_inv; meson post_window_inv reap_inv)
  with i show "bench_inv E cfg M v' u" by simp
qed

lemma bodies_safe:
  assumes "cm_ok E" "cm_requests_ok E"
  shows "triple (bench_start E cfg M) (lat_rdma_write E cfg) (bench_inv E cfg M) (bench_inv E cfg M)"
    and "triple (bench_start E cfg M) (bw_rdma_write E cfg) (bench_inv E cfg M) (bench_inv E cfg M)"
    and "triple (bench_start E cfg M) (lat_send_recv E cfg) (bench_inv E cfg M) (bench_inv E cfg M)"
proof -
  let ?I = "bench_inv E cfg M" and ?R = "bench_ready E cfg M"
  have ev: "preserves ?I (do_event E c)" if "\<And>v. silent (c v)" for c
    using that by (intro preserves_event bench_inv_silent) auto
  note ready = triple_ready [OF preserves_local keeps_lat_simple(2)] triple_ready [OF preserves_sync keeps_lat_simple(1)]
    triple_ready [OF ev keeps_lat_simple(4)]
  note inv = triple_inv [OF preserves_sync] triple_inv [OF preserves_report] triple_inv [OF preserves_for [OF iter_preserves(2)]]
    triple_inv [OF preserves_for [OF iter_preserves(4)]] triple_inv [OF prepost_preserves(1)] triple_inv [OF bw_loop_preserves]
  show "triple (bench_start E cfg M) (lat_rdma_write E cfg) ?I ?I"
    unfolding lat_rdma_write_def Let_def block_Cons block_Nil
    by (rule triple_then [OF triple_setup [OF assms preserves_skip preserves_skip]]
        triple_then [OF ready(3)] triple_then [OF ready(1)] triple_then [OF ready(2)] triple_then [OF triple_if]
        triple_forget [OF preserves_for [OF iter_preserves(1)]] triple_then [OF triple_malloc] triple_then [OF inv(3)]
        triple_then [OF inv(2)] triple_then [OF inv(1)] triple_skip | simp)+
  show "triple (bench_start E cfg M) (bw_rdma_write E cfg) ?I ?I"
    unfolding bw_rdma_write_def Let_def block_Cons block_Nil
    by (rule triple_then [OF triple_setup [OF assms ev keeps_lat_simple(4)]]
        triple_then [OF ready(1)] triple_then [OF ready(2)] triple_then [OF triple_if]
        triple_forget preserves_spin bench_inv_silent preserves_then preserves_event bw_loop_preserves preserves_clock preserves_skip
        triple_then [OF inv(1)] triple_skip | assumption | simp)+
  show "triple (bench_start E cfg M) (lat_send_recv E cfg) ?I ?I"
    unfolding lat_send_recv_def block_Cons block_Nil
    by (rule triple_then [OF triple_setup [OF assms prepost_preserves]] triple_then [OF ready(2)] triple_then [OF triple_if]
        triple_forget [OF preserves_for [OF iter_preserves(3)]] triple_then [OF triple_malloc] triple_then [OF inv(5)]
        triple_then [OF inv(4)] triple_then [OF inv(2)] triple_skip | simp)+
qed

section \<open>Properties\<close>

text \<open>
  C29. The benchmarks leak nothing: whatever the environment does, and wherever one of the three
  programs leaves (a rejected command line, any failing call, or success), everything it acquired
  has been released when it returns: descriptors, memory, regions, queue pairs and their parts.
\<close>

theorem benchmarks_balanced:
  assumes "cm_ok E" "cm_requests_ok E" "listeners t = {}" and "body \<in> {lat_rdma_write E, bw_rdma_write E, lat_send_recv E}"
    and "bench_main E body args t = Some ((r, v), u)"
  shows "live E u = live E t"
proof -
  have "triple (bench_start E cfg (live E t)) (body cfg) (bench_inv E cfg (live E t)) (bench_inv E cfg (live E t))" for cfg
    using assms(4) bodies_safe [OF assms(1,2)] by auto
  from bench_main_balanced [OF assms(1,3) this assms(5)] show ?thesis .
qed

lemma returns_poll:
  assumes "\<And>cq t. \<exists>k. e_ret E (polls E cq k t) (Poll_cq cq) \<noteq> 0"
  shows "returns (do_poll E)"
proof -
  have "poll_loop E cq t \<noteq> None" for cq t
  proof -
    define k where "k = (LEAST k. e_ret E (polls E cq k t) (Poll_cq cq) \<noteq> 0)"
    have "e_ret E (polls E cq k t) (Poll_cq cq) \<noteq> 0" unfolding k_def by (rule LeastI_ex [OF assms])
    moreover have "e_ret E (polls E cq j t) (Poll_cq cq) = 0" if "j < k" for j
      using not_less_Least [OF that [unfolded k_def]] by blast
    ultimately show ?thesis using poll_loop_returns [of k E cq t] by (simp add: Let_def)
  qed
  then show ?thesis by (auto simp: returns_def do_poll_def rai_poll_cq_def split: option.split)
qed

lemma lat_send_recv_returns:
  assumes "\<And>cq t. \<exists>k. e_ret E (polls E cq k t) (Poll_cq cq) \<noteq> 0"
  shows "returns (lat_send_recv E cfg)"
  unfolding lat_send_recv_def bench_setup_def recv_server_iter_def recv_client_iter_def do_prepost_def block_Cons block_Nil
    do_sync_def do_listen_def do_connect_def do_mr_reg_def do_accept_def do_malloc_def do_report_def do_post_recv_def do_post_send_def
    do_sample_def
  by (auto intro!: returns_then returns_skip returns_for returns_simple returns_poll [OF assms])

lemma bench_main_returns:
  assumes "\<And>cfg. returns (body cfg)"
  shows "\<exists>r v u. bench_main E body args t = Some ((r, v), u)"
proof -
  obtain x cfg where p: "bench_config_parse args bench_config_init = (x, cfg)" by (metis surj_pair)
  obtain y w s where "body cfg bench_vars_init t = Some ((y, w), s)"
    using assms [of cfg] unfolding returns_def by (metis not_Some_eq surj_pair)
  with p show ?thesis by (simp add: bench_main_def)
qed

text \<open>
  The send and receive benchmark always ends: if the completion queue yields something
  eventually, success or failure, after however many empty polls, the program returns.
\<close>

theorem lat_send_recv_ends:
  assumes "\<And>cq t. \<exists>k. e_ret E (polls E cq k t) (Poll_cq cq) \<noteq> 0"
  shows "\<exists>r v u. bench_main E (lat_send_recv E) args t = Some ((r, v), u)"
  by (rule bench_main_returns) (rule lat_send_recv_returns [OF assms])

theorem lat_send_recv_ends_witness:
  "\<exists>r v u. bench_main cm_calm (lat_send_recv cm_calm) [''10.0.0.1''] [] = Some ((r, v), u)"
proof (rule lat_send_recv_ends)
  show "\<exists>k. e_ret cm_calm (polls cm_calm cq k t) (Poll_cq cq) \<noteq> 0" for cq t
    by (rule exI [of _ 0]) (simp add: cm_calm_def calm_def)
qed

theorem benchmarks_balanced_witness:
  "\<exists>r v u. bench_main cm_calm (lat_send_recv cm_calm) [''10.0.0.1''] [] = Some ((r, v), u) \<and> live cm_calm u = {#}"
proof -
  have p: "\<exists>k. e_ret cm_calm (polls cm_calm cq k t) (Poll_cq cq) \<noteq> 0" for cq t
    by (rule exI [of _ 0]) (simp add: cm_calm_def calm_def)
  obtain r v u where m: "bench_main cm_calm (lat_send_recv cm_calm) [''10.0.0.1''] [] = Some ((r, v), u)"
    using bench_main_returns [of "lat_send_recv cm_calm"] lat_send_recv_returns [OF p] by blast
  have "listeners [] = {}" by simp
  from benchmarks_balanced [OF cm_calm_ok cm_calm_requests this _ m] m show ?thesis by auto
qed

end
