(* ===== verification/Counts.thy ===== *)
theory Counts
  imports Frames
begin

text \<open>
  Counting over a history: the requests posted, the completions seen, and what held of the two at
  every moment. A run that touches neither leaves the counts as they are.
\<close>

section \<open>Definitions\<close>

subsection \<open>What was posted and what completed\<close>

fun is_recv :: "event \<Rightarrow> bool" where
  "is_recv (Post_recv q i g, r, d) = (r = 0)"
| "is_recv e = False"

fun is_send :: "event \<Rightarrow> bool" where
  "is_send (Post_send q w, r, d) = (r = 0)"
| "is_send e = False"

fun completions :: "event \<Rightarrow> int" where
  "completions (Poll_cq_batch q n, r, d) = max 0 r"
| "completions (Poll_cq q, r, d) = (if 0 < r then 1 else 0)"
| "completions e = 0"

definition recvs :: "trace \<Rightarrow> int" where
  "recvs t = int (length (filter is_recv t))"

definition sends :: "trace \<Rightarrow> int" where
  "sends t = int (length (filter is_send t))"

definition reaped :: "trace \<Rightarrow> int" where
  "reaped t = sum_list (map completions t)"

text \<open>At every moment at least as many receives as sends had been posted.\<close>

primrec recv_ahead :: "trace \<Rightarrow> bool" where
  "recv_ahead [] = True"
| "recv_ahead (e # t) \<longleftrightarrow> recv_ahead t \<and> sends (e # t) \<le> recvs (e # t)"

text \<open>At every moment at most \<open>n\<close> posted sends had not completed.\<close>

primrec window_kept :: "int \<Rightarrow> trace \<Rightarrow> bool" where
  "window_kept n [] = True"
| "window_kept n (e # t) \<longleftrightarrow> window_kept n t \<and> sends (e # t) - reaped (e # t) \<le> n"

text \<open>A call that posts a request or asks for completions.\<close>

fun transfer :: "call \<Rightarrow> bool" where
  "transfer (Post_send q w) = True"
| "transfer (Post_recv q i g) = True"
| "transfer (Poll_cq q) = True"
| "transfer (Poll_cq_batch q n) = True"
| "transfer c = False"

section \<open>What leaves the counts alone\<close>

lemma counts_Nil [simp]: "recvs [] = 0" "sends [] = 0" "reaped [] = 0"
  by (simp_all add: recvs_def sends_def reaped_def)

lemma counts_Cons [simp]:
  "recvs (e # t) = recvs t + of_bool (is_recv e)" "sends (e # t) = sends t + of_bool (is_send e)"
  "reaped (e # t) = reaped t + completions e"
  by (simp_all add: recvs_def sends_def reaped_def)

lemma control_transfer: "\<not> data_call c \<Longrightarrow> \<not> transfer c"
  by (cases c) simp_all

lemma adds_mono: "adds P t u \<Longrightarrow> (\<And>c. P c \<Longrightarrow> Q c) \<Longrightarrow> adds Q t u"
  by (auto simp: adds_def)

lemma only_mono: "only P m \<Longrightarrow> (\<And>c. P c \<Longrightarrow> Q c) \<Longrightarrow> only Q m"
  unfolding only_def by (blast intro: adds_mono)

lemma idle_event: "\<not> transfer c \<Longrightarrow> \<not> is_recv (c, r, d) \<and> \<not> is_send (c, r, d) \<and> completions (c, r, d) = 0"
  by (cases c) simp_all

lemma adds_counts:
  assumes "adds (\<lambda>c. \<not> transfer c) t u"
  shows "recvs u = recvs t \<and> sends u = sends t \<and> reaped u = reaped t \<and>
    (recv_ahead t \<longrightarrow> sends t \<le> recvs t \<longrightarrow> recv_ahead u) \<and> (window_kept n t \<longrightarrow> sends t - reaped t \<le> n \<longrightarrow> window_kept n u)"
proof -
  obtain s where s: "u = s @ t" "\<forall>e \<in> set s. \<not> transfer (fst e)" using assms by (auto simp: adds_def)
  from s(2) show ?thesis
    unfolding s(1)
  proof (induction s)
    case (Cons e s)
    obtain c r d where e: "e = (c, r, d)" by (cases e)
    with Cons idle_event [of c r d] show ?case by auto
  qed simp
qed

lemma adds_control_counts:
  assumes "adds_control t u"
  shows "recvs u = recvs t \<and> sends u = sends t \<and> reaped u = reaped t \<and>
    (recv_ahead t \<longrightarrow> sends t \<le> recvs t \<longrightarrow> recv_ahead u) \<and> (window_kept n t \<longrightarrow> sends t - reaped t \<le> n \<longrightarrow> window_kept n u)"
  by (rule adds_counts [OF adds_mono [OF assms control_transfer]])

text \<open>What held at every moment holds now.\<close>

lemma window_now: "window_kept n t \<Longrightarrow> 0 \<le> n \<Longrightarrow> sends t - reaped t \<le> n"
  by (cases t) simp_all

section \<open>Statements that leave the counts alone\<close>

text \<open>A statement that returns and makes only calls in \<open>P\<close>.\<close>

definition idle :: "(call \<Rightarrow> bool) \<Rightarrow> 'v stmt \<Rightarrow> bool" where
  "idle P f \<longleftrightarrow> (\<forall>v t. \<exists>r v' u. f v t = Some ((r, v'), u) \<and> adds P t u)"

lemma idle_run: "(\<And>v. only P (m v)) \<Longrightarrow> idle P (run_stmt m)"
  unfolding idle_def run_stmt_def by (metis onlyD surj_pair)

lemma idle_call: "(\<And>v. only P (m v)) \<Longrightarrow> idle P (do_call m)"
  unfolding idle_def do_call_def by (metis (mono_tags, lifting) case_prod_conv onlyD surj_pair)

lemma idle_simple:
  "idle P skip" "(\<And>v. P (c v)) \<Longrightarrow> idle P (do_event E c)" "idle P (set_vars f)" "P Clock_gettime \<Longrightarrow> idle P (do_clock E g)"
  by (auto simp: idle_def skip_def do_event_def set_vars_def do_clock_def adds_call)

lemma idle_then: "idle P f \<Longrightarrow> idle P g \<Longrightarrow> idle P (then_do f g)"
  unfolding idle_def
proof (intro allI)
  fix v t
  assume f: "\<forall>v t. \<exists>r v' u. f v t = Some ((r, v'), u) \<and> adds P t u" and g: "\<forall>v t. \<exists>r v' u. g v t = Some ((r, v'), u) \<and> adds P t u"
  obtain x w s where x: "f v t = Some ((x, w), s)" "adds P t s" using f by blast
  obtain r v' u where r: "g w s = Some ((r, v'), u)" "adds P s u" using g by blast
  show "\<exists>r v' u. then_do f g v t = Some ((r, v'), u) \<and> adds P t u"
    using x r adds_trans [OF x(2) r(2)] by (cases "x = 0") (auto simp: then_do_def)
qed

lemma idle_for: "(\<And>i. idle P (f i)) \<Longrightarrow> idle P (for_each f is)"
  by (induction "is") (auto intro: idle_then idle_simple)

lemma idle_mono: "idle P f \<Longrightarrow> (\<And>c. P c \<Longrightarrow> Q c) \<Longrightarrow> idle Q f"
  unfolding idle_def by (meson adds_mono)

section \<open>Polling only for what is outstanding\<close>

text \<open>While something is outstanding, a poll yields something after some empty ones.\<close>

definition poll_live :: "env \<Rightarrow> bool" where
  "poll_live E \<longleftrightarrow> (\<forall>t cq. 0 < sends t - reaped t \<longrightarrow> (\<exists>k. e_ret E (polls E cq k t) (Poll_cq cq) \<noteq> 0))"

text \<open>\<open>s\<close> operations have been posted and \<open>k\<close> seen complete, never more than \<open>d\<close> apart.\<close>

definition kflow :: "int \<Rightarrow> int \<Rightarrow> int \<Rightarrow> 'v \<Rightarrow> trace \<Rightarrow> bool" where
  "kflow d s k v t \<longleftrightarrow> sends t = s \<and> reaped t = k \<and> s - k \<le> d \<and> window_kept d t"

definition kany :: "int \<Rightarrow> 'v \<Rightarrow> trace \<Rightarrow> bool" where
  "kany d v t \<longleftrightarrow> window_kept d t"

lemma kflow_idle:
  fixes f :: "'v stmt"
  shows "idle (\<lambda>c. \<not> transfer c) f \<Longrightarrow> reaches (kflow d s k) f (kflow d s k) (kany d)"
  unfolding reaches_def
proof (intro allI impI)
  fix v :: 'v and t assume "idle (\<lambda>c. \<not> transfer c) f" and i: "kflow d s k v t"
  then obtain r v' u where f: "f v t = Some ((r, v'), u)" "adds (\<lambda>c. \<not> transfer c) t u" unfolding idle_def by blast
  from adds_counts [OF f(2), of d] i have "kflow d s k v' u" by (simp add: kflow_def)
  then show "\<exists>r v' u. f v t = Some ((r, v'), u) \<and> (if r = 0 then kflow d s k v' u else kany d v' u)"
    using f(1) by (auto simp: kflow_def kany_def)
qed

lemma kflow_polled:
  "n \<le> 0 \<Longrightarrow> kflow d s k v t \<Longrightarrow> kflow d s k v ((Poll_cq q, n, x) # t)"
  "0 < n \<Longrightarrow> kflow d s k v t \<Longrightarrow> kflow d s (k + 1) v ((Poll_cq q, n, x) # t)"
  "kflow d s k v t \<Longrightarrow> kany d v t"
  "kflow d s k v t \<Longrightarrow> kany d v ((Poll_cq q, n, x) # t)"
  by (auto simp: kflow_def kany_def)

lemma poll_counts:
  assumes "poll_loop E cq t = Some (x, u)" and "kflow d s k v t"
  shows "if fst x = 0 then kflow d s (k + 1) v u else kany d v u"
proof -
  have "kflow d s k v t \<longrightarrow> (if fst (fst (x, u)) = 0 then kflow d s (k + 1) v (snd (x, u)) else kany d v (snd (x, u)))"
  proof (rule poll_loop.raw_induct [OF _ assms(1)], goal_cases)
    case (1 loop E cq t y)
    let ?n = "e_ret E t (Poll_cq cq)"
    let ?t = "(Poll_cq cq, ?n, e_data E t (Poll_cq cq)) # t"
    consider "?n < 0" | "0 < ?n" | "?n = 0" by linarith
    then show ?case
    proof cases
      case 3
      then have "loop E cq ?t = Some y" using 1(2) by simp
      with 1(1) kflow_polled(1) [of ?n d s k v] 3 show ?thesis by simp
    qed (use 1(2) in \<open>auto simp: Let_def intro: kflow_polled split: if_splits\<close>)
  qed
  with assms(2) show ?thesis by (auto split: if_splits)
qed

text \<open>A poll while something is outstanding returns.\<close>

lemma poll_live_returns:
  assumes "poll_live E" and "0 < sends t - reaped t"
  shows "poll_loop E cq t \<noteq> None"
proof -
  define n where "n = (LEAST n. e_ret E (polls E cq n t) (Poll_cq cq) \<noteq> 0)"
  have "e_ret E (polls E cq n t) (Poll_cq cq) \<noteq> 0"
    unfolding n_def by (rule LeastI_ex) (use assms in \<open>auto simp: poll_live_def\<close>)
  moreover have "e_ret E (polls E cq j t) (Poll_cq cq) = 0" if "j < n" for j
    using not_less_Least [OF that [unfolded n_def]] by blast
  ultimately show ?thesis using poll_loop_returns [of n E cq t] by (simp add: Let_def)
qed

section \<open>Receives ahead of sends\<close>

text \<open>\<open>s\<close> sends and \<open>k\<close> receives have been posted, the receives always ahead.\<close>

definition flow :: "int \<Rightarrow> int \<Rightarrow> 'v \<Rightarrow> trace \<Rightarrow> bool" where
  "flow s k v t \<longleftrightarrow> sends t = s \<and> recvs t = k \<and> s \<le> k \<and> recv_ahead t"

definition flow_any :: "'v \<Rightarrow> trace \<Rightarrow> bool" where
  "flow_any v t \<longleftrightarrow> recv_ahead t"

lemma flow_idle:
  fixes f :: "'v stmt"
  shows "idle (\<lambda>c. \<not> transfer c) f \<Longrightarrow> triple (flow s k) f (flow s k) flow_any"
proof (rule tripleI)
  fix v v' :: 'v and t r u assume f: "idle (\<lambda>c. \<not> transfer c) f" and i: "flow s k v t" and r: "f v t = Some ((r, v'), u)"
  then have "adds (\<lambda>c. \<not> transfer c) t u" unfolding idle_def by (metis option.inject prod.inject)
  from adds_counts [OF this, of 0] i have "flow s k v' u" by (simp add: flow_def)
  then show "if r = 0 then flow s k v' u else flow_any v' u" by (simp add: flow_def flow_any_def)
qed

lemma flow_polled:
  assumes "poll_loop E cq t = Some (x, u)" and "flow s k v t"
  shows "flow s k v u"
  by (rule poll_invariant [OF assms(1)]) (use assms(2) in \<open>auto simp: flow_def\<close>)

section \<open>Set-up is control\<close>

lemma only_op:
  "(\<And>h p. only P (f h p)) \<Longrightarrow> (\<And>p. only P (g p)) \<Longrightarrow> only P a \<Longrightarrow>
     only P (case op of Op_connect h p \<Rightarrow> f h p | Op_listen p \<Rightarrow> g p | Op_accept \<Rightarrow> a)"
  by (cases op) simp_all

lemma control_transports:
  "control (tcp_op E op tr)" "control (rdma_op E op tr')" "control (rdma_exchange_buf E tr' h a k)" "control (tcp_close E tr)" "control (rdma_close E tr')"
  unfolding tcp_op_def tcp_connect_def tcp_listen_def tcp_accept_def rdma_op_def rdma_connect_def rdma_listen_def rdma_accept_def
    rdma_reset_def close_listen_fd_def rdma_exchange_buf_def tcp_close_def close_fd_def rdma_close_def Let_def
  by (intro only_op only_intros control_cm control_destroy control_oob; simp)+

lemma control_tcp_transfers:
  "control (tcp_send_async E tr m h len i off)" "control (tcp_recv_async E tr h len i off m')" "control (tcp_poll x)"
  unfolding tcp_send_async_def tcp_recv_async_def tcp_poll_def tcp_send_all_def tcp_recv_all_def Let_def
  by (intro only_intros; simp)+

lemma control_buffers:
  "control (scoped_buffer_init E b tr a n)" "control (scoped_buffer_destroy E b)"
  unfolding scoped_buffer_init_def rdma_reg_buf_def rai_mr_reg_external_def scoped_buffer_destroy_def rdma_dereg_buf_def Let_def
  by (intro only_intros control_mr; simp)+

section \<open>An outside in which everything works\<close>

lemma build_ok: "run_state (build_qp_from_cm E q i) t = ((0, q'), u) \<Longrightarrow> q_pd q' \<noteq> 0 \<and> q_cq q' \<noteq> 0"
  by (auto simp: build_qp_from_cm_def run_simps Let_def split: if_splits)

lemma connect_ok: "run_state (rai_cm_connect_qp E q ip port) t = ((0, q'), u) \<Longrightarrow> q_pd q' \<noteq> 0 \<and> q_cq q' \<noteq> 0"
  by (auto simp: rai_cm_connect_qp_def cm_connect_out_def run_simps Let_def split: if_splits prod.splits dest: build_ok)

lemma calm_data:
  "e_ret cm_calm t (Post_recv a b c) = 0" "e_ret cm_calm t (Post_send a d) = 0" "e_ret cm_calm t (Poll_cq a) = 1" "e_wc_success cm_calm t"
  "e_ret cm_calm t (Malloc n) = 8192" "e_ret cm_calm t (Reg_mr a x y s) = 15" "e_ret cm_calm t (Posix_memalign i n) = 0"
  "e_ret cm_calm t (Inet_pton ip) = 1" "e_ret cm_calm t Socket = 3" "e_ret cm_calm t (Connect i ip p) = 0" "e_memory cm_calm t = 4096"
  by (simp_all add: cm_calm_def calm_def)

lemma calm_transfers: "fst (send_loop cm_calm fd xs 0 t) = 0" "fst (fst (recv_loop cm_calm fd n b 0 t)) = 0"
  by (subst send_loop.simps, simp add: Let_def, subst send_loop.simps, simp add: cm_calm_def calm_def)
    (subst recv_loop.simps, simp add: Let_def, subst recv_loop.simps, simp add: cm_calm_def calm_def)

lemma calm_oob:
  "run_state (rai_oob_connect cm_calm (Some q) (Some ip) port) t = ((x, q'), w) \<Longrightarrow> x = 0"
  using calm_transfers
  by (auto simp: rai_oob_connect_def run_simps run_send_all run_recv_all Let_def calm_data split: if_splits prod.splits) (metis fst_conv)+

end
