(* ===== verification/Bench_Flow.thy ===== *)
theory Bench_Flow
  imports Verbs_Bench Counts
begin

text \<open>
  The flow control of the phase1 benchmarks, as facts about the whole history of a run: receives
  are posted before what they receive can be sent, the window of outstanding writes never exceeds
  the depth, and every sample of a latency report is the time a round took.
\<close>

text \<open>What libibverbs promises of a completion queue: no more completions than requests.\<close>

definition cq_honest :: "env \<Rightarrow> bool" where
  "cq_honest E \<longleftrightarrow> (\<forall>t q n. e_ret E t (Poll_cq_batch q n) \<le> sends t - reaped t)"

text \<open>A statement that only sets up or tears down.\<close>

definition set_up :: "bench_vars stmt \<Rightarrow> bool" where
  "set_up f \<longleftrightarrow> (\<forall>v t r v' u. f v t = Some ((r, v'), u) \<longrightarrow> adds_control t u)"

lemma set_up_calls:
  "set_up (do_listen E cfg)" "set_up (do_connect E cfg)" "set_up (do_mr_reg E len)" "set_up (do_accept E cfg)"
  "set_up (do_sync E cfg)" "set_up (do_malloc E cfg)" "set_up (set_local E)" "set_up (do_report cfg)" "set_up skip"
proof -
  have r: "set_up (run_stmt m)" if "\<And>v. control (m v)" for m
    using that by (auto simp: set_up_def run_stmt_def dest: onlyD)
  note i = only_intros control_verbs control_cm control_oob control_mr
  show "set_up (do_listen E cfg)" "set_up (do_connect E cfg)" "set_up (do_mr_reg E len)" "set_up (do_sync E cfg)" "set_up (do_malloc E cfg)"
    unfolding do_listen_def do_connect_def do_mr_reg_def do_sync_def do_malloc_def bench_listen_def bench_connect_def
    by (intro r i; simp)+
  have "control (bench_accept E q cfg)" for q unfolding bench_accept_def by (intro i)
  then show "set_up (do_accept E cfg)"
    by (auto simp: set_up_def do_accept_def do_call_def split: prod.splits dest: onlyD)
  show "set_up (set_local E)" "set_up (do_report cfg)" "set_up skip"
    by (auto simp: set_up_def set_local_def do_report_def set_vars_def)
qed

section \<open>Receives ahead of sends\<close>

lemma set_upD: "set_up f \<Longrightarrow> f v t = Some ((r, v'), u) \<Longrightarrow> adds_control t u"
  by (auto simp: set_up_def)

lemma flow_set_up: "set_up f \<Longrightarrow> triple (flow s k) f (flow s k) flow_any"
proof (rule tripleI)
  fix v t r v' u assume "set_up f" "flow s k v t" "f v t = Some ((r, v'), u)"
  with adds_control_counts [OF set_upD, of f v t r v' u 0] show "if r = 0 then flow s k v' u else flow_any v' u"
    by (auto simp: flow_def flow_any_def)
qed

lemma flow_recv: "triple (flow s k) (do_post_recv E cfg) (flow s (k + 1)) flow_any"
  unfolding do_post_recv_def
  by (rule triple_call) (auto simp: flow_def flow_any_def rai_post_recv_def run_simps split: option.splits if_splits)

lemma flow_send: "s < k \<Longrightarrow> triple (flow s k) (do_post_send E cfg) (flow (s + 1) k) flow_any"
  unfolding do_post_send_def
  by (rule triple_call) (auto simp: flow_def flow_any_def rai_post_send_def run_simps split: option.splits if_splits)

lemma flow_poll: "triple (flow s k) (do_poll E) (flow s k) flow_any"
proof (rule tripleI)
  fix v t r v' u assume i: "flow s k v t" and p: "do_poll E v t = Some ((r, v'), u)"
  then have "u = t \<or> (\<exists>x. poll_loop E (q_cq (bv_qp v)) t = Some (x, u))"
    by (auto simp: do_poll_def rai_poll_cq_def split: option.splits if_splits)
  then have "flow s k v u" using poll_invariant [of E "q_cq (bv_qp v)" t _ u "flow s k v"] i by (auto simp: flow_def)
  then show "if r = 0 then flow s k v' u else flow_any v' u" by (auto simp: flow_def flow_any_def)
qed

lemma flow_clock: "triple (flow s k) (do_clock E f) (flow s k) flow_any"
  by (rule tripleI) (auto simp: flow_def do_clock_def)

lemma flow_sample: "triple (flow s k) (do_sample E i) (flow s k) flow_any"
  unfolding do_sample_def by (intro triple_if flow_clock triple_skip)

lemma flow_refill:
  assumes "i + p < n \<longrightarrow> k + 1 = k'" "\<not> i + p < n \<longrightarrow> k = k'"
  shows "triple (flow s k) (if i + p < n then do_post_recv E cfg else skip) (flow s k') flow_any"
  using assms flow_recv [of s k E cfg] triple_skip [of "flow s k" flow_any] by auto

text \<open>The configurations whose counters do not overflow.\<close>

definition roomy :: "bench_config \<Rightarrow> bool" where
  "roomy cfg \<longleftrightarrow> config_ok cfg \<and> kWarmup + bc_iters cfg + bc_depth cfg \<le> 2 ^ 31"

lemma total_iters_fits: "config_ok cfg \<Longrightarrow> kWarmup + bc_iters cfg < 2 ^ 31 \<Longrightarrow> total_iters cfg = kWarmup + bc_iters cfg"
  by (simp add: total_iters_def config_ok_def kWarmup_def)

lemma roomy_facts:
  assumes "roomy cfg"
  shows "total_iters cfg = kWarmup + bc_iters cfg" "1 \<le> prepost cfg" "prepost cfg \<le> total_iters cfg"
    and "0 \<le> i \<Longrightarrow> i < total_iters cfg \<Longrightarrow> c_int (i + prepost cfg) = i + prepost cfg"
proof -
  show t: "total_iters cfg = kWarmup + bc_iters cfg"
    by (rule total_iters_fits) (use assms in \<open>auto simp: roomy_def config_ok_def\<close>)
  show "1 \<le> prepost cfg" "prepost cfg \<le> total_iters cfg" using assms t by (auto simp: prepost_def roomy_def config_ok_def kWarmup_def)
  have "prepost cfg \<le> bc_depth cfg" "0 \<le> prepost cfg" using assms t by (auto simp: prepost_def roomy_def config_ok_def kWarmup_def)
  then show "c_int (i + prepost cfg) = i + prepost cfg" if "0 \<le> i" "i < total_iters cfg"
    by (intro c_int_id) (use that assms t in \<open>auto simp: roomy_def\<close>)
qed

lemma flow_prepost: "roomy cfg \<Longrightarrow> triple (flow 0 0) (do_prepost E cfg) (flow 0 (prepost cfg)) flow_any"
proof -
  assume "roomy cfg"
  then have "0 \<le> prepost cfg" using roomy_facts(2) by fastforce
  then show ?thesis
    unfolding do_prepost_def
    using triple_upto [of 0 "prepost cfg - 1" "\<lambda>i. flow 0 i" "\<lambda>j. do_post_recv E cfg" flow_any] flow_recv by simp
qed

text \<open>The receives posted before round \<open>i\<close>.\<close>

abbreviation posted_by :: "bench_config \<Rightarrow> int \<Rightarrow> int" where
  "posted_by cfg i \<equiv> min (i + prepost cfg) (total_iters cfg)"

lemma flow_rounds:
  assumes "roomy cfg" and "0 \<le> i" "i < total_iters cfg"
  shows "triple (flow i (posted_by cfg i)) (recv_server_iter E cfg i) (flow (i + 1) (posted_by cfg (i + 1))) flow_any"
    and "triple (flow i (posted_by cfg i)) (recv_client_iter E cfg i) (flow (i + 1) (posted_by cfg (i + 1))) flow_any"
proof -
  note p = roomy_facts(2) [OF assms(1)] and n = roomy_facts(4) [OF assms]
  have refill: "triple (flow i (posted_by cfg i)) (if c_int (i + prepost cfg) < total_iters cfg then do_post_recv E cfg else skip)
      (flow i (posted_by cfg (i + 1))) flow_any"
    unfolding n by (rule flow_refill) auto
  have send: "triple (flow i (posted_by cfg (i + 1))) (do_post_send E cfg) (flow (i + 1) (posted_by cfg (i + 1))) flow_any"
    by (rule flow_send) (use p assms(3) in auto)
  show "triple (flow i (posted_by cfg i)) (recv_server_iter E cfg i) (flow (i + 1) (posted_by cfg (i + 1))) flow_any"
    unfolding recv_server_iter_def block_Cons block_Nil
    by (rule triple_then [OF flow_poll triple_then [OF refill triple_then [OF send triple_then [OF flow_poll triple_skip]]]])
  show "triple (flow i (posted_by cfg i)) (recv_client_iter E cfg i) (flow (i + 1) (posted_by cfg (i + 1))) flow_any"
    unfolding recv_client_iter_def block_Cons block_Nil
    by (rule triple_then [OF refill triple_then [OF flow_clock triple_then [OF send triple_then [OF flow_poll
        triple_then [OF flow_poll triple_then [OF flow_sample triple_skip]]]]]])
qed

lemma flow_loops:
  assumes "roomy cfg"
  shows "triple (flow 0 (prepost cfg)) (for_each (recv_server_iter E cfg) [0..total_iters cfg - 1]) (flow (total_iters cfg) (total_iters cfg)) flow_any"
    and "triple (flow 0 (prepost cfg)) (for_each (recv_client_iter E cfg) [0..total_iters cfg - 1]) (flow (total_iters cfg) (total_iters cfg)) flow_any"
proof -
  have e: "posted_by cfg 0 = prepost cfg" "posted_by cfg (total_iters cfg) = total_iters cfg" "0 \<le> total_iters cfg"
    using roomy_facts(1-3) [OF assms] by auto
  show "triple (flow 0 (prepost cfg)) (for_each (recv_server_iter E cfg) [0..total_iters cfg - 1]) (flow (total_iters cfg) (total_iters cfg)) flow_any"
    using triple_upto [of 0 "total_iters cfg - 1" "\<lambda>i. flow i (posted_by cfg i)" "recv_server_iter E cfg" flow_any] flow_rounds(1) [OF assms] e
    by simp
  show "triple (flow 0 (prepost cfg)) (for_each (recv_client_iter E cfg) [0..total_iters cfg - 1]) (flow (total_iters cfg) (total_iters cfg)) flow_any"
    using triple_upto [of 0 "total_iters cfg - 1" "\<lambda>i. flow i (posted_by cfg i)" "recv_client_iter E cfg" flow_any] flow_rounds(2) [OF assms] e
    by simp
qed

lemma flow_body:
  assumes "roomy cfg"
  shows "triple (flow 0 0) (lat_send_recv E cfg) (flow (total_iters cfg) (total_iters cfg)) flow_any"
proof (cases "is_server cfg")
  case True
  show ?thesis
    unfolding lat_send_recv_def bench_setup_def if_P [OF True] block_Cons block_Nil
    by (rule triple_then [OF triple_then [OF flow_set_up [OF set_up_calls(1)] triple_then [OF flow_set_up [OF set_up_calls(3)]
        triple_then [OF flow_prepost [OF assms] triple_then [OF flow_set_up [OF set_up_calls(4)] triple_skip]]]]
        triple_then [OF flow_set_up [OF set_up_calls(5)] triple_then [OF flow_loops(1) [OF assms] triple_skip]]])
next
  case False
  show ?thesis
    unfolding lat_send_recv_def bench_setup_def if_not_P [OF False] block_Cons block_Nil
    by (rule triple_then [OF triple_then [OF flow_set_up [OF set_up_calls(2)] triple_then [OF flow_set_up [OF set_up_calls(3)] triple_skip]]
        triple_then [OF flow_set_up [OF set_up_calls(5)] triple_then [OF triple_then [OF flow_set_up [OF set_up_calls(6)]
          triple_then [OF flow_prepost [OF assms] triple_then [OF flow_loops(2) [OF assms] triple_then [OF flow_set_up [OF set_up_calls(8)] triple_skip]]]]
          triple_skip]]])
qed

section \<open>The window of outstanding writes\<close>

text \<open>The counters of the loop are the posts and completions of the history.\<close>

definition win :: "bench_config \<Rightarrow> bench_vars \<Rightarrow> trace \<Rightarrow> bool" where
  "win cfg v t \<longleftrightarrow> sends t = uint (bv_scnt v) \<and> reaped t = uint (bv_ccnt v) \<and> bv_ccnt v \<le> bv_scnt v \<and>
     bv_scnt v \<le> word_of_int (total_iters cfg) \<and> sends t - reaped t \<le> bc_depth cfg \<and> window_kept (bc_depth cfg) t"

lemma uint_bound: "uint (x :: u64) < 2 ^ 64"
  using uint_lt2p [of x] by simp

lemma window_open_counts:
  assumes "win cfg v t" and "window_open cfg v" and "1 \<le> bc_depth cfg" "bc_depth cfg \<le> 127"
  shows "sends t - reaped t < bc_depth cfg" and "uint (bv_scnt v + 1) = uint (bv_scnt v) + 1" "bv_scnt v + 1 \<le> word_of_int (total_iters cfg)"
    "bv_ccnt v \<le> bv_scnt v + 1"
proof -
  let ?n = "word_of_int (total_iters cfg) :: u64"
  have o: "bv_scnt v < ?n" "bv_scnt v - bv_ccnt v < word_of_int (bc_depth cfg)" using assms(2) by (simp_all add: window_open_def)
  have le: "bv_ccnt v \<le> bv_scnt v" using assms(1) by (simp add: win_def)
  have d: "uint (word_of_int (bc_depth cfg) :: u64) = bc_depth cfg"
    using assms(3,4) by (simp add: uint_word_of_int take_bit_int_eq_self)
  show "sends t - reaped t < bc_depth cfg"
    using o(2) le d assms(1) by (simp add: word_less_def word_le_def uint_sub_if' win_def)
  show u: "uint (bv_scnt v + 1) = uint (bv_scnt v) + 1"
    using o(1) uint_bound [of ?n] by (simp add: word_less_def uint_plus_if')
  show "bv_scnt v + 1 \<le> ?n" using o(1) u by (simp add: word_le_def word_less_def)
  show "bv_ccnt v \<le> bv_scnt v + 1" using le u by (simp add: word_le_def)
qed

lemma win_post_one:
  assumes "config_ok cfg" and "win cfg v t" and "window_open cfg v" and "run_state (post_one E cfg v) t = ((r, v'), u)"
  shows "if r = 0 then win cfg v' u else window_kept (bc_depth cfg) u"
proof -
  define t1 where "t1 = snd (run_state (drop_if E (bv_scnt v = word_of_int (total_iters cfg) - 1)
    (Store (mr_buf (bv_mr v) + word_of_int (bc_size cfg) - 1) [1])) t)"
  define t2 where "t2 = (if bv_scnt v = word_of_int kWarmup then (Clock_gettime, e_ret E t1 Clock_gettime, e_data E t1 Clock_gettime) # t1 else t1)"
  have i2: "sends t2 = sends t" "reaped t2 = reaped t" "window_kept (bc_depth cfg) t2"
    using assms(2) by (auto simp: t1_def t2_def run_simps win_def)
  have d: "1 \<le> bc_depth cfg" "bc_depth cfg \<le> 127" using assms(1) by (auto simp: config_ok_def)
  obtain p s where w: "run_state (rai_post_write E (Some (bv_qp v)) (Some (bv_mr v)) (word_of_int (bc_size cfg)) {SEND_SIGNALED}
      (ci_addr (q_remote (bv_qp v))) (ci_rkey (q_remote (bv_qp v))) 1 0) t2 = (p, s)" by (metis surj_pair)
  have e: "u = s" "r = 0 \<longleftrightarrow> p = 0" "bv_ccnt v' = bv_ccnt v" "r = 0 \<longrightarrow> bv_scnt v' = bv_scnt v + 1"
    using assms(4) w by (auto simp: post_one_def run_simps Let_def t1_def t2_def split: if_splits)
  note o = window_open_counts [OF assms(2,3) d]
  have "reaped s = reaped t \<and> sends s = sends t + of_bool (p = 0) \<and> window_kept (bc_depth cfg) s"
    using w i2 o(1) assms(2) by (auto simp: rai_post_write_def run_simps win_def split: option.splits if_splits)
  then show ?thesis using e o assms(2) by (auto simp: win_def)
qed

lemma win_post_window:
  "config_ok cfg \<Longrightarrow> win cfg v t \<Longrightarrow> post_window E cfg v t = ((r, v'), u) \<Longrightarrow>
     if r = 0 then win cfg v' u else window_kept (bc_depth cfg) u"
proof (induction E cfg v t rule: post_window.induct)
  case (1 E cfg v t)
  obtain x w s where p: "run_state (post_one E cfg v) t = ((x, w), s)" by (metis surj_pair)
  show ?case
  proof (cases "window_open cfg v \<and> x = 0")
    case True
    then have "post_window E cfg w s = ((r, v'), u)" using 1(4) p by (subst (asm) post_window.simps) simp
    with 1(1) [OF _ p [symmetric] refl] win_post_one [OF 1(2,3) _ p] True 1(2) show ?thesis by auto
  next
    case False
    with 1(3,4) p win_post_one [OF 1(2,3) _ p] show ?thesis by (subst (asm) post_window.simps) (auto split: if_splits)
  qed
qed

lemma win_reap:
  assumes "cq_honest E" and "win cfg v t" and "reap E v t = ((r, v'), u)"
  shows "if r = 0 then win cfg v' u else window_kept (bc_depth cfg) u"
proof -
  define c where "c = Poll_cq_batch (q_cq (bv_qp v)) CQ_POLL_BATCH"
  define ne where "ne = e_ret E t c"
  have h: "ne \<le> sends t - reaped t" using assms(1) by (simp add: cq_honest_def ne_def c_def)
  have k: "window_kept (bc_depth cfg) u"
    using assms(2,3) by (auto simp: reap_def Let_def win_def split: if_splits)
  show ?thesis
  proof (cases "r = 0")
    case True
    then have e: "0 \<le> ne" "v' = v\<lparr>bv_ccnt := bv_ccnt v + word_of_int ne\<rparr>" "u = (c, ne, e_data E t c) # t"
      using assms(3) by (auto simp: reap_def Let_def ne_def c_def split: if_splits)
    have s: "sends t = uint (bv_scnt v)" "reaped t = uint (bv_ccnt v)" using assms(2) by (auto simp: win_def)
    have b: "uint (bv_ccnt v) + ne \<le> uint (bv_scnt v)" using h s by linarith
    then have "ne < 2 ^ 64" using uint_bound [of "bv_scnt v"] uint_ge_0 [of "bv_ccnt v"] by linarith
    then have "uint (word_of_int ne :: u64) = ne" using e(1) by (simp add: uint_word_of_int take_bit_int_eq_self)
    then have "uint (bv_ccnt v + word_of_int ne) = uint (bv_ccnt v) + ne"
      using b uint_bound [of "bv_scnt v"] by (simp add: uint_plus_if')
    with e s b k True assms(2) show ?thesis by (auto simp: win_def c_def word_le_def)
  qed (simp add: k)
qed

lemma win_loop:
  assumes "config_ok cfg" and "cq_honest E"
  shows "triple (win cfg) (bw_loop E cfg) (\<lambda>v t. win cfg v t \<and> \<not> bv_ccnt v < word_of_int (total_iters cfg))
    (\<lambda>v t. window_kept (bc_depth cfg) t)"
proof (rule tripleI)
  fix v t r v' u assume i: "win cfg v t" and b: "bw_loop E cfg v t = Some ((r, v'), u)"
  have "config_ok cfg \<longrightarrow> cq_honest E \<longrightarrow> win cfg v t \<longrightarrow> (case ((r, v'), u) of ((r, v'), u) \<Rightarrow>
      if r = 0 then win cfg v' u \<and> \<not> bv_ccnt v' < word_of_int (total_iters cfg) else window_kept (bc_depth cfg) u)"
  proof (rule bw_loop.raw_induct [OF _ b], goal_cases)
    case (1 loop E cfg v t y)
    obtain r1 v1 u1 where p: "post_window E cfg v t = ((r1, v1), u1)" by (metis surj_pair)
    obtain r2 v2 u2 where q: "reap E v1 u1 = ((r2, v2), u2)" by (metis surj_pair)
    show ?case
      using 1 p q win_post_window [of cfg v t E r1 v1 u1] win_reap [of E cfg v1 u1 r2 v2 u2] by (auto split: if_splits)
  qed
  with i assms show "if r = 0 then win cfg v' u \<and> \<not> bv_ccnt v' < word_of_int (total_iters cfg) else window_kept (bc_depth cfg) u" by simp
qed

definition win0 :: "bench_config \<Rightarrow> bench_vars \<Rightarrow> trace \<Rightarrow> bool" where
  "win0 cfg v t \<longleftrightarrow> bv_scnt v = 0 \<and> bv_ccnt v = 0 \<and> sends t = 0 \<and> reaped t = 0 \<and> window_kept (bc_depth cfg) t"

abbreviation win_any :: "bench_config \<Rightarrow> bench_vars \<Rightarrow> trace \<Rightarrow> bool" where
  "win_any cfg v t \<equiv> window_kept (bc_depth cfg) t"

lemma win0_set_up:
  assumes "set_up f" and "\<And>v t r v' u. f v t = Some ((r, v'), u) \<Longrightarrow> bv_scnt v' = bv_scnt v \<and> bv_ccnt v' = bv_ccnt v" and "config_ok cfg"
  shows "triple (win0 cfg) f (win0 cfg) (win_any cfg)"
proof (rule tripleI)
  fix v t r v' u assume "win0 cfg v t" "f v t = Some ((r, v'), u)"
  with adds_control_counts [OF set_upD [OF assms(1)], of v t r v' u "bc_depth cfg"] assms(2,3)
  show "if r = 0 then win0 cfg v' u else win_any cfg v' u" by (auto simp: win0_def config_ok_def)
qed

lemma counters_kept:
  "do_listen E cfg v t = Some ((r, v'), u) \<Longrightarrow> bv_scnt v' = bv_scnt v \<and> bv_ccnt v' = bv_ccnt v"
  "do_connect E cfg v t = Some ((r, v'), u) \<Longrightarrow> bv_scnt v' = bv_scnt v \<and> bv_ccnt v' = bv_ccnt v"
  "do_mr_reg E len v t = Some ((r, v'), u) \<Longrightarrow> bv_scnt v' = bv_scnt v \<and> bv_ccnt v' = bv_ccnt v"
  "do_accept E cfg v t = Some ((r, v'), u) \<Longrightarrow> bv_scnt v' = bv_scnt v \<and> bv_ccnt v' = bv_ccnt v"
  "do_sync E cfg v t = Some ((r, v'), u) \<Longrightarrow> bv_scnt v' = bv_scnt v \<and> bv_ccnt v' = bv_ccnt v"
  "set_local E v t = Some ((r, v'), u) \<Longrightarrow> bv_scnt v' = bv_scnt v \<and> bv_ccnt v' = bv_ccnt v"
  by (auto simp: do_listen_def do_connect_def do_mr_reg_def do_accept_def do_sync_def set_local_def run_stmt_def do_call_def
      set_vars_def run_simps split: prod.splits)

lemmas win0_calls = win0_set_up [OF set_up_calls(1) counters_kept(1)] win0_set_up [OF set_up_calls(2) counters_kept(2)]
  win0_set_up [OF set_up_calls(3) counters_kept(3)] win0_set_up [OF set_up_calls(4) counters_kept(4)]
  win0_set_up [OF set_up_calls(5) counters_kept(5)] win0_set_up [OF set_up_calls(7) counters_kept(6)]

definition win_done :: "bench_config \<Rightarrow> bench_vars \<Rightarrow> trace \<Rightarrow> bool" where
  "win_done cfg v t \<longleftrightarrow> sends t = total_iters cfg \<and> reaped t = total_iters cfg \<and> window_kept (bc_depth cfg) t"

lemma win_all_done:
  assumes "config_ok cfg" and "kWarmup + bc_iters cfg < 2 ^ 31" and "win cfg v t" and "\<not> bv_ccnt v < word_of_int (total_iters cfg)"
  shows "win_done cfg v t"
proof -
  have "0 \<le> total_iters cfg" "total_iters cfg < 2 ^ 64"
    using assms(1,2) total_iters_fits [OF assms(1,2)] by (auto simp: config_ok_def kWarmup_def)
  then have "uint (word_of_int (total_iters cfg) :: u64) = total_iters cfg"
    by (simp add: uint_word_of_int take_bit_int_eq_self)
  with assms(3,4) show ?thesis by (auto simp: win_def win_done_def word_less_def word_le_def)
qed

lemma win_steps:
  assumes "config_ok cfg" and "kWarmup + bc_iters cfg < 2 ^ 31" and "cq_honest E"
  shows "triple (win0 cfg) (do_event E (\<lambda>v. Store (d v) [0])) (win cfg) (win_any cfg)"
    and "triple (win cfg) (bw_loop E cfg) (win_done cfg) (win_any cfg)"
    and "triple (win_done cfg) (do_clock E f) (win_done cfg) (win_any cfg)"
    and "triple (win_done cfg) (do_sync E cfg) (win_done cfg) (win_any cfg)"
proof -
  show "triple (win0 cfg) (do_event E (\<lambda>v. Store (d v) [0])) (win cfg) (win_any cfg)"
    using assms(1) by (intro tripleI) (auto simp: do_event_def win0_def win_def config_ok_def)
  show "triple (win cfg) (bw_loop E cfg) (win_done cfg) (win_any cfg)"
    using win_loop [OF assms(1,3)] win_all_done [OF assms(1,2)] by (auto intro: triple_weaken)
  show "triple (win_done cfg) (do_clock E f) (win_done cfg) (win_any cfg)"
    using assms(1) by (intro tripleI) (auto simp: do_clock_def win_done_def config_ok_def)
  show "triple (win_done cfg) (do_sync E cfg) (win_done cfg) (win_any cfg)"
  proof (rule tripleI)
    fix v t r v' u assume "win_done cfg v t" "do_sync E cfg v t = Some ((r, v'), u)"
    with adds_control_counts [OF set_upD [OF set_up_calls(5)], of E cfg v t r v' u "bc_depth cfg"] assms(1)
    show "if r = 0 then win_done cfg v' u else win_any cfg v' u" by (auto simp: win_done_def config_ok_def)
  qed
qed

lemma win_set_up:
  assumes "config_ok cfg" and "\<not> is_server cfg"
  shows "triple (win0 cfg) (bench_setup E cfg len p) (win0 cfg) (win_any cfg)"
  unfolding bench_setup_def if_not_P [OF assms(2)] block_Cons block_Nil
  by (rule triple_then [OF win0_calls(2) [OF _ assms(1)] triple_then [OF win0_calls(3) [OF _ assms(1)] triple_skip]])

lemma win_client:
  assumes "config_ok cfg" and "kWarmup + bc_iters cfg < 2 ^ 31" and "cq_honest E" and "\<not> is_server cfg"
  shows "triple (win0 cfg) (bw_rdma_write E cfg) (win_done cfg) (win_any cfg)"
proof -
  note w = win_steps [OF assms(1-3)] and c = win0_calls [OF _ assms(1)]
  show ?thesis
    unfolding bw_rdma_write_def Let_def if_not_P [OF assms(4)] block_Cons block_Nil
    by (rule triple_then [OF win_set_up [OF assms(1,4)] triple_then [OF c(6) triple_then [OF c(5)
        triple_then [OF triple_then [OF w(1) triple_then [OF w(2) triple_then [OF w(3) triple_skip]]] triple_then [OF w(4) triple_skip]]]]])
qed

section \<open>Samples\<close>

text \<open>
  The readings of the clock in a history, oldest first, each with the requests posted and the
  completions seen before it.
\<close>

primrec stamps :: "trace \<Rightarrow> (u64 \<times> int \<times> int) list" where
  "stamps [] = []"
| "stamps (e # t) = stamps t @ (if fst e = Clock_gettime then [(word_of_int (fst (snd e)), sends t, reaped t)] else [])"

text \<open>
  The readings of the first \<open>n\<close> rounds, each of which sends one message and sees \<open>k\<close> completions: one
  before the send in each round, and after the warm-up one more when the round is over.
\<close>

definition round_stamps :: "int \<Rightarrow> (int \<Rightarrow> u64) \<Rightarrow> (int \<Rightarrow> u64) \<Rightarrow> int \<Rightarrow> (u64 \<times> int \<times> int) list" where
  "round_stamps k b e n = concat (map (\<lambda>i. (b i, i, k * i) # (if kWarmup \<le> i then [(e i, i + 1, k * (i + 1))] else [])) [0..n - 1])"

text \<open>The samples of the first \<open>n\<close> rounds in the array.\<close>

definition samples_of :: "bench_config \<Rightarrow> (int \<Rightarrow> u64) \<Rightarrow> (int \<Rightarrow> u64) \<Rightarrow> int \<Rightarrow> u64 option list" where
  "samples_of cfg b e n = map (\<lambda>j. if kWarmup + j < n then Some (time_elapsed_ns (b (kWarmup + j)) (e (kWarmup + j))) else None) [0..bc_iters cfg - 1]"

definition timed :: "bench_config \<Rightarrow> int \<Rightarrow> int \<Rightarrow> bench_vars \<Rightarrow> trace \<Rightarrow> bool" where
  "timed cfg k i v t \<longleftrightarrow> sends t = i \<and> reaped t = k * i \<and>
     (\<exists>b e. stamps t = round_stamps k b e i \<and> bv_samples v = samples_of cfg b e i)"

text \<open>In round \<open>i\<close>, with \<open>s\<close> messages sent and \<open>c\<close> completions seen.\<close>

definition timing :: "bench_config \<Rightarrow> int \<Rightarrow> int \<Rightarrow> int \<Rightarrow> int \<Rightarrow> bench_vars \<Rightarrow> trace \<Rightarrow> bool" where
  "timing cfg k i s c v t \<longleftrightarrow> sends t = s \<and> reaped t = c \<and>
     (\<exists>b e. stamps t = round_stamps k b e i @ [(bv_start v, i, k * i)] \<and> bv_samples v = samples_of cfg b e i)"

definition anything :: "bench_vars \<Rightarrow> trace \<Rightarrow> bool" where
  "anything v t \<longleftrightarrow> True"

lemma round_stamps_next:
  assumes "0 \<le> i"
  shows "round_stamps k (b(i := x)) (e(i := y)) (i + 1) =
    round_stamps k b e i @ (x, i, k * i) # (if kWarmup \<le> i then [(y, i + 1, k * (i + 1))] else [])"
proof -
  let ?f = "\<lambda>b e j. (b j, j, k * j) # (if kWarmup \<le> j then [(e j :: u64, j + 1, k * (j + 1))] else [])"
  let ?b = "b(i := x)" and ?e = "e(i := y)"
  have m: "map (?f ?b ?e) [0..i - 1] = map (?f b e) [0..i - 1]" by (rule map_cong) auto
  have "[0..i + 1 - 1] = [0..i - 1] @ [i]" using upto_rec2 [of 0 i] assms by simp
  then have "round_stamps k ?b ?e (i + 1) = concat (map (?f ?b ?e) [0..i - 1]) @ ?f ?b ?e i"
    by (simp only: round_stamps_def map_append concat_append list.map concat.simps append_Nil2)
  then show ?thesis unfolding m by (simp add: round_stamps_def)
qed

lemma samples_of_next:
  assumes "0 \<le> i" "i < kWarmup + bc_iters cfg"
  shows "samples_of cfg (b(i := x)) (e(i := y)) (i + 1) =
    (if kWarmup \<le> i then (samples_of cfg b e i)[nat (i - kWarmup) := Some (time_elapsed_ns x y)] else samples_of cfg b e i)"
  using assms by (intro nth_equalityI) (auto simp: samples_of_def nth_list_update)

lemma timed_frame:
  assumes "\<And>v t r v' u. f v t = Some ((r, v'), u) \<Longrightarrow> bv_samples v' = bv_samples v \<and> bv_start v' = bv_start v \<and>
      sends u = sends t \<and> reaped u = reaped t \<and> stamps u = stamps t"
  shows "triple (timed cfg k i) f (timed cfg k i) anything" "triple (timing cfg k i s c) f (timing cfg k i s c) anything"
  by (rule tripleI, frule assms, simp add: timed_def anything_def)
    (rule tripleI, frule assms, simp add: timing_def anything_def)

lemma spin_stamps: "spin E a P t = Some u \<Longrightarrow> sends u = sends t \<and> reaped u = reaped t \<and> stamps u = stamps t"
  by (rule spin_invariant [where J = "\<lambda>u. sends u = sends t \<and> reaped u = reaped t \<and> stamps u = stamps t"]) auto

lemma control_stamps: "adds_control t u \<Longrightarrow> sends u = sends t \<and> reaped u = reaped t \<and> stamps u = stamps t"
proof -
  assume a: "adds_control t u"
  then obtain s where s: "u = s @ t" "\<forall>e \<in> set s. \<not> data_call (fst e)" by (auto simp: adds_def)
  from s(2) have "stamps (s @ t) = stamps t" by (induction s) auto
  with s(1) adds_control_counts [OF a, of 0] show ?thesis by simp
qed

lemma untimed_calls:
  "do_event E (\<lambda>v. Store (x v) bs) v t = Some ((r, v'), u) \<Longrightarrow>
     bv_samples v' = bv_samples v \<and> bv_start v' = bv_start v \<and> sends u = sends t \<and> reaped u = reaped t \<and> stamps u = stamps t"
  "do_spin E a P v t = Some ((r, v'), u) \<Longrightarrow>
     bv_samples v' = bv_samples v \<and> bv_start v' = bv_start v \<and> sends u = sends t \<and> reaped u = reaped t \<and> stamps u = stamps t"
  "do_post_recv E cfg v t = Some ((r, v'), u) \<Longrightarrow>
     bv_samples v' = bv_samples v \<and> bv_start v' = bv_start v \<and> sends u = sends t \<and> reaped u = reaped t \<and> stamps u = stamps t"
  "skip v t = Some ((r, v'), u) \<Longrightarrow>
     bv_samples v' = bv_samples v \<and> bv_start v' = bv_start v \<and> sends u = sends t \<and> reaped u = reaped t \<and> stamps u = stamps t"
  by (auto simp: do_event_def do_spin_def do_post_recv_def do_call_def rai_post_recv_def run_simps
      split: prod.splits option.splits if_splits dest: spin_stamps)

lemmas timed_calls = timed_frame(1) [OF untimed_calls(1)] timed_frame(1) [OF untimed_calls(3)] timed_frame(1) [OF untimed_calls(4)]
  timed_frame(2) [OF untimed_calls(2)]

lemma timed_start:
  "triple (timed cfg k i) (do_clock E (\<lambda>now v. v\<lparr>bv_start := now\<rparr>)) (timing cfg k i i (k * i)) anything"
  by (rule tripleI) (auto simp: timed_def timing_def do_clock_def)

lemma timing_send:
  "triple (timing cfg k i s c) (do_post_send E cfg') (timing cfg k i (s + 1) c) anything"
  "triple (timing cfg k i s c) (do_post_write E cfg' off) (timing cfg k i (s + 1) c) anything"
  by (rule tripleI; auto simp: timing_def anything_def do_post_send_def do_post_write_def do_call_def rai_post_send_def rai_post_write_def run_simps
      split: prod.splits option.splits if_splits)+

lemma poll_stamps:
  assumes "poll_loop E cq t = Some (x, u)"
  shows "sends u = sends t \<and> stamps u = stamps t \<and> (fst x = 0 \<longrightarrow> reaped u = reaped t + 1)"
proof -
  have "sends (snd (x, u)) = sends t \<and> stamps (snd (x, u)) = stamps t \<and> (fst (fst (x, u)) = 0 \<longrightarrow> reaped (snd (x, u)) = reaped t + 1)"
    by (rule poll_loop.raw_induct [OF _ assms]) (auto simp: Let_def split: if_splits)
  then show ?thesis by simp
qed

lemma timing_poll: "triple (timing cfg k i s c) (do_poll E) (timing cfg k i s (c + 1)) anything"
proof (rule tripleI)
  fix v t r v' u assume i: "timing cfg k i s c v t" and p: "do_poll E v t = Some ((r, v'), u)"
  have "v' = v" using p by (auto simp: do_poll_def split: option.splits)
  moreover have "r = 0 \<longrightarrow> (\<exists>x. fst x = 0 \<and> poll_loop E (q_cq (bv_qp v)) t = Some (x, u))"
    using p by (auto simp: do_poll_def rai_poll_cq_def split: option.splits if_splits)
  ultimately show "if r = 0 then timing cfg k i s (c + 1) v' u else anything v' u"
    using i poll_stamps [of E "q_cq (bv_qp v)" t _ u] by (cases "r = 0") (fastforce simp: timing_def anything_def)+
qed

lemma timing_sample:
  assumes "0 \<le> i" "i < kWarmup + bc_iters cfg"
  shows "triple (timing cfg k i (i + 1) (k * (i + 1))) (do_sample E i) (timed cfg k (i + 1)) anything"
proof (rule tripleI)
  fix v t r v' u assume w: "timing cfg k i (i + 1) (k * (i + 1)) v t" and d: "do_sample E i v t = Some ((r, v'), u)"
  then obtain b e where be: "stamps t = round_stamps k b e i @ [(bv_start v, i, k * i)]" "bv_samples v = samples_of cfg b e i"
    by (auto simp: timing_def)
  let ?now = "word_of_int (e_ret E t Clock_gettime) :: u64"
  let ?b = "b(i := bv_start v)" and ?e = "e(i := ?now)"
  have "stamps u = round_stamps k ?b ?e (i + 1)" "bv_samples v' = samples_of cfg ?b ?e (i + 1)"
    unfolding round_stamps_next [OF assms(1)] samples_of_next [OF assms]
    using d w be by (auto simp: do_sample_def do_clock_def timing_def split: if_splits)
  moreover have "sends u = i + 1" "reaped u = k * (i + 1)" using d w by (auto simp: do_sample_def do_clock_def timing_def split: if_splits)
  ultimately have "timed cfg k (i + 1) v' u" by (auto simp: timed_def)
  then show "if r = 0 then timed cfg k (i + 1) v' u else anything v' u" by (simp add: anything_def)
qed

lemma timed_rounds:
  assumes "0 \<le> i" "i < kWarmup + bc_iters cfg"
  shows "triple (timed cfg 1 i) (write_client_iter E cfg i) (timed cfg 1 (i + 1)) anything"
    and "triple (timed cfg 2 i) (recv_client_iter E cfg i) (timed cfg 2 (i + 1)) anything"
proof -
  have w: "triple (timing cfg 1 i (i + 1) (1 * i + 1)) (do_sample E i) (timed cfg 1 (i + 1)) anything"
    and r: "triple (timing cfg 2 i (i + 1) (2 * i + 1 + 1)) (do_sample E i) (timed cfg 2 (i + 1)) anything"
    using timing_sample [OF assms, of 1 E] timing_sample [OF assms, of 2 E] by (simp_all add: algebra_simps)
  have refill: "triple (timed cfg 2 i) (if b then do_post_recv E cfg else skip) (timed cfg 2 i) anything" for b
    by (intro triple_if timed_calls)
  show "triple (timed cfg 1 i) (write_client_iter E cfg i) (timed cfg 1 (i + 1)) anything"
    unfolding write_client_iter_def Let_def block_Cons block_Nil
    by (rule triple_then [OF timed_calls(1) triple_then [OF timed_start triple_then [OF timing_send(2) triple_then [OF timing_poll
        triple_then [OF timed_calls(4) triple_then [OF w triple_skip]]]]]])
  show "triple (timed cfg 2 i) (recv_client_iter E cfg i) (timed cfg 2 (i + 1)) anything"
    unfolding recv_client_iter_def block_Cons block_Nil
    by (rule triple_then [OF refill triple_then [OF timed_start triple_then [OF timing_send(1) triple_then [OF timing_poll
        triple_then [OF timing_poll triple_then [OF r triple_skip]]]]]])
qed

text \<open>What a client reports of its \<open>n\<close> rounds.\<close>

definition reported :: "bench_config \<Rightarrow> int \<Rightarrow> bench_vars \<Rightarrow> trace \<Rightarrow> bool" where
  "reported cfg k v t \<longleftrightarrow> (\<exists>b e. stamps t = round_stamps k b e (kWarmup + bc_iters cfg) \<and>
     bv_report v = Some (latency_stats (sort (map (\<lambda>i. time_elapsed_ns (b i) (e i)) [kWarmup..kWarmup + bc_iters cfg - 1])) (bc_iters cfg)))"

lemma timed_report:
  "triple (timed cfg k (kWarmup + bc_iters cfg)) (do_report cfg) (reported cfg k) anything"
proof (rule tripleI)
  fix v t r v' u assume s: "timed cfg k (kWarmup + bc_iters cfg) v t" and d: "do_report cfg v t = Some ((r, v'), u)"
  then obtain b e where be: "stamps t = round_stamps k b e (kWarmup + bc_iters cfg)" "bv_samples v = samples_of cfg b e (kWarmup + bc_iters cfg)"
    by (auto simp: timed_def)
  have "map the (bv_samples v) = map (\<lambda>i. time_elapsed_ns (b i) (e i)) [kWarmup..kWarmup + bc_iters cfg - 1]"
    unfolding be(2) by (intro nth_equalityI) (auto simp: samples_of_def)
  with be(1) d have "reported cfg k v' u" unfolding reported_def by (intro exI [of _ b] exI [of _ e]) (auto simp: do_report_def set_vars_def)
  then show "if r = 0 then reported cfg k v' u else anything v' u" by (simp add: anything_def)
qed

text \<open>Before the rounds: nothing posted, nothing seen, no clock read.\<close>

definition untimed :: "bench_vars \<Rightarrow> trace \<Rightarrow> bool" where
  "untimed v t \<longleftrightarrow> sends t = 0 \<and> reaped t = 0 \<and> stamps t = []"

lemma untimed_set_up: "set_up f \<Longrightarrow> triple untimed f untimed anything"
  by (rule tripleI) (auto simp: untimed_def anything_def dest!: set_upD control_stamps)

lemma untimed_memset: "triple untimed (do_event E (\<lambda>v. Memset (x v) y n)) untimed anything"
  by (rule tripleI) (auto simp: untimed_def do_event_def)

lemma untimed_malloc: "triple untimed (do_malloc E cfg) (timed cfg k 0) anything"
proof (rule tripleI)
  fix v t r v' u assume i: "untimed v t" and d: "do_malloc E cfg v t = Some ((r, v'), u)"
  have "bv_samples v' = samples_of cfg b e 0" for b e
    using d by (auto simp: do_malloc_def run_stmt_def run_simps samples_of_def kWarmup_def intro!: nth_equalityI)
  moreover have "untimed v' u" using tripleD [OF untimed_set_up [OF set_up_calls(6)] i d] d i
    by (auto simp: do_malloc_def run_stmt_def run_simps untimed_def)
  ultimately have "timed cfg k 0 v' u" by (auto simp: timed_def untimed_def round_stamps_def)
  then show "if r = 0 then timed cfg k 0 v' u else anything v' u" by (simp add: anything_def)
qed

lemma timed_loop:
  assumes "\<And>i. 0 \<le> i \<Longrightarrow> i < kWarmup + bc_iters cfg \<Longrightarrow> triple (timed cfg k i) (f i) (timed cfg k (i + 1)) anything"
    and "config_ok cfg" "kWarmup + bc_iters cfg < 2 ^ 31"
  shows "triple (timed cfg k 0) (for_each f [0..total_iters cfg - 1]) (timed cfg k (kWarmup + bc_iters cfg)) anything"
  using triple_upto [of 0 "kWarmup + bc_iters cfg - 1" "timed cfg k" f anything] assms total_iters_fits [OF assms(2,3)]
  by (simp add: kWarmup_def config_ok_def)

lemma reported_sync: "triple (reported cfg k) (do_sync E cfg') (reported cfg k) anything"
proof (rule tripleI)
  fix v t r v' u assume i: "reported cfg k v t" and d: "do_sync E cfg' v t = Some ((r, v'), u)"
  have "bv_report v' = bv_report v" using d by (auto simp: do_sync_def run_stmt_def run_simps split: prod.splits)
  with control_stamps [OF set_upD [OF set_up_calls(5) d]] i show "if r = 0 then reported cfg k v' u else anything v' u"
    by (simp add: reported_def anything_def)
qed

lemma timed_prepost: "triple (timed cfg k 0) (do_prepost E cfg) (timed cfg k 0) anything"
  unfolding do_prepost_def by (intro triple_for timed_calls)

lemma clients_report:
  assumes "config_ok cfg" and "kWarmup + bc_iters cfg < 2 ^ 31" and "\<not> is_server cfg"
  shows "triple untimed (lat_rdma_write E cfg) (reported cfg 1) anything"
    and "triple untimed (lat_send_recv E cfg) (reported cfg 2) anything"
proof -
  note c = untimed_set_up [OF set_up_calls(2)] untimed_set_up [OF set_up_calls(3)] untimed_set_up [OF set_up_calls(5)] untimed_set_up [OF set_up_calls(7)]
  have a: "triple untimed (bench_setup E cfg len p) untimed anything" for len p
    unfolding bench_setup_def if_not_P [OF assms(3)] block_Cons block_Nil by (rule triple_then [OF c(1) triple_then [OF c(2) triple_skip]])
  show "triple untimed (lat_rdma_write E cfg) (reported cfg 1) anything"
    unfolding lat_rdma_write_def Let_def if_not_P [OF assms(3)] block_Cons block_Nil
    by (rule triple_then [OF a triple_then [OF untimed_memset triple_then [OF c(4) triple_then [OF c(3) triple_then [OF triple_then [OF untimed_malloc
        triple_then [OF timed_loop [OF timed_rounds(1) assms(1,2)] triple_then [OF timed_report triple_skip]]]
        triple_then [OF reported_sync triple_skip]]]]]])
  show "triple untimed (lat_send_recv E cfg) (reported cfg 2) anything"
    unfolding lat_send_recv_def if_not_P [OF assms(3)] block_Cons block_Nil
    by (rule triple_then [OF a triple_then [OF c(3) triple_then [OF triple_then [OF untimed_malloc triple_then [OF timed_prepost
        triple_then [OF timed_loop [OF timed_rounds(2) assms(1,2)] triple_then [OF timed_report triple_skip]]]] triple_skip]]])
qed

section \<open>The write loop ends\<close>

text \<open>The history after \<open>k\<close> polls for completions.\<close>

primrec batch_polls :: "env \<Rightarrow> handle \<Rightarrow> nat \<Rightarrow> trace \<Rightarrow> trace" where
  "batch_polls E cq 0 t = t"
| "batch_polls E cq (Suc k) t = (let c = Poll_cq_batch cq CQ_POLL_BATCH in batch_polls E cq k ((c, e_ret E t c, e_data E t c) # t))"

text \<open>While something is outstanding, a poll yields something after some empty ones.\<close>

definition cq_live :: "env \<Rightarrow> bool" where
  "cq_live E \<longleftrightarrow> (\<forall>t cq. 0 < sends t - reaped t \<longrightarrow>
     (\<exists>k. e_ret E (batch_polls E cq k t) (Poll_cq_batch cq CQ_POLL_BATCH) \<noteq> 0))"

lemma post_one_ccnt: "run_state (post_one E cfg v) t = ((r, v'), u) \<Longrightarrow> bv_ccnt v' = bv_ccnt v"
  by (auto simp: post_one_def run_simps Let_def split: prod.splits if_splits)

lemma post_window_ends:
  "post_window E cfg v t = ((0, v'), u) \<Longrightarrow> \<not> window_open cfg v' \<and> bv_ccnt v' = bv_ccnt v"
proof (induction E cfg v t rule: post_window.induct)
  case (1 E cfg v t)
  obtain x w s where p: "run_state (post_one E cfg v) t = ((x, w), s)" by (metis surj_pair)
  show ?case
  proof (cases "window_open cfg v \<and> x = 0")
    case True
    then have "post_window E cfg w s = ((0, v'), u)" using 1(2) p by (subst (asm) post_window.simps) simp
    with 1(1) [OF _ p [symmetric] refl] True post_one_ccnt [OF p] show ?thesis by simp
  next
    case False
    with 1(2) p show ?thesis by (subst (asm) post_window.simps) (auto split: if_splits)
  qed
qed

lemma closed_outstanding:
  assumes "config_ok cfg" and "win cfg v t" and "\<not> window_open cfg v" and "bv_ccnt v < word_of_int (total_iters cfg)"
  shows "0 < sends t - reaped t"
proof -
  have d: "uint (word_of_int (bc_depth cfg) :: u64) = bc_depth cfg" "1 \<le> bc_depth cfg"
    using assms(1) by (simp_all add: uint_word_of_int take_bit_int_eq_self config_ok_def)
  have c: "bv_ccnt v \<le> bv_scnt v" "bv_scnt v \<le> word_of_int (total_iters cfg)" using assms(2) by (auto simp: win_def)
  show ?thesis
  proof (cases "bv_scnt v < word_of_int (total_iters cfg)")
    case True
    then have "word_of_int (bc_depth cfg) \<le> bv_scnt v - bv_ccnt v" using assms(3) by (simp add: window_open_def not_less)
    then show ?thesis using c(1) d assms(2) by (simp add: word_le_def uint_sub_if' win_def)
  next
    case False
    then show ?thesis using assms(2,4) c by (simp add: win_def word_less_def word_le_def)
  qed
qed

text \<open>With the window full, the loop polls until something comes back.\<close>

lemma bw_waits:
  assumes "\<And>v' u. win cfg v' u \<Longrightarrow> bv_ccnt v < bv_ccnt v' \<Longrightarrow> bw_loop E cfg v' u \<noteq> None"
    and "cq_honest E" and "bv_ccnt v < word_of_int (total_iters cfg)" and "\<not> window_open cfg v"
    and "win cfg v t" and "e_ret E (batch_polls E (q_cq (bv_qp v)) k t) (Poll_cq_batch (q_cq (bv_qp v)) CQ_POLL_BATCH) \<noteq> 0"
  shows "bw_loop E cfg v t \<noteq> None"
  using assms(5,6)
proof (induction k arbitrary: t rule: less_induct)
  case (less k)
  let ?c = "Poll_cq_batch (q_cq (bv_qp v)) CQ_POLL_BATCH"
  let ?n = "e_ret E t ?c" and ?u = "(?c, e_ret E t ?c, e_data E t ?c) # t"
  have pw: "post_window E cfg v t = ((0, v), t)" using assms(4) by (simp add: post_window.simps)
  obtain r v2 w where rp: "reap E v t = ((r, v2), w)" by (metis surj_pair)
  have step: "bw_loop E cfg v t = (if r \<noteq> 0 then Some ((r, v2), w) else bw_loop E cfg v2 w)"
    using assms(3) pw rp by (subst bw_loop.simps) simp
  show ?case
  proof (cases "r = 0")
    case True
    have w2: "win cfg v2 w" using win_reap [OF assms(2) less.prems(1) rp] True by simp
    have e: "0 \<le> ?n" "v2 = v\<lparr>bv_ccnt := bv_ccnt v + word_of_int ?n\<rparr>" "w = ?u"
      using rp True by (auto simp: reap_def Let_def split: if_splits)
    show ?thesis
    proof (cases "?n = 0")
      case True
      then obtain j where j: "k = Suc j" using less.prems(2) by (cases k) auto
      have v2: "v2 = v" using e(2) True by simp
      have "bw_loop E cfg v w \<noteq> None"
        by (rule less.IH [of j]) (use j w2 v2 e(3) less.prems(2) in \<open>simp_all add: Let_def\<close>)
      then show ?thesis using step v2 \<open>r = 0\<close> by simp
    next
      case False
      have "reaped w = reaped t + ?n" using e(1,3) by simp
      then have "bv_ccnt v < bv_ccnt v2" using w2 less.prems(1) False e(1) by (simp add: win_def word_less_def)
      from assms(1) [OF w2 this] step \<open>r = 0\<close> show ?thesis by simp
    qed
  qed (simp add: step)
qed

lemma bw_loop_ends:
  assumes "config_ok cfg" and "cq_honest E" and "cq_live E" and "win cfg v t"
  shows "bw_loop E cfg v t \<noteq> None"
  using assms(4)
proof (induction "unat (word_of_int (total_iters cfg) :: u64) - unat (bv_ccnt v)" arbitrary: v t rule: less_induct)
  case less
  let ?T = "word_of_int (total_iters cfg) :: u64"
  obtain r v1 u where p: "post_window E cfg v t = ((r, v1), u)" by (metis surj_pair)
  show ?case
  proof (cases "bv_ccnt v < ?T \<and> r = 0")
    case True
    have w1: "win cfg v1 u" and c1: "\<not> window_open cfg v1" "bv_ccnt v1 = bv_ccnt v"
      using win_post_window [OF assms(1) less.prems p] post_window_ends [of E cfg v t v1 u] p True by auto
    have lt: "bv_ccnt v1 < ?T" using True c1(2) by simp
    have same: "bw_loop E cfg v t = bw_loop E cfg v1 u"
      using True lt p c1(1) by (subst (1 2) bw_loop.simps) (simp add: post_window.simps [of E cfg v1 u])
    have "0 < sends u - reaped u" by (rule closed_outstanding [OF assms(1) w1 c1(1) lt])
    then obtain k where k: "e_ret E (batch_polls E (q_cq (bv_qp v1)) k u) (Poll_cq_batch (q_cq (bv_qp v1)) CQ_POLL_BATCH) \<noteq> 0"
      using assms(3) unfolding cq_live_def by blast
    have "bw_loop E cfg v1 u \<noteq> None"
    proof (rule bw_waits [OF _ assms(2) lt c1(1) w1 k])
      fix v' u' assume w: "win cfg v' u'" and c: "bv_ccnt v1 < bv_ccnt v'"
      then have "unat ?T - unat (bv_ccnt v') < unat ?T - unat (bv_ccnt v)"
        using c1(2) True by (simp add: word_less_nat_alt diff_less_mono2)
      from less.hyps [OF this w] show "bw_loop E cfg v' u' \<noteq> None" .
    qed
    with same show ?thesis by simp
  next
    case False
    then show ?thesis using p by (subst bw_loop.simps) auto
  qed
qed

lemma win_client_returns:
  assumes "config_ok cfg" and "kWarmup + bc_iters cfg < 2 ^ 31" and "cq_honest E" and "cq_live E" and "\<not> is_server cfg"
  shows "returns_from (win0 cfg) (bw_rdma_write E cfg)"
proof -
  note w = win_steps [OF assms(1-3)] and c = win0_calls [OF _ assms(1)]
  have a: "returns (do_sync E cfg)" "returns (set_local E)" "returns (bench_setup E cfg len skip)" for len
    by (simp_all add: do_sync_def set_local_def bench_setup_def assms(5) do_connect_def do_mr_reg_def returns_then returns_skip returns_simple)
  have s: "returns (bench_setup E cfg len p)" for len p
    using a(3) by (simp add: bench_setup_def assms(5))
  have l: "returns_from (win cfg) (bw_loop E cfg)"
    using bw_loop_ends [OF assms(1,3,4)] by (auto simp: returns_from_def)
  note r = returns_from_all [OF s] returns_from_all [OF a(2)] returns_from_all [OF a(1)] returns_from_all [OF returns_simple(3)]
    returns_from_all [OF returns_simple(5)] returns_from_all [OF returns_skip]
  show ?thesis
    unfolding bw_rdma_write_def Let_def if_not_P [OF assms(5)] block_Cons block_Nil
    by (rule returns_from_then [OF r(1) win_set_up [OF assms(1,5)] returns_from_then [OF r(2) c(6) returns_from_then [OF r(3) c(5)
        returns_from_then [OF returns_from_then [OF r(4) w(1) returns_from_then [OF l w(2) returns_from_then [OF r(5) w(3) r(6)]]]
          triple_then [OF w(1) triple_then [OF w(2) triple_then [OF w(3) triple_skip]]] returns_from_then [OF r(3) w(4) r(6)]]]]])
qed

section \<open>A run that succeeds\<close>

definition never :: "bench_vars \<Rightarrow> trace \<Rightarrow> bool" where
  "never v t \<longleftrightarrow> False"

definition connected_to :: "bench_vars \<Rightarrow> trace \<Rightarrow> bool" where
  "connected_to v t \<longleftrightarrow> q_pd (bv_qp v) \<noteq> 0 \<and> q_cq (bv_qp v) \<noteq> 0 \<and> q_qp (bv_qp v) \<noteq> 0"

definition registered :: "bench_vars \<Rightarrow> trace \<Rightarrow> bool" where
  "registered v t \<longleftrightarrow> connected_to v t \<and> mr_mr (bv_mr v) \<noteq> 0 \<and> mr_size (bv_mr v) = 4096"

definition cfg1 :: bench_config where
  "cfg1 = bench_config_init\<lparr>bc_server_ip := Some ''10.0.0.1''\<rparr>"

lemma cfg1_simps [simp]: "bc_conn cfg1 = RAI_CONN_CM" "bc_server_ip cfg1 = Some ''10.0.0.1''" "bc_size cfg1 = 4096" "\<not> is_server cfg1"
  "config_ok cfg1"
  by (simp_all add: cfg1_def bench_config_init_def is_server_def config_ok_def)

lemma calm_connect: "triple (\<lambda>v t. v = bench_vars_init \<and> t = []) (do_connect cm_calm cfg1) connected_to never"
proof (rule tripleI, elim conjE)
  fix v t r v' u assume v: "v = bench_vars_init" "t = []" and d: "do_connect cm_calm cfg1 v t = Some ((r, v'), u)"
  obtain q w where c: "run_state (rai_cm_connect_qp cm_calm qp_zero ''10.0.0.1'' (bc_port cfg1)) [] = ((0, q), w)"
    using calm_connects by blast
  have "listeners [] = {}" by simp
  from cm_connect_spec(1) [OF cm_calm_ok cm_calm_requests this qp_fresh_zero c] have "q_qp q \<noteq> 0" by auto
  with connect_ok [OF c] d v c show "if r = 0 then connected_to v' u else never v' u"
    by (auto simp: do_connect_def run_stmt_def run_simps bench_connect_def bench_vars_init_def connected_to_def)
qed

lemmas calm_data_simps [simp] = calm_data

lemma calm_register: "triple connected_to (do_mr_reg cm_calm 4096) registered never"
  by (rule tripleI)
    (auto simp: do_mr_reg_def run_stmt_def run_simps rai_mr_reg_def Let_def registered_def connected_to_def split: if_splits)

lemma registered_sge:
  "registered v t \<Longrightarrow> \<exists>g. prepare_sge cm_calm (Some (bv_qp v)) (Some (bv_mr v)) 4096 0 = Some g"
  by (auto simp: prepare_sge_def registered_def connected_to_def)

lemma registered_trace: "registered v t \<Longrightarrow> registered v u"
  by (simp add: registered_def connected_to_def)

lemma calm_posts:
  "triple registered (do_post_recv cm_calm cfg1) registered never" "triple registered (do_post_send cm_calm cfg1) registered never"
proof -
  have "run_state (rai_post_recv cm_calm (Some (bv_qp v)) (Some (bv_mr v)) 4096 1 0) t = (r, u) \<Longrightarrow> r = 0"
    "run_state (rai_post_send cm_calm (Some (bv_qp v)) (Some (bv_mr v)) 4096 1 0) t = (r, u) \<Longrightarrow> r = 0" if "registered v t" for v t r u
    using registered_sge [OF that] by (auto simp: rai_post_recv_def rai_post_send_def run_simps)
  then show "triple registered (do_post_recv cm_calm cfg1) registered never" "triple registered (do_post_send cm_calm cfg1) registered never"
    unfolding do_post_recv_def do_post_send_def by (auto intro!: triple_call intro: registered_trace)
qed

lemma calm_poll: "triple registered (do_poll cm_calm) registered never"
proof (rule tripleI)
  fix v t r v' u assume g: "registered v t" and p: "do_poll cm_calm v t = Some ((r, v'), u)"
  then have "q_cq (bv_qp v) \<noteq> 0" by (simp add: registered_def connected_to_def)
  moreover have "poll_loop cm_calm (q_cq (bv_qp v)) t =
      Some ((0, e_wc_wr_id cm_calm ((Poll_cq (q_cq (bv_qp v)), 1, e_data cm_calm t (Poll_cq (q_cq (bv_qp v)))) # t)),
        (Poll_cq (q_cq (bv_qp v)), 1, e_data cm_calm t (Poll_cq (q_cq (bv_qp v)))) # t)"
    by (subst poll_loop.simps) (simp add: Let_def)
  ultimately have "r = 0 \<and> v' = v" using p by (auto simp: do_poll_def rai_poll_cq_def)
  then show "if r = 0 then registered v' u else never v' u" using registered_trace [OF g] by simp
qed

lemma calm_sync: "triple registered (do_sync cm_calm cfg1) registered never"
proof (rule tripleI)
  fix v t r v' u assume g: "registered v t" and p: "do_sync cm_calm cfg1 v t = Some ((r, v'), u)"
  obtain x q w where c: "run_state (rai_oob_connect cm_calm (Some (bv_qp v)) (Some ''10.0.0.1'') (bc_port cfg1 + 1)) t = ((x, q), w)"
    by (metis surj_pair)
  from oob_connect_frame [OF c] calm_oob [OF c] c p g show "if r = 0 then registered v' u else never v' u"
    by (auto simp: do_sync_def run_stmt_def run_simps registered_def connected_to_def)
qed

lemma calm_rest:
  "triple registered (do_malloc cm_calm cfg1) registered never" "triple registered (do_report cfg1) registered never"
  "triple registered (do_clock cm_calm (\<lambda>now v. v\<lparr>bv_start := now\<rparr>)) registered never"
  "triple registered (do_sample cm_calm i) registered never" "triple registered (do_prepost cm_calm cfg1) registered never"
proof -
  show "triple registered (do_prepost cm_calm cfg1) registered never"
    unfolding do_prepost_def by (intro triple_for calm_posts)
qed (rule tripleI; auto simp: do_malloc_def do_report_def do_clock_def do_sample_def run_stmt_def set_vars_def run_simps registered_def
    connected_to_def split: if_splits)+

text \<open>With an environment in which everything works, the send and receive client succeeds.\<close>

lemma calm_client: "\<exists>v u. lat_send_recv cm_calm cfg1 bench_vars_init [] = Some ((0, v), u)"
proof -
  have open_up: "triple (\<lambda>v t. v = bench_vars_init \<and> t = []) (bench_setup cm_calm cfg1 4096 p) registered never" for p
    unfolding bench_setup_def using calm_connect calm_register by (simp add: triple_then triple_skip)
  have round: "triple registered (recv_client_iter cm_calm cfg1 i) registered never" for i
    unfolding recv_client_iter_def block_Cons block_Nil
    by (intro triple_then [where J = registered] triple_if calm_posts calm_rest calm_poll triple_skip)
  have good: "triple (\<lambda>v t. v = bench_vars_init \<and> t = []) (lat_send_recv cm_calm cfg1) registered never"
    unfolding lat_send_recv_def block_Cons block_Nil
    using triple_then [OF open_up triple_then [OF calm_sync triple_then [OF triple_then [OF calm_rest(1) triple_then [OF calm_rest(5)
      triple_then [OF triple_for [OF round] triple_then [OF calm_rest(2) triple_skip]]]] triple_skip]]] by simp
  have "\<exists>k. e_ret cm_calm (polls cm_calm cq k t) (Poll_cq cq) \<noteq> 0" for cq t by (rule exI [of _ 0]) simp
  then obtain r v u where run: "lat_send_recv cm_calm cfg1 bench_vars_init [] = Some ((r, v), u)"
    using lat_send_recv_returns [of cm_calm cfg1] unfolding returns_def by (metis not_Some_eq surj_pair)
  have "r = 0" using tripleD [OF good _ run] by (simp add: never_def split: if_splits)
  with run show ?thesis by blast
qed

section \<open>Properties\<close>

text \<open>
  C26. Receives come first in the send and receive benchmark: at every moment of a run, on either
  side, at least as many receives as sends have been posted, so no answer can arrive before there
  is a receive for it; and a run that succeeds posts exactly one receive and one send per round.
  The number of rounds and the depth must be such that the program's \<open>int\<close> counters do not overflow.
\<close>

theorem receives_ahead:
  assumes "config_ok cfg" and "kWarmup + bc_iters cfg + bc_depth cfg \<le> 2 ^ 31" and "lat_send_recv E cfg bench_vars_init [] = Some ((r, v), u)"
  shows "recv_ahead u \<and> (r = 0 \<longrightarrow> recvs u = kWarmup + bc_iters cfg \<and> sends u = kWarmup + bc_iters cfg)"
proof -
  have c: "roomy cfg" using assms(1,2) by (simp add: roomy_def)
  have "flow 0 0 bench_vars_init []" by (simp add: flow_def)
  from tripleD [OF flow_body [OF c] this assms(3)] roomy_facts(1) [OF c] show ?thesis by (simp add: flow_def flow_any_def split: if_splits)
qed

theorem receives_ahead_witness:
  "\<exists>v u. lat_send_recv cm_calm cfg1 bench_vars_init [] = Some ((0, v), u) \<and> recv_ahead u \<and> recvs u = 1020"
proof -
  obtain v u where m: "lat_send_recv cm_calm cfg1 bench_vars_init [] = Some ((0, v), u)" using calm_client by blast
  have "kWarmup + bc_iters cfg1 = 1020" "bc_depth cfg1 = 16" by (simp_all add: kWarmup_def cfg1_def bench_config_init_def)
  with receives_ahead [OF _ _ m] m show ?thesis by auto
qed

text \<open>
  C25. The client of the bandwidth benchmark keeps its window: on a completion queue that reports only
  what was posted and does not stay silent forever, and for a number of rounds whose sum with the
  warm-up fits an \<open>int\<close>, it ends; at every moment of its run at most
  depth writes were outstanding, which the send queue has room for; and a run that succeeds posted
  every write of the warm-up and the measurement and saw each of them complete.
\<close>

theorem write_window:
  assumes "config_ok cfg" and "kWarmup + bc_iters cfg < 2 ^ 31" and "cq_honest E" and "cq_live E" and "bc_server_ip cfg \<noteq> None"
  shows "\<exists>r v u. bw_rdma_write E cfg bench_vars_init [] = Some ((r, v), u) \<and>
    window_kept (bc_depth cfg) u \<and> bc_depth cfg < RAI_QP_MAX_WR \<and>
    (r = 0 \<longrightarrow> sends u = kWarmup + bc_iters cfg \<and> reaped u = kWarmup + bc_iters cfg)"
proof -
  have c: "\<not> is_server cfg" using assms(5) by (simp add: is_server_def)
  have i: "win0 cfg bench_vars_init []" by (simp add: win0_def bench_vars_init_def)
  obtain r v u where b: "bw_rdma_write E cfg bench_vars_init [] = Some ((r, v), u)"
    using win_client_returns [OF assms(1-4) c] i unfolding returns_from_def by (metis not_Some_eq surj_pair)
  have "bc_depth cfg < RAI_QP_MAX_WR" using assms(1) by (simp add: config_ok_def RAI_QP_MAX_WR_def)
  with tripleD [OF win_client [OF assms(1-3) c] i b] b total_iters_fits [OF assms(1,2)] show ?thesis by (auto simp: win_done_def split: if_splits)
qed

text \<open>A card that completes everything at once.\<close>

definition prompt :: env where
  "prompt = cm_calm\<lparr>e_ret := (\<lambda>t c. case c of Poll_cq_batch q n \<Rightarrow> sends t - reaped t | _ \<Rightarrow> e_ret cm_calm t c)\<rparr>"

theorem write_window_witness:
  "\<exists>r v u. bw_rdma_write prompt (bench_config_init\<lparr>bc_server_ip := Some ''10.0.0.1''\<rparr>) bench_vars_init [] = Some ((r, v), u) \<and>
     window_kept 16 u"
proof -
  let ?c = "bench_config_init\<lparr>bc_server_ip := Some ''10.0.0.1''\<rparr>"
  have "config_ok ?c" "kWarmup + bc_iters ?c < 2 ^ 31" "bc_server_ip ?c \<noteq> None" "bc_depth ?c = 16"
    by (simp_all add: config_ok_def bench_config_init_def kWarmup_def)
  moreover have "cq_honest prompt" by (simp add: cq_honest_def prompt_def)
  moreover have "cq_live prompt" unfolding cq_live_def by (auto intro!: exI [of _ 0] simp: prompt_def)
  ultimately show ?thesis using write_window [of ?c prompt] by auto
qed

text \<open>
  C30. The latency benchmarks report what they measured: when a client of either one succeeds, it has
  read the clock once before the message of each round and, after the warm-up, once more when the
  completions of the round had been seen (one in lat_rdma_write, two in lat_send_recv), and never
  else; the report is the statistics of the differences of these two readings, one for each timed
  round, sorted. The sum of the rounds and the warm-up must fit an \<open>int\<close>.
\<close>

theorem latencies_measured:
  assumes "config_ok cfg" and "kWarmup + bc_iters cfg < 2 ^ 31" and "bc_server_ip cfg \<noteq> None"
    and "(body, k) \<in> {(lat_rdma_write E, 1), (lat_send_recv E, 2)}" and "body cfg bench_vars_init [] = Some ((0, v), u)"
  shows "\<exists>b e. stamps u = round_stamps k b e (kWarmup + bc_iters cfg) \<and>
    bv_report v = Some (latency_stats (sort (map (\<lambda>i. time_elapsed_ns (b i) (e i)) [kWarmup..kWarmup + bc_iters cfg - 1])) (bc_iters cfg))"
proof -
  have c: "\<not> is_server cfg" using assms(3) by (simp add: is_server_def)
  have "triple untimed (body cfg) (reported cfg k) anything" using assms(4) clients_report [OF assms(1,2) c] by auto
  from tripleD [OF this _ assms(5)] show ?thesis by (simp add: untimed_def reported_def)
qed

theorem latencies_measured_witness:
  "\<exists>v u b e. lat_send_recv cm_calm cfg1 bench_vars_init [] = Some ((0, v), u) \<and> stamps u = round_stamps 2 b e 1020 \<and>
     bv_report v = Some (latency_stats (sort (map (\<lambda>i. time_elapsed_ns (b i) (e i)) [20..1019])) 1000)"
proof -
  obtain v u where m: "lat_send_recv cm_calm cfg1 bench_vars_init [] = Some ((0, v), u)" using calm_client by blast
  have c: "bc_iters cfg1 = 1000" "kWarmup = 20" by (simp_all add: cfg1_def bench_config_init_def kWarmup_def)
  have "kWarmup + bc_iters cfg1 < 2 ^ 31" "bc_server_ip cfg1 \<noteq> None" using c by simp_all
  from latencies_measured [OF _ this, of "lat_send_recv cm_calm" 2 cm_calm, OF _ _ m] have
    "\<exists>b e. stamps u = round_stamps 2 b e (20 + 1000) \<and>
       bv_report v = Some (latency_stats (sort (map (\<lambda>i. time_elapsed_ns (b i) (e i)) [20..20 + 1000 - 1])) 1000)"
    unfolding c by simp
  with m show ?thesis by simp
qed

end
