(* ===== verification/Ping_Pong.thy ===== *)
theory Ping_Pong
  imports Runs Verbs_Bench
begin

text \<open>
  The round trips of lat_rdma_write.c with both of its sides: the client writes its half into the
  server's memory, the server answers with its own half, and each side watches the last byte of the
  half the other one writes. That byte carries the round's number cut to eight bits; the lemmas say
  that this is enough, because neither side can be more than one round ahead.
\<close>

section \<open>Definitions\<close>

text \<open>The actions of one round of each side, in program order.\<close>

datatype pp_act = Bell byte | Write_half | Reap | Await byte

definition pp_seq :: "nat \<Rightarrow> byte" where
  "pp_seq i = word_of_nat (i + 1)"

definition pp_server :: "nat \<Rightarrow> pp_act list" where
  "pp_server i = [Await (pp_seq i), Bell (pp_seq i), Write_half, Reap]"

definition pp_client :: "nat \<Rightarrow> pp_act list" where
  "pp_client i = [Bell (pp_seq i), Write_half, Reap, Await (pp_seq i)]"

text \<open>
  \<open>post_s\<close> and \<open>poll_s\<close> are the last bytes of the halves the server writes from and watches,
  \<open>post_c\<close> and \<open>poll_c\<close> the client's. Of the writes each side posted, \<open>landed\<close> are in the peer's
  memory and \<open>acked\<close> have completed: a reliable connection keeps their order, and the data is there
  before the completion is.
\<close>

record pp_cfg =
  pc_c :: nat
  pc_s :: nat
  post_c :: byte
  poll_c :: byte
  post_s :: byte
  poll_s :: byte
  landed_c :: nat
  acked_c :: nat
  landed_s :: nat
  acked_s :: nat

definition pp_init :: pp_cfg where
  "pp_init = \<lparr>pc_c = 0, pc_s = 0, post_c = 0, poll_c = 0, post_s = 0, poll_s = 0, landed_c = 0, acked_c = 0, landed_s = 0, acked_s = 0\<rparr>"

text \<open>The next action, of \<open>n\<close> rounds of four.\<close>

definition pp_next :: "(nat \<Rightarrow> pp_act list) \<Rightarrow> nat \<Rightarrow> nat \<Rightarrow> pp_act option" where
  "pp_next prog n pc = (if pc < 4 * n then Some (prog (pc div 4) ! (pc mod 4)) else None)"

text \<open>How many writes a side has posted and how many completions it has taken.\<close>

definition posted_c :: "pp_cfg \<Rightarrow> nat" where "posted_c c = (pc_c c + 2) div 4"
definition reaped_c :: "pp_cfg \<Rightarrow> nat" where "reaped_c c = (pc_c c + 1) div 4"
definition posted_s :: "pp_cfg \<Rightarrow> nat" where "posted_s c = (pc_s c + 1) div 4"
definition reaped_s :: "pp_cfg \<Rightarrow> nat" where "reaped_s c = pc_s c div 4"

inductive pp_step :: "nat \<Rightarrow> pp_cfg \<Rightarrow> pp_cfg \<Rightarrow> bool" for n where
  bell_c: "pp_next pp_client n (pc_c c) = Some (Bell b) \<Longrightarrow> pp_step n c (c\<lparr>pc_c := Suc (pc_c c), post_c := b\<rparr>)"
| write_c: "pp_next pp_client n (pc_c c) = Some Write_half \<Longrightarrow> pp_step n c (c\<lparr>pc_c := Suc (pc_c c)\<rparr>)"
| reap_c: "pp_next pp_client n (pc_c c) = Some Reap \<Longrightarrow> reaped_c c < acked_c c \<Longrightarrow> pp_step n c (c\<lparr>pc_c := Suc (pc_c c)\<rparr>)"
| await_c: "pp_next pp_client n (pc_c c) = Some (Await b) \<Longrightarrow> poll_c c = b \<Longrightarrow> pp_step n c (c\<lparr>pc_c := Suc (pc_c c)\<rparr>)"
| bell_s: "pp_next pp_server n (pc_s c) = Some (Bell b) \<Longrightarrow> pp_step n c (c\<lparr>pc_s := Suc (pc_s c), post_s := b\<rparr>)"
| write_s: "pp_next pp_server n (pc_s c) = Some Write_half \<Longrightarrow> pp_step n c (c\<lparr>pc_s := Suc (pc_s c)\<rparr>)"
| reap_s: "pp_next pp_server n (pc_s c) = Some Reap \<Longrightarrow> reaped_s c < acked_s c \<Longrightarrow> pp_step n c (c\<lparr>pc_s := Suc (pc_s c)\<rparr>)"
| await_s: "pp_next pp_server n (pc_s c) = Some (Await b) \<Longrightarrow> poll_s c = b \<Longrightarrow> pp_step n c (c\<lparr>pc_s := Suc (pc_s c)\<rparr>)"
| land_c: "landed_c c < posted_c c \<Longrightarrow> pp_step n c (c\<lparr>landed_c := Suc (landed_c c), poll_s := post_c c\<rparr>)"
| ack_c: "acked_c c < landed_c c \<Longrightarrow> pp_step n c (c\<lparr>acked_c := Suc (acked_c c)\<rparr>)"
| land_s: "landed_s c < posted_s c \<Longrightarrow> pp_step n c (c\<lparr>landed_s := Suc (landed_s c), poll_c := post_s c\<rparr>)"
| ack_s: "acked_s c < landed_s c \<Longrightarrow> pp_step n c (c\<lparr>acked_s := Suc (acked_s c)\<rparr>)"

text \<open>The rounds whose doorbell a side has seen.\<close>

definition seen_s :: "pp_cfg \<Rightarrow> nat" where "seen_s c = (pc_s c + 3) div 4"
definition seen_c :: "pp_cfg \<Rightarrow> nat" where "seen_c c = pc_c c div 4"

section \<open>The programs are the loop bodies\<close>

definition pp_stmt :: "env \<Rightarrow> bench_config \<Rightarrow> (bench_vars \<Rightarrow> u64) \<Rightarrow> (bench_vars \<Rightarrow> u64) \<Rightarrow> u64 \<Rightarrow> pp_act \<Rightarrow> bench_vars stmt" where
  "pp_stmt E cfg post poll off a = (case a of Bell b \<Rightarrow> do_event E (\<lambda>v. Store (post v) [b])
     | Write_half \<Rightarrow> do_post_write E cfg off | Reap \<Rightarrow> do_poll E | Await b \<Rightarrow> do_spin E poll (\<lambda>n. word_of_int n = b))"

lemma server_iter_acts:
  "write_server_iter E cfg (int i) =
     (let half = word_of_int (bc_size cfg)
      in block (map (pp_stmt E cfg (\<lambda>v. mr_buf (bv_mr v) + 2 * half - 1) (\<lambda>v. mr_buf (bv_mr v) + half - 1) half) (pp_server i)))"
  by (simp add: write_server_iter_def pp_server_def pp_stmt_def pp_seq_def Let_def add.commute [of 1])

lemma client_iter_acts:
  "write_client_iter E cfg (int i) =
     (let half = word_of_int (bc_size cfg);
          st = pp_stmt E cfg (\<lambda>v. mr_buf (bv_mr v) + half - 1) (\<lambda>v. mr_buf (bv_mr v) + 2 * half - 1) 0
      in block [st (pp_client i ! 0), do_clock E (\<lambda>now v. v\<lparr>bv_start := now\<rparr>), st (pp_client i ! 1), st (pp_client i ! 2),
           st (pp_client i ! 3), do_sample E (int i)])"
  by (simp add: write_client_iter_def pp_client_def pp_stmt_def pp_seq_def Let_def numeral_3_eq_3 add.commute [of 1])

section \<open>The lockstep\<close>

text \<open>The bytes count what was rung and what landed, and nobody runs ahead.\<close>

definition pp_good :: "nat \<Rightarrow> pp_cfg \<Rightarrow> bool" where
  "pp_good n c \<longleftrightarrow> pc_c c \<le> 4 * n \<and> pc_s c \<le> 4 * n \<and>
     post_c c = word_of_nat ((pc_c c + 3) div 4) \<and> poll_s c = word_of_nat (landed_c c) \<and>
     post_s c = word_of_nat ((pc_s c + 2) div 4) \<and> poll_c c = word_of_nat (landed_s c) \<and>
     reaped_c c \<le> acked_c c \<and> acked_c c \<le> landed_c c \<and> landed_c c \<le> posted_c c \<and>
     reaped_s c \<le> acked_s c \<and> acked_s c \<le> landed_s c \<and> landed_s c \<le> posted_s c \<and>
     seen_s c \<le> landed_c c \<and> seen_c c \<le> landed_s c"

definition pp_finished :: "nat \<Rightarrow> pp_cfg \<Rightarrow> bool" where
  "pp_finished n c \<longleftrightarrow> pc_c c = 4 * n \<and> pc_s c = 4 * n"

definition pp_work :: "nat \<Rightarrow> pp_cfg \<Rightarrow> nat" where
  "pp_work n c = (4 * n - pc_c c) + (4 * n - pc_s c) + (n - landed_c c) + (n - acked_c c) + (n - landed_s c) + (n - acked_s c)"

lemmas pp_counts = posted_c_def reaped_c_def posted_s_def reaped_s_def seen_s_def seen_c_def

lemma next_client:
  "pp_next pp_client n pc = Some (Bell b) \<longleftrightarrow> pc < 4 * n \<and> pc mod 4 = 0 \<and> b = word_of_nat (pc div 4 + 1)"
  "pp_next pp_client n pc = Some Write_half \<longleftrightarrow> pc < 4 * n \<and> pc mod 4 = 1"
  "pp_next pp_client n pc = Some Reap \<longleftrightarrow> pc < 4 * n \<and> pc mod 4 = 2"
  "pp_next pp_client n pc = Some (Await b) \<longleftrightarrow> pc < 4 * n \<and> pc mod 4 = 3 \<and> b = word_of_nat (pc div 4 + 1)"
proof -
  have "pc mod 4 \<in> {0, 1, 2, 3}" by auto
  then show "pp_next pp_client n pc = Some (Bell b) \<longleftrightarrow> pc < 4 * n \<and> pc mod 4 = 0 \<and> b = word_of_nat (pc div 4 + 1)"
    "pp_next pp_client n pc = Some Write_half \<longleftrightarrow> pc < 4 * n \<and> pc mod 4 = 1"
    "pp_next pp_client n pc = Some Reap \<longleftrightarrow> pc < 4 * n \<and> pc mod 4 = 2"
    "pp_next pp_client n pc = Some (Await b) \<longleftrightarrow> pc < 4 * n \<and> pc mod 4 = 3 \<and> b = word_of_nat (pc div 4 + 1)"
    by (auto simp: pp_next_def pp_client_def pp_seq_def numeral_2_eq_2 numeral_3_eq_3)
qed

lemma next_server:
  "pp_next pp_server n pc = Some (Await b) \<longleftrightarrow> pc < 4 * n \<and> pc mod 4 = 0 \<and> b = word_of_nat (pc div 4 + 1)"
  "pp_next pp_server n pc = Some (Bell b) \<longleftrightarrow> pc < 4 * n \<and> pc mod 4 = 1 \<and> b = word_of_nat (pc div 4 + 1)"
  "pp_next pp_server n pc = Some Write_half \<longleftrightarrow> pc < 4 * n \<and> pc mod 4 = 2"
  "pp_next pp_server n pc = Some Reap \<longleftrightarrow> pc < 4 * n \<and> pc mod 4 = 3"
proof -
  have "pc mod 4 \<in> {0, 1, 2, 3}" by auto
  then show "pp_next pp_server n pc = Some (Await b) \<longleftrightarrow> pc < 4 * n \<and> pc mod 4 = 0 \<and> b = word_of_nat (pc div 4 + 1)"
    "pp_next pp_server n pc = Some (Bell b) \<longleftrightarrow> pc < 4 * n \<and> pc mod 4 = 1 \<and> b = word_of_nat (pc div 4 + 1)"
    "pp_next pp_server n pc = Some Write_half \<longleftrightarrow> pc < 4 * n \<and> pc mod 4 = 2"
    "pp_next pp_server n pc = Some Reap \<longleftrightarrow> pc < 4 * n \<and> pc mod 4 = 3"
    by (auto simp: pp_next_def pp_server_def pp_seq_def numeral_2_eq_2 numeral_3_eq_3)
qed

text \<open>Two neighbouring numbers stay different when cut to eight bits.\<close>

lemma byte_next:
  assumes "k \<le> m" "m \<le> Suc k" and "(word_of_nat m :: byte) = word_of_nat (k + 1)"
  shows "m = Suc k"
proof (rule ccontr)
  assume "m \<noteq> Suc k"
  then have "m = k" using assms(1,2) by simp
  with assms(3) have "(0 :: byte) = 1" by simp
  then show False by simp
qed

text \<open>A position in its round.\<close>

lemma quarterE:
  fixes p :: nat
  assumes "p mod 4 = j"
  obtains k where "p = 4 * k + j"
  using assms mult_div_mod_eq [of 4 p] by metis

lemma quarters [simp]: "Suc (4 * k) div 4 = k" "Suc (Suc (4 * k)) div 4 = k" "Suc (Suc (Suc (4 * k))) div 4 = k"
  "Suc (4 * k) mod 4 = 1" "Suc (Suc (4 * k)) mod 4 = 2" "Suc (Suc (Suc (4 * k))) mod 4 = 3" for k :: nat
  by presburger+

lemma quarter_cases:
  fixes p :: nat
  obtains k where "p = 4 * k" | k where "p = 4 * k + 1" | k where "p = 4 * k + 2" | k where "p = 4 * k + 3"
proof -
  have "p mod 4 \<in> {0, 1, 2, 3}" by auto
  with that mult_div_mod_eq [of 4 p] show thesis by (metis add.right_neutral insertE singletonD)
qed

lemma between_post_and_reap:
  fixes p l :: nat
  shows "(p + 1) div 4 \<le> l \<Longrightarrow> l < (p + 2) div 4 \<Longrightarrow> (p + 3) div 4 = Suc l"
    and "p div 4 \<le> l \<Longrightarrow> l < (p + 1) div 4 \<Longrightarrow> (p + 2) div 4 = Suc l"
  by (cases p rule: quarter_cases; simp)+

text \<open>The client posts at most one write more than the server has answered, and the other way round.\<close>

lemma pp_ahead:
  assumes "pp_good n c"
  shows "landed_c c \<le> Suc (seen_s c)" and "landed_s c \<le> Suc (seen_c c)"
proof -
  have g: "landed_c c \<le> posted_c c" "landed_s c \<le> posted_s c" "seen_s c \<le> landed_c c" "seen_c c \<le> landed_s c"
    using assms by (auto simp: pp_good_def)
  have "posted_c c \<le> Suc (seen_c c)" "posted_s c \<le> seen_s c" by (simp_all add: pp_counts)
  with g show "landed_c c \<le> Suc (seen_s c)" "landed_s c \<le> Suc (seen_c c)" by linarith+
qed

lemma pp_good_step:
  assumes "pp_good n c" and "pp_step n c d"
  shows "pp_good n d"
  using assms(2)
proof cases
  case (await_c b)
  then have p: "pc_c c < 4 * n" "pc_c c mod 4 = 3" "poll_c c = word_of_nat (pc_c c div 4 + 1)"
    by (auto simp: next_client)
  then have "landed_s c = Suc (seen_c c)"
    using byte_next [of "seen_c c" "landed_s c"] pp_ahead(2) [OF assms(1)] assms(1) by (auto simp: pp_good_def seen_c_def)
  moreover obtain k where "pc_c c = 4 * k + 3" using p(2) by (rule quarterE)
  ultimately show ?thesis using assms(1) p(1) await_c(1) by (auto simp: pp_good_def pp_counts)
next
  case (await_s b)
  then have p: "pc_s c < 4 * n" "pc_s c mod 4 = 0" "poll_s c = word_of_nat (pc_s c div 4 + 1)" by (auto simp: next_server)
  obtain k where k: "pc_s c = 4 * k + 0" using p(2) by (rule quarterE)
  then have "landed_c c = Suc (seen_s c)"
    using byte_next [of "seen_s c" "landed_c c"] pp_ahead(1) [OF assms(1)] assms(1) p(3) by (auto simp: pp_good_def seen_s_def)
  with k show ?thesis using assms(1) p(1) await_s(1) by (auto simp: pp_good_def pp_counts)
next
  case (bell_c b)
  then have p: "pc_c c < 4 * n" "pc_c c mod 4 = 0" "b = word_of_nat (pc_c c div 4 + 1)" by (auto simp: next_client)
  obtain k where "pc_c c = 4 * k + 0" using p(2) by (rule quarterE)
  with p show ?thesis using assms(1) bell_c(1) by (auto simp: pp_good_def pp_counts)
next
  case write_c
  then have p: "pc_c c < 4 * n" "pc_c c mod 4 = 1" by (auto simp: next_client)
  obtain k where "pc_c c = 4 * k + 1" using p(2) by (rule quarterE)
  with p show ?thesis using assms(1) write_c(1) by (auto simp: pp_good_def pp_counts)
next
  case reap_c
  then have p: "pc_c c < 4 * n" "pc_c c mod 4 = 2" by (auto simp: next_client)
  obtain k where "pc_c c = 4 * k + 2" using p(2) by (rule quarterE)
  with p show ?thesis using assms(1) reap_c by (auto simp: pp_good_def pp_counts)
next
  case (bell_s b)
  then have p: "pc_s c < 4 * n" "pc_s c mod 4 = 1" "b = word_of_nat (pc_s c div 4 + 1)" by (auto simp: next_server)
  obtain k where "pc_s c = 4 * k + 1" using p(2) by (rule quarterE)
  with p show ?thesis using assms(1) bell_s(1) by (auto simp: pp_good_def pp_counts)
next
  case write_s
  then have p: "pc_s c < 4 * n" "pc_s c mod 4 = 2" by (auto simp: next_server)
  obtain k where "pc_s c = 4 * k + 2" using p(2) by (rule quarterE)
  with p show ?thesis using assms(1) write_s(1) by (auto simp: pp_good_def pp_counts)
next
  case reap_s
  then have p: "pc_s c < 4 * n" "pc_s c mod 4 = 3" by (auto simp: next_server)
  obtain k where "pc_s c = 4 * k + 3" using p(2) by (rule quarterE)
  with p show ?thesis using assms(1) reap_s by (auto simp: pp_good_def pp_counts)
next
  case land_c
  have "(pc_c c + 1) div 4 \<le> landed_c c" "landed_c c < (pc_c c + 2) div 4"
    using assms(1) land_c(2) by (auto simp: pp_good_def pp_counts)
  then have "(pc_c c + 3) div 4 = Suc (landed_c c)" by (rule between_post_and_reap)
  with assms(1) land_c show ?thesis by (auto simp: pp_good_def pp_counts)
next
  case land_s
  have "pc_s c div 4 \<le> landed_s c" "landed_s c < (pc_s c + 1) div 4"
    using assms(1) land_s(2) by (auto simp: pp_good_def pp_counts)
  then have "(pc_s c + 2) div 4 = Suc (landed_s c)" by (rule between_post_and_reap)
  with assms(1) land_s show ?thesis by (auto simp: pp_good_def pp_counts)
qed (use assms(1) in \<open>auto simp: pp_good_def pp_counts\<close>)

lemma pp_work_step:
  assumes "pp_good n c" and "pp_step n c d"
  shows "pp_work n d < pp_work n c"
proof -
  have "posted_c c \<le> n" "posted_s c \<le> n" using assms(1) by (auto simp: pp_good_def pp_counts)
  then have "landed_c c \<le> n" "landed_s c \<le> n" "acked_c c \<le> n" "acked_s c \<le> n" using assms(1) by (auto simp: pp_good_def)
  with assms(2) \<open>posted_c c \<le> n\<close> \<open>posted_s c \<le> n\<close> show ?thesis
    by cases (auto simp: pp_work_def next_client next_server)
qed

text \<open>Where nothing moves, a side that is not done waits for the next answer.\<close>

lemma pp_stuck:
  assumes "pp_good n c" and "\<And>d. \<not> pp_step n c d"
  shows "landed_c c = posted_c c" "landed_s c = posted_s c"
    and "pc_c c = 4 * n \<or> (\<exists>k. pc_c c = 4 * k + 3 \<and> k < n \<and> landed_s c \<noteq> Suc k)"
    and "pc_s c = 4 * n \<or> (\<exists>k. pc_s c = 4 * k \<and> k < n \<and> landed_c c \<noteq> Suc k)"
proof -
  have "\<not> landed_c c < posted_c c" "\<not> landed_s c < posted_s c" "\<not> acked_c c < landed_c c" "\<not> acked_s c < landed_s c"
    using assms(2) pp_step.intros(9-12) by blast+
  then have l: "landed_c c = posted_c c" "landed_s c = posted_s c" and a: "acked_c c = landed_c c" "acked_s c = landed_s c"
    using assms(1) by (auto simp: pp_good_def)
  show "landed_c c = posted_c c" "landed_s c = posted_s c" by (fact l)+
  have nc: "\<not> (pp_next pp_client n (pc_c c) = Some (Bell b) \<or> pp_next pp_client n (pc_c c) = Some Write_half)"
    "\<not> (pp_next pp_client n (pc_c c) = Some Reap \<and> reaped_c c < acked_c c)"
    "\<not> (pp_next pp_client n (pc_c c) = Some (Await (poll_c c)))" for b
    using assms(2) pp_step.intros(1-4) by blast+
  have g: "pc_c c \<le> 4 * n" "pc_s c \<le> 4 * n" "poll_c c = word_of_nat (landed_s c)" "poll_s c = word_of_nat (landed_c c)"
    using assms(1) by (auto simp: pp_good_def)
  have "\<exists>k. pc_c c = 4 * k + 3 \<and> k < n \<and> landed_s c \<noteq> Suc k" if "pc_c c < 4 * n"
  proof (cases "pc_c c" rule: quarter_cases)
    case (3 k)
    with nc(2) that l a show ?thesis by (simp add: next_client pp_counts)
  next
    case (4 k)
    with nc(3) that g(3) show ?thesis by (auto simp: next_client)
  qed (use nc(1) that in \<open>auto simp: next_client\<close>)
  with g(1) show "pc_c c = 4 * n \<or> (\<exists>k. pc_c c = 4 * k + 3 \<and> k < n \<and> landed_s c \<noteq> Suc k)" by (metis le_neq_implies_less)
  have ns: "\<not> (pp_next pp_server n (pc_s c) = Some (Bell b) \<or> pp_next pp_server n (pc_s c) = Some Write_half)"
    "\<not> (pp_next pp_server n (pc_s c) = Some Reap \<and> reaped_s c < acked_s c)"
    "\<not> (pp_next pp_server n (pc_s c) = Some (Await (poll_s c)))" for b
    using assms(2) pp_step.intros(5-8) by blast+
  have "\<exists>k. pc_s c = 4 * k \<and> k < n \<and> landed_c c \<noteq> Suc k" if "pc_s c < 4 * n"
  proof (cases "pc_s c" rule: quarter_cases)
    case (1 k)
    with ns(3) that g(4) show ?thesis by (auto simp: next_server)
  next
    case (4 k)
    with ns(2) that l a show ?thesis by (simp add: next_server pp_counts)
  qed (use ns(1) that in \<open>auto simp: next_server\<close>)
  with g(2) show "pc_s c = 4 * n \<or> (\<exists>k. pc_s c = 4 * k \<and> k < n \<and> landed_c c \<noteq> Suc k)" by (metis le_neq_implies_less)
qed

lemma pp_progress:
  assumes "pp_good n c" and "\<not> pp_finished n c"
  shows "\<exists>d. pp_step n c d"
proof (rule ccontr)
  assume "\<not> ?thesis"
  then have "\<And>d. \<not> pp_step n c d" by blast
  note s = pp_stuck [OF assms(1) this] and h = pp_ahead [OF assms(1)]
  have "seen_s c \<le> landed_c c" "seen_c c \<le> landed_s c" using assms(1) by (auto simp: pp_good_def)
  with s h assms(2) show False by (auto simp: pp_counts pp_finished_def)
qed

interpretation ping_pong: terminating_system "pp_step n" "\<lambda>c. c = pp_init" "pp_good n" "pp_finished n" "pp_work n"
  for n
proof
  show "pp_good n c" if "c = pp_init" for c
    using that by (simp add: pp_good_def pp_init_def pp_counts)
qed (fact pp_good_step pp_work_step pp_progress)+

section \<open>Properties\<close>

text \<open>
  C27. An eight-bit doorbell is enough: in every reachable state of the one-sided ping-pong, whatever
  the number of rounds, the rounds the server has seen are rounds whose write has landed and the
  rounds the client has seen are rounds whose answer has landed, so no side takes an old doorbell
  for a new one; and no side is ever more than one round ahead of the other.
\<close>

theorem doorbells_in_step:
  assumes "(pp_step n)\<^sup>*\<^sup>* pp_init c"
  shows "seen_s c \<le> landed_c c \<and> landed_c c \<le> posted_c c \<and> seen_c c \<le> landed_s c \<and> landed_s c \<le> posted_s c \<and>
    seen_c c \<le> seen_s c \<and> seen_s c \<le> Suc (seen_c c)"
proof -
  have g: "pp_good n c" by (rule ping_pong.reach_good [OF refl assms])
  have "posted_c c \<le> Suc (seen_c c)" "posted_s c \<le> seen_s c" by (simp_all add: pp_counts)
  with g show ?thesis by (auto simp: pp_good_def)
qed

theorem doorbells_in_step_witness:
  "\<exists>c. (pp_step 300)\<^sup>*\<^sup>* pp_init c \<and> seen_c c = 300 \<and> seen_s c = 300 \<and> landed_c c = 300 \<and> posted_c c = 300"
proof -
  obtain c where c: "(pp_step 300)\<^sup>*\<^sup>* pp_init c" "\<nexists>d. pp_step 300 c d" using ping_pong.reaches_stuck [OF refl] by blast
  from ping_pong.stuck_finished [OF refl c] have "seen_c c = 300" "posted_c c = 300" by (auto simp: pp_finished_def pp_counts)
  with doorbells_in_step [OF c(1)] ping_pong.stuck_finished [OF refl c] c(1) show ?thesis by (auto simp: pp_finished_def pp_counts)
qed

text \<open>
  C28. The one-sided ping-pong ends: there is no infinite run, and where no step is left both sides
  have finished all their rounds and every write of theirs has landed.
\<close>

theorem ping_pong_ends:
  "\<not> (\<exists>f. f 0 = pp_init \<and> (\<forall>i. pp_step n (f i) (f (Suc i)))) \<and>
   (\<forall>c. (pp_step n)\<^sup>*\<^sup>* pp_init c \<longrightarrow> (\<nexists>d. pp_step n c d) \<longrightarrow>
      pc_c c = 4 * n \<and> pc_s c = 4 * n \<and> landed_c c = n \<and> landed_s c = n)"
proof (intro conjI allI impI)
  show "\<not> (\<exists>f. f 0 = pp_init \<and> (\<forall>i. pp_step n (f i) (f (Suc i))))"
    using ping_pong.no_infinite_run [OF refl, of _ n] by metis
  fix c assume r: "(pp_step n)\<^sup>*\<^sup>* pp_init c" and s: "\<nexists>d. pp_step n c d"
  have g: "pp_good n c" "pp_finished n c" using ping_pong.stuck_finished [OF refl r s] by auto
  then show "pc_c c = 4 * n" "pc_s c = 4 * n" "landed_c c = n" "landed_s c = n"
    by (auto simp: pp_good_def pp_finished_def pp_counts)
qed

theorem ping_pong_ends_witness:
  "\<exists>c. (pp_step 300)\<^sup>*\<^sup>* pp_init c \<and> landed_s c = 300"
proof -
  obtain c where "(pp_step 300)\<^sup>*\<^sup>* pp_init c" "\<nexists>d. pp_step 300 c d" using ping_pong.reaches_stuck [OF refl] by blast
  with ping_pong_ends [of 300] show ?thesis by blast
qed

end
