(* ===== verification/Kv_Pool.thy ===== *)
theory Kv_Pool
  imports Prelude
begin

text \<open>
  The slots of the KV cache (kv_cache.hpp, and the two branches of \<open>serve\<close> in kv_server.cpp that
  change the pool): a slab of equal slots with a list of the free ones. The interface is a
  locale of slot allocators, whose clients never hold a slot twice; the pool is an instance, and
  refines a specification that only knows which slots are held.
\<close>

section \<open>Definitions\<close>

definition KV_MSG_ALLOC :: int where "KV_MSG_ALLOC = 0"
definition KV_MSG_FREE :: int where "KV_MSG_FREE = 1"
definition KV_MSG_META :: int where "KV_MSG_META = 2"

text \<open>\<open>kp_data\<close> and \<open>kp_bytes\<close> are the address and the size of the vector \<open>mem\<close>.\<close>

record kv_pool =
  kp_data :: u64
  kp_bytes :: u64
  kp_slot_size :: u64
  kp_num_slots :: int
  kp_free_list :: "int list"

text \<open>The vector \<open>free_list\<close> is used as a stack: \<open>back\<close>, \<open>pop_back\<close>, \<open>push_back\<close>.\<close>

definition pool_alloc :: "kv_pool \<Rightarrow> int \<times> kv_pool" where
  "pool_alloc p = (if kp_free_list p = [] then (-1, p)
     else (last (kp_free_list p), p\<lparr>kp_free_list := butlast (kp_free_list p)\<rparr>))"

definition pool_free :: "int \<Rightarrow> kv_pool \<Rightarrow> kv_pool" where
  "pool_free i p = p\<lparr>kp_free_list := kp_free_list p @ [i]\<rparr>"

text \<open>One request: the reply, or None where the server gives up, and the pool after it.\<close>

definition serve_msg :: "kv_pool \<Rightarrow> int \<Rightarrow> int \<Rightarrow> int option \<times> kv_pool" where
  "serve_msg p msg payload =
     (if msg = KV_MSG_ALLOC then (case pool_alloc p of (i, p') \<Rightarrow> (Some i, p'))
      else if msg = KV_MSG_FREE then
        (if payload < 0 \<or> kp_num_slots p \<le> payload then (None, p) else (Some 0, pool_free payload p))
      else (None, p))"

text \<open>The loop that fills the free list of a new pool.\<close>

function fill_free_list :: "int \<Rightarrow> int \<Rightarrow> int list \<Rightarrow> int list" where
  "fill_free_list i n l = (if i < n then fill_free_list (i + 1) n (l @ [i]) else l)"
  by pat_completeness auto
termination
  by (relation "measure (\<lambda>(i, n, l). nat (n - i))") auto

declare fill_free_list.simps [simp del]

text \<open>
  \<open>mem.resize(num_slots * slot_size)\<close>, with the product in \<open>size_t\<close>, then the free list; \<open>data\<close> is
  the address of the block the vector got.
\<close>

definition pool_fill :: "u64 \<Rightarrow> kv_pool \<Rightarrow> kv_pool" where
  "pool_fill data p = p\<lparr>kp_data := data, kp_bytes := word_of_int (kp_num_slots p) * kp_slot_size p,
     kp_free_list := fill_free_list 0 (kp_num_slots p) (kp_free_list p)\<rparr>"

text \<open>The client's address of a slot.\<close>

definition slot_addr :: "u64 \<Rightarrow> u64 \<Rightarrow> int \<Rightarrow> u64" where
  "slot_addr base_addr slot_bytes i = base_addr + word_of_int i * slot_bytes"

section \<open>Slot allocators\<close>

datatype kv_request = Alloc | Free_slot int

text \<open>What a client may rely on: an abstract server that knows only the set of held slots.\<close>

inductive spec_step :: "int set \<Rightarrow> kv_request \<Rightarrow> int \<Rightarrow> int set \<Rightarrow> int set \<Rightarrow> bool" for slots where
  spec_alloc: "i \<in> slots - H \<Longrightarrow> spec_step slots Alloc i H (insert i H)"
| spec_full: "slots \<subseteq> H \<Longrightarrow> spec_step slots Alloc (-1) H H"
| spec_free: "i \<in> H \<Longrightarrow> spec_step slots (Free_slot i) 0 H (H - {i})"

inductive_cases spec_allocE: "spec_step slots Alloc r H H'"
inductive_cases spec_freeE: "spec_step slots (Free_slot i) r H H'"

text \<open>A client that keeps track of the slots it was given, and frees only those.\<close>

fun kv_client :: "('s \<Rightarrow> int \<times> 's) \<Rightarrow> (int \<Rightarrow> 's \<Rightarrow> 's) \<Rightarrow> kv_request list \<Rightarrow> int list \<times> 's \<Rightarrow> int list \<times> 's" where
  "kv_client alloc free [] x = x"
| "kv_client alloc free (Alloc # qs) (h, s) =
     (case alloc s of (i, s') \<Rightarrow> kv_client alloc free qs (if i = -1 then h else i # h, s'))"
| "kv_client alloc free (Free_slot i # qs) (h, s) =
     (if i \<in> set h then kv_client alloc free qs (removeAll i h, free i s) else kv_client alloc free qs (h, s))"

locale slot_allocator =
  fixes alloc :: "'s \<Rightarrow> int \<times> 's" and free :: "int \<Rightarrow> 's \<Rightarrow> 's"
    and inv :: "'s \<Rightarrow> bool" and available :: "'s \<Rightarrow> int set" and slots :: "'s \<Rightarrow> int set"
  assumes alloc_some: "inv s \<Longrightarrow> available s \<noteq> {} \<Longrightarrow> alloc s = (i, s') \<Longrightarrow>
      i \<in> available s \<and> inv s' \<and> available s' = available s - {i} \<and> slots s' = slots s"
    and alloc_none: "inv s \<Longrightarrow> available s = {} \<Longrightarrow> alloc s = (-1, s)"
    and free_held: "inv s \<Longrightarrow> i \<in> slots s - available s \<Longrightarrow>
      inv (free i s) \<and> available (free i s) = insert i (available s) \<and> slots (free i s) = slots s"
    and available_slots: "inv s \<Longrightarrow> available s \<subseteq> slots s"
begin

abbreviation held :: "'s \<Rightarrow> int set" where
  "held s \<equiv> slots s - available s"

definition request :: "kv_request \<Rightarrow> 's \<Rightarrow> int \<times> 's" where
  "request q s = (case q of Alloc \<Rightarrow> alloc s | Free_slot i \<Rightarrow> (0, free i s))"

text \<open>Every request a client makes for slots it holds is one of the specification.\<close>

lemma request_refines:
  assumes "inv s" and "\<And>i. q = Free_slot i \<Longrightarrow> i \<in> held s" and "request q s = (r, s')"
  shows "inv s' \<and> slots s' = slots s \<and> spec_step (slots s) q r (held s) (held s')"
proof (cases q)
  case Alloc
  show ?thesis
  proof (cases "available s = {}")
    case True
    with alloc_none [OF assms(1)] assms Alloc show ?thesis by (auto simp: request_def intro: spec_full)
  next
    case False
    have a: "alloc s = (r, s')" using assms(3) Alloc by (simp add: request_def)
    note s = alloc_some [OF assms(1) False a]
    have "held s' = insert r (held s)" using s available_slots [OF assms(1)] by auto
    moreover have "r \<in> slots s - held s" using s available_slots [OF assms(1)] by auto
    ultimately show ?thesis using s Alloc spec_alloc by metis
  qed
next
  case (Free_slot i)
  have i: "i \<in> held s" using assms(2) Free_slot by blast
  note s = free_held [OF assms(1) i]
  have e: "r = 0" "s' = free i s" using assms(3) Free_slot by (auto simp: request_def)
  have "held s' = held s - {i}" using s e by auto
  then show ?thesis using s e i Free_slot spec_free by metis
qed

lemma client_distinct:
  assumes "inv s" and "distinct h" and "set h = held s" and "-1 \<notin> slots s" and "kv_client alloc free qs (h, s) = (h', s')"
  shows "inv s' \<and> distinct h' \<and> set h' = held s' \<and> slots s' = slots s"
  using assms
proof (induction qs arbitrary: h s)
  case (Cons q qs)
  show ?case
  proof (cases q)
    case Alloc
    obtain i s1 where a: "alloc s = (i, s1)" by (metis surj_pair)
    have s1: "inv s1" "slots s1 = slots s" "spec_step (slots s) Alloc i (held s) (held s1)"
      using request_refines [of s Alloc i s1] a Cons.prems(1) by (auto simp: request_def)
    from s1(3) Cons.prems(4) have "if i = -1 then held s1 = held s else i \<notin> held s \<and> held s1 = insert i (held s)"
      by (auto elim!: spec_allocE)
    with Cons.prems(2,3) have "distinct (if i = -1 then h else i # h) \<and> set (if i = -1 then h else i # h) = held s1" by auto
    moreover have "kv_client alloc free qs (if i = -1 then h else i # h, s1) = (h', s')" using Cons.prems(5) a Alloc by simp
    ultimately show ?thesis using Cons.IH [OF s1(1), of "if i = -1 then h else i # h"] s1(2) Cons.prems(4) by simp
  next
    case (Free_slot i)
    show ?thesis
    proof (cases "i \<in> set h")
      case True
      then have "i \<in> held s" using Cons.prems(3) by simp
      note s = free_held [OF Cons.prems(1) this]
      then have "set (removeAll i h) = held (free i s)" using Cons.prems(3) by auto
      with Cons.IH [of "free i s" "removeAll i h"] Cons.prems True Free_slot s show ?thesis by (simp add: distinct_removeAll)
    next
      case False
      then have "kv_client alloc free qs (h, s) = (h', s')" using Cons.prems(5) Free_slot by simp
      then show ?thesis by (rule Cons.IH [OF Cons.prems(1-4)])
    qed
  qed
qed simp

end

section \<open>The pool\<close>

definition pool_inv :: "kv_pool \<Rightarrow> bool" where
  "pool_inv p \<longleftrightarrow> distinct (kp_free_list p) \<and> set (kp_free_list p) \<subseteq> {0..<kp_num_slots p}"

definition pool_slots :: "kv_pool \<Rightarrow> int set" where
  "pool_slots p = {0..<kp_num_slots p}"

definition pool_available :: "kv_pool \<Rightarrow> int set" where
  "pool_available p = set (kp_free_list p)"

interpretation pool: slot_allocator pool_alloc pool_free pool_inv pool_available pool_slots
proof
  fix s :: kv_pool and i s'
  assume s: "pool_inv s" "pool_available s \<noteq> {}" "pool_alloc s = (i, s')"
  then obtain xs x where l: "kp_free_list s = xs @ [x]"
    by (cases "kp_free_list s" rule: rev_cases) (auto simp: pool_available_def)
  with s show "i \<in> pool_available s \<and> pool_inv s' \<and> pool_available s' = pool_available s - {i} \<and> pool_slots s' = pool_slots s"
    by (auto simp: pool_alloc_def pool_inv_def pool_available_def pool_slots_def)
qed (auto simp: pool_alloc_def pool_free_def pool_inv_def pool_available_def pool_slots_def)

lemma fill_free_list_eq: "fill_free_list i n l = l @ [i..n - 1]"
proof (induction i n l rule: fill_free_list.induct)
  case (1 i n l)
  then show ?case
    by (subst fill_free_list.simps) (auto simp: upto_rec1 [of i "n - 1"])
qed

lemma pool_fill_inv:
  assumes "kp_free_list p = []"
  shows "pool_inv (pool_fill d p) \<and> pool_available (pool_fill d p) = pool_slots (pool_fill d p)"
  using assms by (auto simp: pool_fill_def pool_inv_def pool_available_def pool_slots_def fill_free_list_eq)

lemma serve_msg_alloc: "serve_msg p KV_MSG_ALLOC x = (Some (fst (pool_alloc p)), snd (pool_alloc p))"
  by (simp add: serve_msg_def split: prod.split)

lemma serve_msg_free:
  "serve_msg p KV_MSG_FREE i = (if i \<in> pool_slots p then (Some 0, pool_free i p) else (None, p))"
  by (auto simp: serve_msg_def KV_MSG_ALLOC_def KV_MSG_FREE_def pool_slots_def)

section \<open>Slots in memory\<close>

lemma unat_slot_addr:
  assumes "0 \<le> i" and "unat base + nat i * unat sz < 2 ^ 64"
  shows "unat (slot_addr base sz i) = unat base + nat i * unat sz"
proof (cases "unat sz = 0")
  case True
  then have "sz = 0" by (simp add: unat_eq_0)
  then show ?thesis by (simp add: slot_addr_def)
next
  case False
  then have "nat i \<le> nat i * unat sz" by simp
  then have i: "nat i < 2 ^ 64" using assms(2) by linarith
  have "unat (word_of_int i :: u64) = nat i"
    using i assms(1) by (simp add: unat_eq_nat_uint uint_word_of_int take_bit_int_eq_self)
  then have "unat (word_of_int i * sz) = nat i * unat sz"
    using assms(2) by (simp add: unat_word_ariths)
  then show ?thesis using assms(2) by (simp add: slot_addr_def unat_word_ariths)
qed


section \<open>Properties\<close>

text \<open>
  C37. No slot is handed out twice: whatever a client that frees only what it holds asks of a new
  pool, the slots it holds are distinct slots of the pool, and the free list holds each of the
  others exactly once.
\<close>

theorem kv_slots_exclusive:
  assumes "kp_free_list p = []" and "kv_client pool_alloc pool_free qs ([], pool_fill d p) = (h, p')"
  shows "distinct h \<and> distinct (kp_free_list p') \<and> set h \<inter> set (kp_free_list p') = {} \<and>
    set h \<union> set (kp_free_list p') = {0..<kp_num_slots p}"
proof -
  note n = pool_fill_inv [OF assms(1), of d]
  have "-1 \<notin> pool_slots (pool_fill d p)" by (simp add: pool_slots_def)
  from pool.client_distinct [OF _ _ _ this assms(2)] n
  have "pool_inv p'" "distinct h" "set h = pool_slots p' - pool_available p'" "pool_slots p' = pool_slots (pool_fill d p)" by auto
  with pool.available_slots [of p'] show ?thesis
    by (auto simp: pool_inv_def pool_available_def pool_slots_def pool_fill_def)
qed

definition pool2 :: kv_pool where
  "pool2 = \<lparr>kp_data = 0, kp_bytes = 0, kp_slot_size = 16, kp_num_slots = 2, kp_free_list = []\<rparr>"

theorem kv_slots_exclusive_witness:
  "\<exists>p'. kv_client pool_alloc pool_free [Alloc, Alloc, Alloc, Free_slot 1, Free_slot 1, Alloc] ([], pool_fill 4096 pool2) = ([1, 0], p') \<and>
     distinct [1 :: int, 0] \<and> set [1, 0] \<union> set (kp_free_list p') = {0..<2}"
proof -
  have f: "kp_free_list pool2 = []" "kp_num_slots pool2 = 2" by (simp_all add: pool2_def)
  have l: "kp_free_list (pool_fill 4096 pool2) = [0, 1]"
    by (simp add: pool_fill_def pool2_def fill_free_list_eq upto.simps)
  let ?p = "(pool_fill 4096 pool2)\<lparr>kp_free_list := []\<rparr>"
  have run: "kv_client pool_alloc pool_free [Alloc, Alloc, Alloc, Free_slot 1, Free_slot 1, Alloc] ([], pool_fill 4096 pool2) = ([1, 0], ?p)"
    by (simp add: pool_alloc_def pool_free_def l)
  from kv_slots_exclusive [OF f(1) run] run show ?thesis unfolding f by blast
qed

text \<open>
  C38. The server's pool refines the specification of a slot server: for a request a client may make
  (any allocation, and the free of a slot that is out), the reply and the change of the held
  slots are a step of the specification, and the pool stays well formed.
\<close>

theorem kv_pool_refines:
  assumes "pool_inv p" and "case q of Alloc \<Rightarrow> msg = KV_MSG_ALLOC
      | Free_slot i \<Rightarrow> msg = KV_MSG_FREE \<and> payload = i \<and> i \<in> {0..<kp_num_slots p} - set (kp_free_list p)"
  shows "\<exists>r p'. serve_msg p msg payload = (Some r, p') \<and> pool_inv p' \<and> kp_num_slots p' = kp_num_slots p \<and>
    spec_step {0..<kp_num_slots p} q r ({0..<kp_num_slots p} - set (kp_free_list p)) ({0..<kp_num_slots p} - set (kp_free_list p'))"
proof -
  obtain r p' where r: "pool.request q p = (r, p')" by (metis surj_pair)
  have "\<And>i. q = Free_slot i \<Longrightarrow> i \<in> pool_slots p - pool_available p"
    using assms(2) by (simp add: pool_slots_def pool_available_def)
  note s = pool.request_refines [OF assms(1) this r]
  have "serve_msg p msg payload = (Some r, p')"
    using r assms(2) by (cases q) (auto simp: pool.request_def serve_msg_alloc serve_msg_free pool_slots_def)
  moreover have "kp_num_slots p' = kp_num_slots p"
    using r by (cases q) (auto simp: pool.request_def pool_alloc_def pool_free_def split: if_splits)
  ultimately show ?thesis using s by (auto simp: pool_slots_def pool_available_def)
qed

theorem kv_pool_refines_witness:
  "\<exists>r p'. serve_msg (pool2\<lparr>kp_free_list := [0]\<rparr>) KV_MSG_FREE 1 = (Some r, p') \<and> spec_step {0..<2} (Free_slot 1) r {1} {}"
proof -
  have i: "pool_inv (pool2\<lparr>kp_free_list := [0]\<rparr>)" by (simp add: pool_inv_def pool2_def)
  have "{0..<2} - {0} = {1 :: int}" by auto
  then obtain r p' where r: "serve_msg (pool2\<lparr>kp_free_list := [0]\<rparr>) KV_MSG_FREE 1 = (Some r, p')"
    "spec_step {0..<2} (Free_slot 1) r {1} ({0..<2} - set (kp_free_list p'))"
    using kv_pool_refines [OF i, where q = "Free_slot 1" and msg = KV_MSG_FREE and payload = 1] by (auto simp: pool2_def)
  moreover have "kp_free_list p' = [0, 1]"
    using r(1) by (auto simp: serve_msg_def KV_MSG_FREE_def KV_MSG_ALLOC_def pool_free_def pool2_def)
  moreover have "{0..<2} - {0, 1} = ({} :: int set)" by auto
  ultimately show ?thesis by auto
qed

text \<open>
  Slots do not overlap: where the slab does not wrap the address space, the ranges the client
  computes for two different slots are disjoint and both inside the slab.
\<close>

theorem kv_slots_disjoint:
  assumes "0 \<le> i" "i < j" "j < n" and "unat base + nat n * unat sz < 2 ^ 64"
  shows "unat base \<le> unat (slot_addr base sz i) \<and>
    unat (slot_addr base sz i) + unat sz \<le> unat (slot_addr base sz j) \<and>
    unat (slot_addr base sz j) + unat sz \<le> unat base + nat n * unat sz"
proof -
  have step: "nat k * unat sz + unat sz \<le> nat m * unat sz" if "0 \<le> k" "k < m" for k m :: int
  proof -
    have "Suc (nat k) \<le> nat m" using that by simp
    then have "Suc (nat k) * unat sz \<le> nat m * unat sz" by (rule mult_le_mono1)
    then show ?thesis by simp
  qed
  have i: "nat i * unat sz + unat sz \<le> nat j * unat sz" and j: "nat j * unat sz + unat sz \<le> nat n * unat sz"
    using step [of i j] step [of j n] assms(1-3) by simp_all
  have "unat (slot_addr base sz i) = unat base + nat i * unat sz" "unat (slot_addr base sz j) = unat base + nat j * unat sz"
    by (rule unat_slot_addr; use assms i j in linarith)+
  then show ?thesis using i j by simp
qed

theorem kv_slots_disjoint_witness:
  "unat (slot_addr 4096 16 0) + 16 \<le> unat (slot_addr 4096 16 1) \<and> unat (slot_addr 4096 16 1) + 16 \<le> 4096 + 2 * 16"
  using kv_slots_disjoint [of 0 1 2 4096 16] by simp

text \<open>
  The server does not check a free against what is out: a client that frees slot 1 twice gets it
  twice from the next two allocations.
\<close>

theorem kv_double_free:
  "let p1 = snd (serve_msg (pool2\<lparr>kp_free_list := [0]\<rparr>) KV_MSG_FREE 1);
       p2 = snd (serve_msg p1 KV_MSG_FREE 1);
       (r3, p3) = serve_msg p2 KV_MSG_ALLOC 0;
       (r4, p4) = serve_msg p3 KV_MSG_ALLOC 0
   in r3 = Some 1 \<and> r4 = Some 1 \<and> \<not> pool_inv p2"
  by (simp add: serve_msg_def KV_MSG_FREE_def KV_MSG_ALLOC_def pool_free_def pool_alloc_def pool2_def pool_inv_def)


end
