(* ===== verification/Kv_Server.thy ===== *)
theory Kv_Server
  imports Kv_Pool Tcp_Transport Rdma_Transport
begin

text \<open>
  The KV cache server and the calls of its client (kv_server.cpp, kv_bench.cpp): the control
  messages over a TCP transport, byte for byte, the loop that serves them, the client's
  allocate and free, and the life of the server process. A control message lives in the union
  \<open>CtrlBuf\<close>, sixteen bytes of the process memory registered as a buffer.
\<close>

section \<open>Definitions\<close>

subsection \<open>The control buffer\<close>

text \<open>\<open>msg[0]\<close> and \<open>meta.num_slots\<close> are the first four bytes, \<open>msg[1]\<close> the next, \<open>meta.slot_size\<close> the last eight.\<close>

definition get_int :: "memory \<Rightarrow> u64 \<Rightarrow> int" where
  "get_int m a = int32_val (read_mem m a 4)"

definition put_int :: "memory \<Rightarrow> u64 \<Rightarrow> int \<Rightarrow> memory" where
  "put_int m a v = write_mem m a (int32_bytes v)"

definition get_u64 :: "memory \<Rightarrow> u64 \<Rightarrow> u64" where
  "get_u64 m a = u64_val (read_mem m a 8)"

definition put_u64 :: "memory \<Rightarrow> u64 \<Rightarrow> u64 \<Rightarrow> memory" where
  "put_u64 m a v = write_mem m a (u64_bytes v)"

text \<open>The pattern \<open>ctrl->send_async(...) != 0 || ctrl->poll(nullptr) != 0\<close>, and the one for receives.\<close>

definition send_poll :: "env \<Rightarrow> tcp_transport \<Rightarrow> memory \<Rightarrow> buffer_handle \<Rightarrow> u64 \<Rightarrow> (trace, int) state" where
  "send_poll E tr m h len = do {
     s \<leftarrow> tcp_send_async E tr m (Some h) len 0 0;
     if s \<noteq> 0 then ret (-1)
     else do { (p, _) \<leftarrow> tcp_poll None; ret p } }"

definition recv_poll :: "env \<Rightarrow> tcp_transport \<Rightarrow> buffer_handle \<Rightarrow> u64 \<Rightarrow> memory \<Rightarrow> (trace, int \<times> memory) state" where
  "recv_poll E tr h len m = do {
     (r, m') \<leftarrow> tcp_recv_async E tr (Some h) len 0 0 m;
     if r \<noteq> 0 then ret (-1, m')
     else do { (p, _) \<leftarrow> tcp_poll None; ret (p, m') } }"

subsection \<open>The server\<close>

definition server_handshake :: "env \<Rightarrow> tcp_transport \<Rightarrow> buffer_handle \<Rightarrow> kv_pool \<Rightarrow> memory \<Rightarrow> (trace, int \<times> memory) state" where
  "server_handshake E ctrl h pool m = do {
     (r, m1) \<leftarrow> recv_poll E ctrl h 4 m;
     if r \<noteq> 0 then ret (-1, m1)
     else if get_int m1 (bh_addr h) \<noteq> KV_MSG_META then ret (-1, m1)
     else do {
       let m2 = put_u64 (put_int m1 (bh_addr h) (kp_num_slots pool)) (bh_addr h + 8) (kp_slot_size pool);
       s \<leftarrow> send_poll E ctrl m2 h 16;
       ret (if s \<noteq> 0 then -1 else 0, m2) } }"

text \<open>One turn of the loop of \<open>serve\<close>: Some result where it returns, None where it goes on.\<close>

definition serve_iter :: "env \<Rightarrow> tcp_transport \<Rightarrow> buffer_handle \<Rightarrow> kv_pool \<Rightarrow> memory \<Rightarrow> (trace, int option \<times> kv_pool \<times> memory) state" where
  "serve_iter E ctrl h pool m = do {
     (r, m1) \<leftarrow> recv_poll E ctrl h 8 m;
     if r \<noteq> 0 then ret (Some 0, pool, m1)
     else (case serve_msg pool (get_int m1 (bh_addr h)) (get_int m1 (bh_addr h + 4)) of
        (None, pool') \<Rightarrow> ret (Some (-1), pool', m1)
      | (Some reply, pool') \<Rightarrow> do {
          let m2 = put_int m1 (bh_addr h) reply;
          s \<leftarrow> send_poll E ctrl m2 h 4;
          ret (if s \<noteq> 0 then Some (-1) else None, pool', m2) }) }"

partial_function (option) serve ::
    "env \<Rightarrow> tcp_transport \<Rightarrow> buffer_handle \<Rightarrow> kv_pool \<Rightarrow> memory \<Rightarrow> trace \<Rightarrow> ((int \<times> kv_pool \<times> memory) \<times> trace) option" where
  "serve E ctrl h pool m t =
     (case run_state (serve_iter E ctrl h pool m) t of
        ((Some r, pool', m'), u) \<Rightarrow> Some ((r, pool', m'), u)
      | ((None, pool', m'), u) \<Rightarrow> serve E ctrl h pool' m' u)"

subsection \<open>The client\<close>

definition client_handshake :: "env \<Rightarrow> tcp_transport \<Rightarrow> buffer_handle \<Rightarrow> int \<times> u64 \<Rightarrow> memory \<Rightarrow> (trace, int \<times> (int \<times> u64) \<times> memory) state" where
  "client_handshake E ctrl h remote m = do {
     let m1 = put_int m (bh_addr h) KV_MSG_META;
     s \<leftarrow> send_poll E ctrl m1 h 4;
     if s \<noteq> 0 then ret (-1, remote, m1)
     else do {
       (r, m2) \<leftarrow> recv_poll E ctrl h 16 m1;
       if r \<noteq> 0 then ret (-1, remote, m2)
       else ret (0, (get_int m2 (bh_addr h), get_u64 m2 (bh_addr h + 8)), m2) } }"

definition kv_alloc :: "env \<Rightarrow> tcp_transport \<Rightarrow> buffer_handle \<Rightarrow> int \<Rightarrow> memory \<Rightarrow> (trace, int \<times> int \<times> memory) state" where
  "kv_alloc E ctrl h slot_idx m = do {
     let m1 = put_int (put_int m (bh_addr h) KV_MSG_ALLOC) (bh_addr h + 4) 0;
     s \<leftarrow> send_poll E ctrl m1 h 8;
     if s \<noteq> 0 then ret (-1, slot_idx, m1)
     else do {
       (r, m2) \<leftarrow> recv_poll E ctrl h 4 m1;
       if r \<noteq> 0 then ret (-1, slot_idx, m2)
       else ret (0, get_int m2 (bh_addr h), m2) } }"

definition kv_free :: "env \<Rightarrow> tcp_transport \<Rightarrow> buffer_handle \<Rightarrow> int \<Rightarrow> memory \<Rightarrow> (trace, int \<times> memory) state" where
  "kv_free E ctrl h slot_idx m = do {
     let m1 = put_int (put_int m (bh_addr h) KV_MSG_FREE) (bh_addr h + 4) slot_idx;
     s \<leftarrow> send_poll E ctrl m1 h 8;
     if s \<noteq> 0 then ret (-1, m1)
     else do {
       (r, m2) \<leftarrow> recv_poll E ctrl h 4 m1;
       if r \<noteq> 0 then ret (-1, m2)
       else if get_int m2 (bh_addr h) \<noteq> 0 then ret (-1, m2)
       else ret (0, m2) } }"

section \<open>The buffer\<close>

lemma get_put_int: "is_int32 v \<Longrightarrow> get_int (put_int m a v) a = v"
  using read_write_same [of "int32_bytes v" m a] by (simp add: get_int_def put_int_def int32_round del: read_mem_numeral)

lemma read_two_ints: "read_mem (put_int (put_int m a x) (a + 4) y) a 8 = int32_bytes x @ int32_bytes y"
proof -
  let ?m = "put_int m a x"
  have d: "length (int32_bytes y) \<le> unat (a + word_of_nat i - (a + 4))" if "i < 4" for i
    by (rule unat_before [OF that]) simp_all
  have "read_mem (put_int ?m (a + 4) y) a (4 + 4) =
      read_mem (put_int ?m (a + 4) y) a 4 @ read_mem (put_int ?m (a + 4) y) (a + word_of_nat 4) 4"
    by (rule read_mem_append)
  also have "read_mem (put_int ?m (a + 4) y) a 4 = read_mem ?m a 4"
    unfolding put_int_def by (rule read_write_disjoint) (rule d)
  also have "\<dots> = int32_bytes x" using read_write_same [of "int32_bytes x" m a] by (simp add: put_int_def del: read_mem_numeral)
  also have "read_mem (put_int ?m (a + 4) y) (a + word_of_nat 4) 4 = int32_bytes y"
    using read_write_same [of "int32_bytes y" ?m "a + 4"] by (simp add: put_int_def del: read_mem_numeral)
  finally show ?thesis by (simp del: read_mem_numeral)
qed

lemma get_two_ints:
  assumes "length bs = 8"
  shows "get_int (write_mem m a bs) a = int32_val (take 4 bs)" "get_int (write_mem m a bs) (a + 4) = int32_val (drop 4 bs)"
  using read_write_window [of 0 4 bs m a] read_write_window [of 4 4 bs m a] assms
  by (simp_all add: get_int_def window_def del: read_mem_numeral)

lemma read_meta:
  "\<exists>pad. length pad = 4 \<and> read_mem (put_u64 (put_int m a n) (a + 8) s) a 16 = int32_bytes n @ pad @ u64_bytes s"
proof -
  let ?m = "put_int m a n"
  have d: "length (u64_bytes s) \<le> unat (a + word_of_nat i - (a + 8))" if "i < 8" for i
    by (rule unat_before [OF that]) simp_all
  have "read_mem (put_u64 ?m (a + 8) s) a (8 + 8) =
      read_mem (put_u64 ?m (a + 8) s) a 8 @ read_mem (put_u64 ?m (a + 8) s) (a + word_of_nat 8) 8"
    by (rule read_mem_append)
  also have "read_mem (put_u64 ?m (a + 8) s) a 8 = read_mem ?m a (4 + 4)"
    unfolding put_u64_def using read_write_disjoint [of 8 "u64_bytes s" a "a + 8" ?m] d by (simp del: read_mem_numeral)
  also have "\<dots> = read_mem ?m a 4 @ read_mem ?m (a + word_of_nat 4) 4" by (rule read_mem_append)
  also have "read_mem ?m a 4 = int32_bytes n" using read_write_same [of "int32_bytes n" m a] by (simp add: put_int_def del: read_mem_numeral)
  also have "read_mem (put_u64 ?m (a + 8) s) (a + word_of_nat 8) 8 = u64_bytes s"
    using read_write_same [of "u64_bytes s" ?m "a + 8"] by (simp add: put_u64_def del: read_mem_numeral)
  finally show ?thesis by (intro exI [of _ "read_mem ?m (a + word_of_nat 4) 4"]) (simp del: read_mem_numeral)
qed

section \<open>Calls and replies\<close>

lemma send_poll_ok:
  assumes "sock_ok E" and "run_state (send_poll E tr m h len) t = (0, u)"
  shows "sent_on (tt_fd tr) u = sent_on (tt_fd tr) t @ read_mem m (bh_addr h) (unat len) \<and>
    rcvd_on (tt_fd tr) u = rcvd_on (tt_fd tr) t"
proof -
  obtain s v where s: "run_state (tcp_send_async E tr m (Some h) len 0 0) t = (s, v)" by (metis surj_pair)
  have "s = 0" "v = u" using assms(2) s by (auto simp: send_poll_def tcp_poll_def run_simps split: if_splits)
  with s have s0: "run_state (tcp_send_async E tr m (Some h) len 0 0) t = (0, u)" by simp
  have "rcvd_on (tt_fd tr) u = rcvd_on (tt_fd tr) t"
    using s0 send_all_frame [of E "tt_fd tr"]
    by (auto simp: tcp_send_async_def tcp_send_all_def run_simps split: if_splits prod.splits)
  with tcp_send_spec [OF assms(1) s0] show ?thesis by simp
qed

lemma recv_poll_ok:
  assumes "sock_ok E" and "run_state (recv_poll E tr h len m) t = ((0, m'), u)"
  shows "\<exists>bs. length bs = unat len \<and> m' = write_mem m (bh_addr h) bs \<and>
    rcvd_on (tt_fd tr) u = rcvd_on (tt_fd tr) t @ bs \<and> sent_on (tt_fd tr) u = sent_on (tt_fd tr) t"
proof -
  obtain r m1 v where r: "run_state (tcp_recv_async E tr (Some h) len 0 0 m) t = ((r, m1), v)" by (metis surj_pair)
  have "r = 0" "v = u" "m1 = m'" using assms(2) r by (auto simp: recv_poll_def tcp_poll_def run_simps split: if_splits)
  with r have r0: "run_state (tcp_recv_async E tr (Some h) len 0 0 m) t = ((0, m'), u)" by simp
  have "sent_on (tt_fd tr) u = sent_on (tt_fd tr) t"
    using r0 recv_all_frame [of E "tt_fd tr"]
    by (auto simp: tcp_recv_async_def tcp_recv_all_def run_simps split: if_splits prod.splits)
  with tcp_recv_spec [OF assms(1) r0] show ?thesis by auto
qed

lemma poll_codes:
  "run_state (send_poll E tr m h len) t = (s, u) \<Longrightarrow> s = 0 \<or> s = -1"
  "run_state (recv_poll E tr h len m) t = ((r, m'), u) \<Longrightarrow> r = 0 \<or> r = -1"
  by (auto simp: send_poll_def recv_poll_def tcp_poll_def run_simps split: if_splits prod.splits)

lemma serve_iter_ok:
  assumes "sock_ok E" and "run_state (serve_iter E tr h p m) t = ((None, p', m'), u)"
  shows "\<exists>bs v. length bs = 8 \<and> serve_msg p (int32_val (take 4 bs)) (int32_val (drop 4 bs)) = (Some v, p') \<and>
    rcvd_on (tt_fd tr) u = rcvd_on (tt_fd tr) t @ bs \<and> sent_on (tt_fd tr) u = sent_on (tt_fd tr) t @ int32_bytes v"
proof -
  obtain r m1 t1 where r: "run_state (recv_poll E tr h 8 m) t = ((r, m1), t1)" by (metis surj_pair)
  have r0: "r = 0" using assms(2) r by (auto simp: serve_iter_def run_simps split: if_splits)
  obtain bs where bs: "length bs = 8" "m1 = write_mem m (bh_addr h) bs" "rcvd_on (tt_fd tr) t1 = rcvd_on (tt_fd tr) t @ bs"
    "sent_on (tt_fd tr) t1 = sent_on (tt_fd tr) t"
    using recv_poll_ok [OF assms(1), of tr h 8 m t m1 t1] r r0 by auto
  obtain v p1 where v: "serve_msg p (get_int m1 (bh_addr h)) (get_int m1 (bh_addr h + 4)) = (Some v, p1)"
    using assms(2) r r0 by (auto simp: serve_iter_def run_simps split: if_splits prod.splits option.splits)
  obtain s t2 where s: "run_state (send_poll E tr (put_int m1 (bh_addr h) v) h 4) t1 = (s, t2)" by (metis surj_pair)
  have e: "s = 0" "p1 = p'" "t2 = u"
    using assms(2) r r0 v s by (auto simp: serve_iter_def run_simps Let_def split: if_splits)
  have "read_mem (put_int m1 (bh_addr h) v) (bh_addr h) 4 = int32_bytes v"
    using read_write_same [of "int32_bytes v" m1] by (simp add: put_int_def del: read_mem_numeral)
  with send_poll_ok [OF assms(1), of tr "put_int m1 (bh_addr h) v" h 4 t1 t2] s e bs v get_two_ints [OF bs(1), of m "bh_addr h"]
  show ?thesis by (auto simp del: read_mem_numeral)
qed

text \<open>The two requests of the client: eight bytes out, four bytes back.\<close>

lemma request_ok:
  assumes "sock_ok E" and "run_state (send_poll E tr (put_int (put_int m (bh_addr h) x) (bh_addr h + 4) y) h 8) t = (0, t1)"
    and "run_state (recv_poll E tr h 4 (put_int (put_int m (bh_addr h) x) (bh_addr h + 4) y)) t1 = ((0, m'), u)"
  shows "\<exists>bs. length bs = 4 \<and> get_int m' (bh_addr h) = int32_val bs \<and>
    sent_on (tt_fd tr) u = sent_on (tt_fd tr) t @ int32_bytes x @ int32_bytes y \<and> rcvd_on (tt_fd tr) u = rcvd_on (tt_fd tr) t @ bs"
proof -
  obtain bs where bs: "length bs = 4" "m' = write_mem (put_int (put_int m (bh_addr h) x) (bh_addr h + 4) y) (bh_addr h) bs"
    "rcvd_on (tt_fd tr) u = rcvd_on (tt_fd tr) t1 @ bs" "sent_on (tt_fd tr) u = sent_on (tt_fd tr) t1"
    using recv_poll_ok [OF assms(1,3)] by auto
  have "get_int m' (bh_addr h) = int32_val bs"
    using bs(1,2) read_write_same [of bs "put_int (put_int m (bh_addr h) x) (bh_addr h + 4) y" "bh_addr h"]
    by (simp add: get_int_def del: read_mem_numeral)
  with send_poll_ok [OF assms(1,2)] bs read_two_ints [of m "bh_addr h" x y] show ?thesis
    by (auto simp del: read_mem_numeral)
qed

lemma kv_alloc_ok:
  assumes "sock_ok E" and "run_state (kv_alloc E tr h i m) t = ((0, slot, m'), u)"
  shows "\<exists>bs. length bs = 4 \<and> slot = int32_val bs \<and>
    sent_on (tt_fd tr) u = sent_on (tt_fd tr) t @ int32_bytes KV_MSG_ALLOC @ int32_bytes 0 \<and> rcvd_on (tt_fd tr) u = rcvd_on (tt_fd tr) t @ bs"
proof -
  let ?m = "put_int (put_int m (bh_addr h) KV_MSG_ALLOC) (bh_addr h + 4) 0"
  obtain s t1 where s: "run_state (send_poll E tr ?m h 8) t = (s, t1)" by (metis surj_pair)
  obtain r m2 t2 where r: "run_state (recv_poll E tr h 4 ?m) t1 = ((r, m2), t2)" by (metis surj_pair)
  have e: "s = 0" "r = 0" "t2 = u" "slot = get_int m2 (bh_addr h)"
    using assms(2) s r by (auto simp: kv_alloc_def run_simps Let_def split: if_splits)
  with request_ok [OF assms(1)] s r show ?thesis by blast
qed

lemma kv_free_ok:
  assumes "sock_ok E" and "run_state (kv_free E tr h i m) t = ((0, m'), u)"
  shows "\<exists>bs. length bs = 4 \<and> int32_val bs = 0 \<and>
    sent_on (tt_fd tr) u = sent_on (tt_fd tr) t @ int32_bytes KV_MSG_FREE @ int32_bytes i \<and> rcvd_on (tt_fd tr) u = rcvd_on (tt_fd tr) t @ bs"
proof -
  let ?m = "put_int (put_int m (bh_addr h) KV_MSG_FREE) (bh_addr h + 4) i"
  obtain s t1 where s: "run_state (send_poll E tr ?m h 8) t = (s, t1)" by (metis surj_pair)
  obtain r m2 t2 where r: "run_state (recv_poll E tr h 4 ?m) t1 = ((r, m2), t2)" by (metis surj_pair)
  have e: "s = 0" "r = 0" "t2 = u" "get_int m2 (bh_addr h) = 0"
    using assms(2) s r by (auto simp: kv_free_def run_simps Let_def split: if_splits)
  with request_ok [OF assms(1)] s r show ?thesis by metis
qed

lemma small_int32 [simp]:
  "int32_val (int32_bytes KV_MSG_ALLOC) = KV_MSG_ALLOC" "int32_val (int32_bytes KV_MSG_FREE) = KV_MSG_FREE"
  "int32_val (int32_bytes KV_MSG_META) = KV_MSG_META" "int32_val (int32_bytes 0) = 0"
  by (simp_all add: int32_round is_int32_def KV_MSG_ALLOC_def KV_MSG_FREE_def KV_MSG_META_def)

lemma server_handshake_ok:
  assumes "sock_ok E" and "run_state (server_handshake E tr h p m) t = ((0, m'), u)"
  shows "\<exists>pad. length pad = 4 \<and>
    sent_on (tt_fd tr) u = sent_on (tt_fd tr) t @ int32_bytes (kp_num_slots p) @ pad @ u64_bytes (kp_slot_size p)"
proof -
  obtain r m1 t1 where r: "run_state (recv_poll E tr h 4 m) t = ((r, m1), t1)" by (metis surj_pair)
  let ?m = "put_u64 (put_int m1 (bh_addr h) (kp_num_slots p)) (bh_addr h + 8) (kp_slot_size p)"
  obtain s t2 where s: "run_state (send_poll E tr ?m h 16) t1 = (s, t2)" by (metis surj_pair)
  have e: "r = 0" "s = 0" "t2 = u" using assms(2) r s by (auto simp: server_handshake_def run_simps Let_def split: if_splits)
  have "sent_on (tt_fd tr) t1 = sent_on (tt_fd tr) t" using recv_poll_ok [OF assms(1)] r e(1) by blast
  moreover have "sent_on (tt_fd tr) u = sent_on (tt_fd tr) t1 @ read_mem ?m (bh_addr h) (unat (16 :: u64))"
    using send_poll_ok [OF assms(1)] s e by blast
  ultimately show ?thesis using read_meta [of m1 "bh_addr h" "kp_num_slots p" "kp_slot_size p"]
    by (auto simp del: read_mem_numeral)
qed

lemma client_handshake_ok:
  assumes "sock_ok E" and "run_state (client_handshake E tr h x m) t = ((0, remote, m'), u)"
  shows "\<exists>bs. length bs = 16 \<and> remote = (int32_val (take 4 bs), u64_val (drop 8 bs)) \<and>
    rcvd_on (tt_fd tr) u = rcvd_on (tt_fd tr) t @ bs"
proof -
  let ?m = "put_int m (bh_addr h) KV_MSG_META"
  obtain s t1 where s: "run_state (send_poll E tr ?m h 4) t = (s, t1)" by (metis surj_pair)
  obtain r m2 t2 where r: "run_state (recv_poll E tr h 16 ?m) t1 = ((r, m2), t2)" by (metis surj_pair)
  have e: "s = 0" "r = 0" "t2 = u" "remote = (get_int m2 (bh_addr h), get_u64 m2 (bh_addr h + 8))"
    using assms(2) s r by (auto simp: client_handshake_def run_simps Let_def split: if_splits)
  obtain bs where bs: "length bs = 16" "m2 = write_mem ?m (bh_addr h) bs" "rcvd_on (tt_fd tr) t2 = rcvd_on (tt_fd tr) t1 @ bs"
    using recv_poll_ok [OF assms(1)] r e(2) by fastforce
  have "rcvd_on (tt_fd tr) t1 = rcvd_on (tt_fd tr) t" using send_poll_ok [OF assms(1)] s e(1) by blast
  with bs e read_write_window [of 0 4 bs ?m "bh_addr h"] read_write_window [of 8 8 bs ?m "bh_addr h"] show ?thesis
    by (intro exI [of _ bs]) (simp add: get_int_def get_u64_def window_def del: read_mem_numeral)
qed

section \<open>The loop of the server\<close>

text \<open>The pool, the memory and the history after \<open>k\<close> turns.\<close>

fun serves :: "env \<Rightarrow> tcp_transport \<Rightarrow> buffer_handle \<Rightarrow> nat \<Rightarrow> kv_pool \<times> memory \<times> trace \<Rightarrow> kv_pool \<times> memory \<times> trace" where
  "serves E ctrl h 0 x = x"
| "serves E ctrl h (Suc k) (p, m, t) =
     (case run_state (serve_iter E ctrl h p m) t of ((r, p', m'), u) \<Rightarrow> serves E ctrl h k (p', m', u))"

definition turn :: "env \<Rightarrow> tcp_transport \<Rightarrow> buffer_handle \<Rightarrow> kv_pool \<times> memory \<times> trace \<Rightarrow> int option" where
  "turn E ctrl h x = (case x of (p, m, t) \<Rightarrow> fst (fst (run_state (serve_iter E ctrl h p m) t)))"

lemma serve_ends:
  assumes "\<And>j. j < k \<Longrightarrow> turn E ctrl h (serves E ctrl h j (p, m, t)) = None"
    and "turn E ctrl h (serves E ctrl h k (p, m, t)) = Some r"
  shows "serve E ctrl h p m t = (case serves E ctrl h (Suc k) (p, m, t) of (p', m', u) \<Rightarrow> Some ((r, p', m'), u))"
  using assms
proof (induction k arbitrary: p m t)
  case 0
  then show ?case by (subst serve.simps) (auto simp: turn_def split: prod.splits)
next
  case (Suc k)
  obtain q p1 m1 u where q: "run_state (serve_iter E ctrl h p m) t = ((q, p1, m1), u)" by (metis surj_pair)
  then have s: "run_state (serve_iter E ctrl h p m) t = ((None, p1, m1), u)" using Suc.prems(1) [of 0] by (simp add: turn_def)
  have "turn E ctrl h (serves E ctrl h j (p1, m1, u)) = None" if "j < k" for j using Suc.prems(1) [of "Suc j"] that s by simp
  moreover have "turn E ctrl h (serves E ctrl h k (p1, m1, u)) = Some r" using Suc.prems(2) s by simp
  ultimately have "serve E ctrl h p1 m1 u = (case serves E ctrl h (Suc k) (p1, m1, u) of (p', m', u) \<Rightarrow> Some ((r, p', m'), u))"
    by (rule Suc.IH)
  with s show ?case by (subst serve.simps) simp
qed

lemma serve_msg_range:
  assumes "set (kp_free_list p) \<subseteq> {0..<kp_num_slots p}" and "serve_msg p x y = (v, p')"
  shows "kp_num_slots p' = kp_num_slots p \<and> set (kp_free_list p') \<subseteq> {0..<kp_num_slots p}"
  using assms in_set_butlastD [of _ "kp_free_list p"]
  by (auto simp: serve_msg_def pool_alloc_def pool_free_def subset_iff split: if_splits)

lemma serve_iter_range:
  assumes "set (kp_free_list p) \<subseteq> {0..<kp_num_slots p}" and "run_state (serve_iter E ctrl h p m) t = ((r, p', m'), u)"
  shows "kp_num_slots p' = kp_num_slots p \<and> set (kp_free_list p') \<subseteq> {0..<kp_num_slots p}"
proof -
  obtain c m1 v where c: "run_state (recv_poll E ctrl h 8 m) t = ((c, m1), v)" by (metis surj_pair)
  obtain a p1 where a: "serve_msg p (get_int m1 (bh_addr h)) (get_int m1 (bh_addr h + 4)) = (a, p1)" by (metis surj_pair)
  have "p' = p \<or> p' = p1"
    using assms(2) c a by (auto simp: serve_iter_def run_simps Let_def split: if_splits option.splits prod.splits)
  with serve_msg_range [OF assms(1) a] assms(1) show ?thesis by auto
qed

lemma serves_range:
  assumes "set (kp_free_list p) \<subseteq> {0..<kp_num_slots p}" and "serves E ctrl h k (p, m, t) = (p', m', u)"
  shows "kp_num_slots p' = kp_num_slots p \<and> set (kp_free_list p') \<subseteq> {0..<kp_num_slots p}"
  using assms
proof (induction k arbitrary: p m t)
  case (Suc k)
  obtain r p1 m1 v where s: "run_state (serve_iter E ctrl h p m) t = ((r, p1, m1), v)" by (metis surj_pair)
  note n = serve_iter_range [OF Suc.prems(1) s]
  have "serves E ctrl h k (p1, m1, v) = (p', m', u)" using Suc.prems(2) s by simp
  with Suc.IH [of p1 m1 v] n show ?case by simp
qed simp

lemma serve_iter_codes: "fst (fst (run_state (serve_iter E ctrl h p m) t)) = Some r \<Longrightarrow> r = 0 \<or> r = -1"
  by (auto simp: serve_iter_def run_simps Let_def split: if_splits option.splits prod.splits)

section \<open>Concrete runs\<close>

text \<open>A kernel that moves everything at once and delivers the bytes \<open>bs\<close>.\<close>

definition wire :: "byte list \<Rightarrow> env" where
  "wire bs = calm\<lparr>e_data := (\<lambda>t c. case c of Recv fd n \<Rightarrow> take n (bs @ replicate n 0) | _ \<Rightarrow> [])\<rparr>"

lemma wire_ok: "sock_ok (wire bs)"
  by (simp add: sock_ok_def wire_def calm_def) auto

lemma wire_sends:
  assumes "0 < len" and "bh_addr h \<noteq> 0" and "len \<le> bh_size h" and "read_mem m (bh_addr h) (unat len) = xs"
  shows "run_state (send_poll (wire bs) tr m h len) t = (0, (Send (tt_fd tr) xs, int (unat len), []) # t)"
proof -
  have "length xs = unat len" using assms(4) by auto
  moreover have "0 < unat len" using assms(1) by (simp add: unat_gt_0)
  moreover have "e_ret (wire bs) t (Send fd xs) = int (length xs)" "e_data (wire bs) t (Send fd xs) = []" for fd
    by (simp_all add: wire_def calm_def)
  ultimately show ?thesis
    using assms by (simp add: send_poll_def tcp_send_async_def tcp_send_all_def tcp_poll_def run_simps run_send_all send_once)
      (auto simp: not_less)
qed

lemma wire_receives:
  assumes "0 < len" and "bh_addr h \<noteq> 0" and "len \<le> bh_size h" and "length bs = unat len"
  shows "run_state (recv_poll (wire bs) tr h len m) t =
    ((0, write_mem m (bh_addr h) bs), (Recv (tt_fd tr) (unat len), int (unat len), bs) # t)"
proof -
  have "0 < unat len" using assms(1) by (simp add: unat_gt_0)
  moreover have "e_ret (wire bs) t (Recv fd (unat len)) = int (unat len)" "e_data (wire bs) t (Recv fd (unat len)) = bs" for fd
    using assms(4) by (simp_all add: wire_def calm_def)
  ultimately show ?thesis
    using assms by (simp add: recv_poll_def tcp_recv_async_def tcp_recv_all_def tcp_poll_def run_simps run_recv_all recv_once)
      (auto simp: not_less)
qed

definition ctrl_h :: buffer_handle where
  "ctrl_h = \<lparr>bh_addr = 4096, bh_size = 16, bh_priv = None\<rparr>"

definition end_a :: tcp_transport where
  "end_a = \<lparr>tt_fd = 4, tt_listen_fd = 3, tt_is_server = True\<rparr>"

definition end_b :: tcp_transport where
  "end_b = \<lparr>tt_fd = 5, tt_listen_fd = -1, tt_is_server = False\<rparr>"

lemma ends [simp]: "tt_fd end_a = 4" "tt_fd end_b = 5" "bh_addr ctrl_h = 4096" "bh_size ctrl_h = 16"
  by (simp_all add: end_a_def end_b_def ctrl_h_def)

text \<open>A turn of the server, and the client's side of it, as one message each way.\<close>

lemma wire_turn:
  assumes "length bs = 8" and "serve_msg p (int32_val (take 4 bs)) (int32_val (drop 4 bs)) = (Some v, p')"
  shows "\<exists>m'. run_state (serve_iter (wire bs) end_a ctrl_h p m) [] =
    ((None, p', m'), [(Send 4 (int32_bytes v), 4, []), (Recv 4 8, 8, bs)])"
proof -
  let ?m = "write_mem m 4096 bs"
  have "read_mem (put_int ?m 4096 v) 4096 4 = int32_bytes v"
    using read_write_same [of "int32_bytes v" ?m 4096] by (simp add: put_int_def del: read_mem_numeral)
  then have s: "run_state (send_poll (wire bs) end_a (put_int ?m 4096 v) ctrl_h 4) t = (0, (Send 4 (int32_bytes v), 4, []) # t)" for t
    using wire_sends [of 4 ctrl_h "put_int ?m 4096 v" "int32_bytes v" bs end_a t] by (simp del: read_mem_numeral)
  have r: "run_state (recv_poll (wire bs) end_a ctrl_h 8 m) [] = ((0, ?m), [(Recv 4 8, 8, bs)])"
    using wire_receives [of 8 ctrl_h bs end_a m "[]"] assms(1) by simp
  show ?thesis
    using assms(2) get_two_ints [OF assms(1), of m 4096] by (simp add: serve_iter_def run_simps r s Let_def)
qed

lemma wire_request:
  assumes "length cs = 4" and "m1 = put_int (put_int m 4096 x) (4096 + 4) y"
  shows "run_state (send_poll (wire cs) end_b m1 ctrl_h 8) t = (0, (Send 5 (int32_bytes x @ int32_bytes y), 8, []) # t)"
    and "run_state (recv_poll (wire cs) end_b ctrl_h 4 m1) t = ((0, write_mem m1 4096 cs), (Recv 5 4, 4, cs) # t)"
    and "get_int (write_mem m1 4096 cs) 4096 = int32_val cs"
proof -
  have "read_mem m1 4096 8 = int32_bytes x @ int32_bytes y" unfolding assms(2) by (rule read_two_ints)
  then show "run_state (send_poll (wire cs) end_b m1 ctrl_h 8) t = (0, (Send 5 (int32_bytes x @ int32_bytes y), 8, []) # t)"
    using wire_sends [of 8 ctrl_h m1 "int32_bytes x @ int32_bytes y" cs end_b t] by (simp del: read_mem_numeral)
  show "run_state (recv_poll (wire cs) end_b ctrl_h 4 m1) t = ((0, write_mem m1 4096 cs), (Recv 5 4, 4, cs) # t)"
    using wire_receives [of 4 ctrl_h cs end_b m1 t] assms(1) by simp
  show "get_int (write_mem m1 4096 cs) 4096 = int32_val cs"
    using read_write_same [of cs m1 4096] assms(1) by (simp add: get_int_def del: read_mem_numeral)
qed

lemma wire_connected:
  "length xs = nat k \<Longrightarrow> length ys = nat l \<Longrightarrow> 0 < k \<Longrightarrow> 0 < l \<Longrightarrow>
    connected 4 [] [(Send 4 ys, l, []), (Recv 4 a, k, xs)] 5 [] [(Recv 5 b, l, ys), (Send 5 xs, k, [])]"
  by (simp add: connected_def sent_on_def rcvd_on_def)

section \<open>Properties\<close>

text \<open>
  C39. An allocation is served: when the client's \<open>kv_alloc\<close> succeeds and the server's loop made one
  turn over the same connection, the client has exactly the slot the server took from its free
  list, or -1 when there was none.
\<close>

theorem kv_alloc_served:
  assumes "sock_ok Es" and "sock_ok Ec" and "pool_inv p" and "is_int32 (kp_num_slots p)"
    and "run_state (serve_iter Es trs hs p ms) ts = ((None, p', ms'), us)"
    and "run_state (kv_alloc Ec trc hc i mc) tc = ((0, slot, mc'), uc)"
    and "connected (tt_fd trs) ts us (tt_fd trc) tc uc"
  shows "(slot, p') = pool_alloc p"
proof -
  obtain bs v where s: "length bs = 8" "serve_msg p (int32_val (take 4 bs)) (int32_val (drop 4 bs)) = (Some v, p')"
    "rcvd_on (tt_fd trs) us = rcvd_on (tt_fd trs) ts @ bs" "sent_on (tt_fd trs) us = sent_on (tt_fd trs) ts @ int32_bytes v"
    using serve_iter_ok [OF assms(1,5)] by blast
  obtain cs where c: "slot = int32_val cs" "sent_on (tt_fd trc) uc = sent_on (tt_fd trc) tc @ int32_bytes KV_MSG_ALLOC @ int32_bytes 0"
    "rcvd_on (tt_fd trc) uc = rcvd_on (tt_fd trc) tc @ cs"
    using kv_alloc_ok [OF assms(2,6)] by blast
  have w: "bs = int32_bytes KV_MSG_ALLOC @ int32_bytes 0" "cs = int32_bytes v"
    using assms(7) s(3,4) c(2,3) by (auto simp: connected_def)
  then have a: "v = fst (pool_alloc p)" "p' = snd (pool_alloc p)" using s(2) by (simp_all add: serve_msg_alloc)
  have "v = -1 \<or> 0 \<le> v \<and> v < kp_num_slots p"
    using assms(3) a(1) last_in_set [of "kp_free_list p"] unfolding pool_alloc_def pool_inv_def
    by (cases "kp_free_list p = []") (simp_all add: subset_iff)
  then have "is_int32 v" using assms(4) by (auto simp: is_int32_def)
  then show ?thesis using a w c(1) by (simp add: int32_round)
qed

theorem kv_alloc_served_witness:
  "\<exists>p' m' u. run_state (kv_alloc (wire (int32_bytes 1)) end_b ctrl_h 7 (\<lambda>_. 0)) [] = ((0, 1, m'), u) \<and>
     (1, p') = pool_alloc (pool2\<lparr>kp_free_list := [0, 1]\<rparr>)"
proof -
  let ?p = "pool2\<lparr>kp_free_list := [0, 1]\<rparr>" and ?x = "int32_bytes KV_MSG_ALLOC @ int32_bytes 0"
  have i: "pool_inv ?p" "is_int32 (kp_num_slots ?p)" by (simp_all add: pool_inv_def pool2_def is_int32_def)
  have "serve_msg ?p (int32_val (take 4 ?x)) (int32_val (drop 4 ?x)) = (Some 1, ?p\<lparr>kp_free_list := [0]\<rparr>)"
    by (simp add: serve_msg_alloc pool_alloc_def)
  then obtain m' where s: "run_state (serve_iter (wire ?x) end_a ctrl_h ?p (\<lambda>_. 0)) [] =
      ((None, ?p\<lparr>kp_free_list := [0]\<rparr>, m'), [(Send 4 (int32_bytes 1), 4, []), (Recv 4 8, 8, ?x)])"
    using wire_turn [of ?x ?p 1] by auto
  have c: "\<exists>m'. run_state (kv_alloc (wire (int32_bytes 1)) end_b ctrl_h 7 (\<lambda>_. 0)) [] =
      ((0, 1, m'), [(Recv 5 4, 4, int32_bytes 1), (Send 5 ?x, 8, [])])"
    using wire_request [of "int32_bytes 1" _ "\<lambda>_. 0" KV_MSG_ALLOC 0]
    by (simp add: kv_alloc_def run_simps Let_def int32_round is_int32_def)
  then obtain m2 where c: "run_state (kv_alloc (wire (int32_bytes 1)) end_b ctrl_h 7 (\<lambda>_. 0)) [] =
      ((0, 1, m2), [(Recv 5 4, 4, int32_bytes 1), (Send 5 ?x, 8, [])])" by blast
  have n: "connected (tt_fd end_a) [] [(Send 4 (int32_bytes 1), 4, []), (Recv 4 8, 8, ?x)]
      (tt_fd end_b) [] [(Recv 5 4, 4, int32_bytes 1), (Send 5 ?x, 8, [])]"
    using wire_connected [of ?x 8 "int32_bytes 1" 4] by simp
  from kv_alloc_served [OF wire_ok wire_ok i s c n] c show ?thesis by blast
qed

text \<open>
  C37. A free is served: when the client's \<open>kv_free\<close> succeeds and the server's loop made one turn over
  the same connection, the slot was one of the pool and is on the server's free list again.
\<close>

theorem kv_free_served:
  assumes "sock_ok Es" and "sock_ok Ec" and "is_int32 i"
    and "run_state (serve_iter Es trs hs p ms) ts = ((None, p', ms'), us)"
    and "run_state (kv_free Ec trc hc i mc) tc = ((0, mc'), uc)"
    and "connected (tt_fd trs) ts us (tt_fd trc) tc uc"
  shows "0 \<le> i \<and> i < kp_num_slots p \<and> p' = pool_free i p"
proof -
  obtain bs v where s: "length bs = 8" "serve_msg p (int32_val (take 4 bs)) (int32_val (drop 4 bs)) = (Some v, p')"
    "rcvd_on (tt_fd trs) us = rcvd_on (tt_fd trs) ts @ bs"
    using serve_iter_ok [OF assms(1,4)] by blast
  obtain cs where c: "sent_on (tt_fd trc) uc = sent_on (tt_fd trc) tc @ int32_bytes KV_MSG_FREE @ int32_bytes i"
    using kv_free_ok [OF assms(2,5)] by blast
  have "bs = int32_bytes KV_MSG_FREE @ int32_bytes i" using assms(6) s(3) c by (auto simp: connected_def)
  then show ?thesis using s(2) assms(3) by (simp add: serve_msg_free int32_round pool_slots_def split: if_splits)
qed


theorem kv_free_served_witness:
  "\<exists>p' m' u. run_state (serve_iter (wire (int32_bytes KV_MSG_FREE @ int32_bytes 1)) end_a ctrl_h (pool2\<lparr>kp_free_list := [0]\<rparr>) (\<lambda>_. 0)) [] =
     ((None, p', m'), u) \<and> p' = pool_free 1 (pool2\<lparr>kp_free_list := [0]\<rparr>)"
proof -
  let ?p = "pool2\<lparr>kp_free_list := [0]\<rparr>" and ?x = "int32_bytes KV_MSG_FREE @ int32_bytes 1"
  have one: "is_int32 1" by (simp add: is_int32_def)
  have "serve_msg ?p (int32_val (take 4 ?x)) (int32_val (drop 4 ?x)) = (Some 0, pool_free 1 ?p)"
    using one by (simp add: serve_msg_free pool_slots_def pool2_def int32_round)
  then obtain m' where s: "run_state (serve_iter (wire ?x) end_a ctrl_h ?p (\<lambda>_. 0)) [] =
      ((None, pool_free 1 ?p, m'), [(Send 4 (int32_bytes 0), 4, []), (Recv 4 8, 8, ?x)])"
    using wire_turn [of ?x ?p 0] by auto
  have "\<exists>m'. run_state (kv_free (wire (int32_bytes 0)) end_b ctrl_h 1 (\<lambda>_. 0)) [] =
      ((0, m'), [(Recv 5 4, 4, int32_bytes 0), (Send 5 ?x, 8, [])])"
    using wire_request [of "int32_bytes 0" _ "\<lambda>_. 0" KV_MSG_FREE 1]
    by (simp add: kv_free_def run_simps Let_def)
  then obtain m2 where c: "run_state (kv_free (wire (int32_bytes 0)) end_b ctrl_h 1 (\<lambda>_. 0)) [] =
      ((0, m2), [(Recv 5 4, 4, int32_bytes 0), (Send 5 ?x, 8, [])])" by blast
  have n: "connected (tt_fd end_a) [] [(Send 4 (int32_bytes 0), 4, []), (Recv 4 8, 8, ?x)]
      (tt_fd end_b) [] [(Recv 5 4, 4, int32_bytes 0), (Send 5 ?x, 8, [])]"
    using wire_connected [of ?x 8 "int32_bytes 0" 4] by simp
  from kv_free_served [OF wire_ok wire_ok one s c n] s show ?thesis by blast
qed

text \<open>
  C40. The handshake tells the client the shape of the pool: when both ends of it succeed over one
  connection, the client has the server's number of slots and slot size.
\<close>

theorem kv_handshake:
  assumes "sock_ok Es" and "sock_ok Ec" and "is_int32 (kp_num_slots p)"
    and "run_state (server_handshake Es trs hs p ms) ts = ((0, ms'), us)"
    and "run_state (client_handshake Ec trc hc x mc) tc = ((0, remote, mc'), uc)"
    and "connected (tt_fd trs) ts us (tt_fd trc) tc uc"
  shows "remote = (kp_num_slots p, kp_slot_size p)"
proof -
  obtain pad where s: "length pad = 4"
    "sent_on (tt_fd trs) us = sent_on (tt_fd trs) ts @ int32_bytes (kp_num_slots p) @ pad @ u64_bytes (kp_slot_size p)"
    using server_handshake_ok [OF assms(1,4)] by blast
  obtain bs where c: "length bs = 16" "remote = (int32_val (take 4 bs), u64_val (drop 8 bs))"
    "rcvd_on (tt_fd trc) uc = rcvd_on (tt_fd trc) tc @ bs"
    using client_handshake_ok [OF assms(2,5)] by blast
  have "bs = int32_bytes (kp_num_slots p) @ pad @ u64_bytes (kp_slot_size p)"
    using assms(6) s(2) c(3) by (auto simp: connected_def)
  then show ?thesis using c(2) s(1) assms(3) by (simp add: int32_round)
qed

theorem kv_handshake_witness:
  "\<exists>xs m' u. run_state (client_handshake (wire xs) end_b ctrl_h (0, 0) (\<lambda>_. 0)) [] = ((0, (2, 16), m'), u)"
proof -
  let ?x = "int32_bytes KV_MSG_META" and ?m0 = "put_int (\<lambda>_. 0) 4096 KV_MSG_META"
  let ?m1 = "write_mem (\<lambda>_. 0) 4096 ?x"
  obtain xs where xs: "read_mem (put_u64 (put_int ?m1 4096 2) (4096 + 8) 16) 4096 16 = xs" by blast
  have l: "length xs = 16" using xs [symmetric] by simp
  have p: "kp_num_slots pool2 = 2" "kp_slot_size pool2 = 16" by (simp_all add: pool2_def)
  have g: "get_int ?m1 4096 = KV_MSG_META"
    using get_put_int [of KV_MSG_META "\<lambda>_. 0" 4096] by (simp add: put_int_def is_int32_def KV_MSG_META_def)
  have "\<exists>m'. run_state (server_handshake (wire ?x) end_a ctrl_h pool2 (\<lambda>_. 0)) [] =
      ((0, m'), [(Send 4 xs, 16, []), (Recv 4 4, 4, ?x)])"
    using wire_receives [of 4 ctrl_h ?x end_a "\<lambda>_. 0" "[]"]
      wire_sends [of 16 ctrl_h "put_u64 (put_int ?m1 4096 2) (4096 + 8) 16" xs ?x end_a "[(Recv 4 4, 4, ?x)]"] xs g
    by (simp add: server_handshake_def run_simps Let_def p del: read_mem_numeral)
  then obtain m' where s: "run_state (server_handshake (wire ?x) end_a ctrl_h pool2 (\<lambda>_. 0)) [] =
      ((0, m'), [(Send 4 xs, 16, []), (Recv 4 4, 4, ?x)])" by blast
  have "read_mem ?m0 4096 4 = ?x" using read_write_same [of ?x "\<lambda>_. 0" 4096] by (simp add: put_int_def del: read_mem_numeral)
  then have "\<exists>remote m'. run_state (client_handshake (wire xs) end_b ctrl_h (0, 0) (\<lambda>_. 0)) [] =
      ((0, remote, m'), [(Recv 5 16, 16, xs), (Send 5 ?x, 4, [])])"
    using wire_receives [of 16 ctrl_h xs end_b ?m0 "[(Send 5 ?x, 4, [])]"] wire_sends [of 4 ctrl_h ?m0 ?x xs end_b "[]"] l
    by (simp add: client_handshake_def run_simps Let_def del: read_mem_numeral)
  then obtain remote m2 where c: "run_state (client_handshake (wire xs) end_b ctrl_h (0, 0) (\<lambda>_. 0)) [] =
      ((0, remote, m2), [(Recv 5 16, 16, xs), (Send 5 ?x, 4, [])])" by blast
  have n: "connected (tt_fd end_a) [] [(Send 4 xs, 16, []), (Recv 4 4, 4, ?x)] (tt_fd end_b) [] [(Recv 5 16, 16, xs), (Send 5 ?x, 4, [])]"
    using wire_connected [of ?x 4 xs 16] l by simp
  have "is_int32 (kp_num_slots pool2)" by (simp add: pool2_def is_int32_def)
  from kv_handshake [OF wire_ok wire_ok this s c n] c p show ?thesis by auto
qed

text \<open>
  The server's loop returns as soon as a turn ends it, with 0 where the client is gone and -1
  after an invalid request or a failed reply; and whatever the client sent until then, valid or
  not, the free list holds only slots of the pool, so every index handed out is one, or -1.
\<close>

theorem kv_serve_returns:
  assumes "set (kp_free_list p) \<subseteq> {0..<kp_num_slots p}"
    and "\<And>j. j < k \<Longrightarrow> turn E ctrl h (serves E ctrl h j (p, m, t)) = None"
    and "turn E ctrl h (serves E ctrl h k (p, m, t)) = Some r"
  shows "\<exists>p' m' u. serve E ctrl h p m t = Some ((r, p', m'), u) \<and> (r = 0 \<or> r = -1) \<and>
    kp_num_slots p' = kp_num_slots p \<and> set (kp_free_list p') \<subseteq> {0..<kp_num_slots p}"
proof -
  obtain p' m' u where s: "serves E ctrl h (Suc k) (p, m, t) = (p', m', u)" by (metis surj_pair)
  have "serve E ctrl h p m t = Some ((r, p', m'), u)" using serve_ends [OF assms(2,3)] s by simp
  moreover have "r = 0 \<or> r = -1" using assms(3) by (auto simp: turn_def dest: serve_iter_codes split: prod.splits)
  moreover have "kp_num_slots p' = kp_num_slots p \<and> set (kp_free_list p') \<subseteq> {0..<kp_num_slots p}"
    by (rule serves_range [OF assms(1) s])
  ultimately show ?thesis by blast
qed

theorem kv_serve_returns_witness:
  "\<exists>p' m' u. serve (calm\<lparr>e_ret := (\<lambda>t c. 0)\<rparr>) end_a ctrl_h (pool2\<lparr>kp_free_list := [0, 1]\<rparr>) (\<lambda>_. 0) [] = Some ((0, p', m'), u) \<and>
     set (kp_free_list p') \<subseteq> {0..<2}"
proof -
  let ?E = "calm\<lparr>e_ret := (\<lambda>t c. 0)\<rparr>" and ?p = "pool2\<lparr>kp_free_list := [0, 1]\<rparr>"
  have "turn ?E end_a ctrl_h (serves ?E end_a ctrl_h 0 (?p, \<lambda>_. 0, [])) = Some 0"
    by (simp add: turn_def serve_iter_def recv_poll_def tcp_recv_async_def tcp_recv_all_def run_simps run_recv_all
        recv_loop.simps Let_def)
  moreover have "set (kp_free_list ?p) \<subseteq> {0..<kp_num_slots ?p}" "kp_num_slots ?p = 2" by (simp_all add: pool2_def)
  ultimately show ?thesis using kv_serve_returns [of ?p 0 ?E end_a ctrl_h "\<lambda>_. 0" "[]" 0] by auto
qed

end
