(* ===== verification/Kv_Main.thy ===== *)
theory Kv_Main
  imports Kv_Server World Args Bench_Stats Frames
begin

text \<open>
  The two programs of phase4_kv_cache, from \<open>main\<close> to \<open>return\<close>: kv_server.cpp and kv_bench.cpp. A
  return out of the scope runs the destructors of what has been constructed, in reverse order;
  objects that have not been constructed yet start out holding nothing here, and destroying them
  makes no call, so every exit runs the same destructors. An exception (a vector that cannot be
  allocated) is a failure that leaves the scope.
\<close>

section \<open>Definitions\<close>

subsection \<open>The server's command line\<close>

record kv_config =
  kc_port :: int
  kc_num_slots :: int
  kc_slot_size :: u64

text \<open>The arguments after the program's name. \<open>slot_size\<close> is a \<open>size_t\<close>.\<close>

definition kv_config_parse :: "string list \<Rightarrow> kv_config \<Rightarrow> int \<times> kv_config" where
  "kv_config_parse args cfg =
     (if length args < 3 then (-1, cfg)
      else let cfg' = cfg\<lparr>kc_port := atoi (args ! 0), kc_num_slots := atoi (args ! 1), kc_slot_size := word_of_int (atoi (args ! 2))\<rparr>
           in if kc_num_slots cfg' \<le> 0 \<or> kc_slot_size cfg' = 0 then (-1, cfg') else (0, cfg'))"

subsection \<open>The client's command line\<close>

record kb_config =
  kb_server_ip :: string
  kb_port :: int
  kb_iters :: int
  kb_depth :: int
  kb_csv :: bool

definition kb_config_init :: kb_config where
  "kb_config_init = \<lparr>kb_server_ip = [], kb_port = 12345, kb_iters = 1000, kb_depth = 1, kb_csv = False\<rparr>"

fun kb_options :: "string list \<Rightarrow> kb_config \<Rightarrow> int \<times> kb_config" where
  "kb_options [] cfg = (0, cfg)"
| "kb_options (opt # rest) cfg =
     (if opt = ''--iters'' then
        (case rest of [] \<Rightarrow> (-1, cfg) | val # rest' \<Rightarrow> kb_options rest' (cfg\<lparr>kb_iters := atoi val\<rparr>))
      else if opt = ''--depth'' then
        (case rest of [] \<Rightarrow> (-1, cfg)
         | val # rest' \<Rightarrow> if atoi val < 1 then (-1, cfg\<lparr>kb_depth := atoi val\<rparr>) else kb_options rest' (cfg\<lparr>kb_depth := atoi val\<rparr>))
      else if opt = ''--csv'' then kb_options rest (cfg\<lparr>kb_csv := True\<rparr>)
      else kb_options rest cfg)"

definition kb_config_parse :: "string list \<Rightarrow> kb_config \<Rightarrow> int \<times> kb_config" where
  "kb_config_parse args cfg =
     (case args of ip # port # rest \<Rightarrow> kb_options rest (cfg\<lparr>kb_server_ip := ip, kb_port := atoi port\<rparr>) | _ \<Rightarrow> (-1, cfg))"

subsection \<open>Variables\<close>

record kv_remote =
  kr_base_addr :: u64
  kr_rkey :: u32
  kr_slot_size :: u64
  kr_num_slots :: int

text \<open>
  \<open>k_mem\<close> is the memory of the process, of which the programs use \<open>ctrl_buf\<close>; \<open>k_block\<close> is the block of
  the pool's vector (server) or of the aligned buffer (client).
\<close>

record kv_vars =
  k_ctrl :: tcp_transport
  k_data :: rdma_transport
  k_ctrl_h :: buffer_handle
  k_sb :: scoped_buffer
  k_mem :: memory
  k_block :: "u64 option"
  k_pool :: kv_pool
  k_remote :: kv_remote
  k_slot :: int
  k_start :: u64
  k_bw_start :: u64
  k_samples :: "u64 list"
  k_reports :: "(lat_stats \<times> u64 \<times> u64) list"    \<comment> \<open>latencies, bytes, time\<close>

definition kv_vars_init :: "memory \<Rightarrow> kv_vars" where
  "kv_vars_init m = \<lparr>k_ctrl = tcp_new, k_data = rdma_new, k_ctrl_h = bh_zero, k_sb = scoped_buffer_new, k_mem = m, k_block = None,
     k_pool = \<lparr>kp_data = 0, kp_bytes = 0, kp_slot_size = 0, kp_num_slots = 0, kp_free_list = []\<rparr>,
     k_remote = \<lparr>kr_base_addr = 0, kr_rkey = 0, kr_slot_size = 0, kr_num_slots = 0\<rparr>,
     k_slot = 0, k_start = 0, k_bw_start = 0, k_samples = [], k_reports = []\<rparr>"

subsection \<open>Calls\<close>

definition k_ctrl_op :: "env \<Rightarrow> session_op \<Rightarrow> kv_vars stmt" where
  "k_ctrl_op E op = run_stmt (\<lambda>v. do { (r, c) \<leftarrow> tcp_op E op (k_ctrl v); ret (r, v\<lparr>k_ctrl := c\<rparr>) })"

definition k_data_op :: "env \<Rightarrow> session_op \<Rightarrow> kv_vars stmt" where
  "k_data_op E op = run_stmt (\<lambda>v. do { (r, d) \<leftarrow> rdma_op E op (k_data v); ret (r, v\<lparr>k_data := d\<rparr>) })"

text \<open>\<open>ctrl_sb.init(ctrl.get(), &ctrl_buf, sizeof(ctrl_buf))\<close>, with \<open>ctrl_buf\<close> at the address \<open>a\<close>.\<close>

definition k_ctrl_init :: "u64 \<Rightarrow> kv_vars stmt" where
  "k_ctrl_init a = run_stmt (\<lambda>v. case tcp_reg_buf a 16 (Some (k_ctrl_h v)) of (r, h) \<Rightarrow> ret (r, v\<lparr>k_ctrl_h := the h\<rparr>))"

definition k_server_handshake :: "env \<Rightarrow> kv_vars stmt" where
  "k_server_handshake E = run_stmt (\<lambda>v. do {
     (r, m) \<leftarrow> server_handshake E (k_ctrl v) (k_ctrl_h v) (k_pool v) (k_mem v);
     ret (r, v\<lparr>k_mem := m\<rparr>) })"

text \<open>\<open>pool.mem.resize(...)\<close>, which throws where there is no memory, and the free list.\<close>

definition k_pool_fill :: "env \<Rightarrow> kv_vars stmt" where
  "k_pool_fill E = run_stmt (\<lambda>v.
     let n = word_of_int (kp_num_slots (k_pool v)) * kp_slot_size (k_pool v)
     in if n = 0 then ret (0, v\<lparr>k_pool := pool_fill 0 (k_pool v)\<rparr>)
        else do {
          p \<leftarrow> exec_call E (Malloc n);
          if p = 0 then ret (-1, v)
          else ret (0, v\<lparr>k_block := Some (word_of_int p), k_pool := pool_fill (word_of_int p) (k_pool v)\<rparr>) })"

definition k_sb_init :: "env \<Rightarrow> (kv_vars \<Rightarrow> u64) \<Rightarrow> (kv_vars \<Rightarrow> u64) \<Rightarrow> kv_vars stmt" where
  "k_sb_init E addr len = run_stmt (\<lambda>v. do {
     (r, b) \<leftarrow> scoped_buffer_init E (k_sb v) (k_data v) (addr v) (len v);
     ret (r, v\<lparr>k_sb := b\<rparr>) })"

definition k_exchange :: "env \<Rightarrow> kv_vars stmt" where
  "k_exchange E = run_stmt (\<lambda>v. do {
     (r, d, a, k) \<leftarrow> rdma_exchange_buf E (k_data v) (Some (sb_h (k_sb v))) (Some (kr_base_addr (k_remote v))) (Some (kr_rkey (k_remote v)));
     ret (r, v\<lparr>k_data := d, k_remote := (k_remote v)\<lparr>kr_base_addr := the a, kr_rkey := the k\<rparr>\<rparr>) })"

definition k_serve :: "env \<Rightarrow> kv_vars stmt" where
  "k_serve E v t = (case serve E (k_ctrl v) (k_ctrl_h v) (k_pool v) (k_mem v) t of None \<Rightarrow> None
     | Some ((r, p, m), u) \<Rightarrow> Some ((r, v\<lparr>k_pool := p, k_mem := m\<rparr>), u))"

text \<open>The destructors of the scope, and then what was declared before it.\<close>

definition k_free_block :: "env \<Rightarrow> kv_vars \<Rightarrow> (trace, unit) state" where
  "k_free_block E v = (case k_block v of None \<Rightarrow> ret () | Some p \<Rightarrow> do { _ \<leftarrow> exec_call E (Free p); ret () })"

definition server_out :: "env \<Rightarrow> kv_vars \<Rightarrow> (trace, unit) state" where
  "server_out E v = do {
     _ \<leftarrow> scoped_buffer_destroy E (k_sb v);
     let h = tcp_dereg_buf (Some (k_ctrl_h v));
     _ \<leftarrow> rdma_close E (k_data v);
     _ \<leftarrow> tcp_close E (k_ctrl v);
     k_free_block E v }"

definition client_out :: "env \<Rightarrow> kv_vars \<Rightarrow> (trace, unit) state" where
  "client_out E v = do {
     _ \<leftarrow> scoped_buffer_destroy E (k_sb v);
     _ \<leftarrow> k_free_block E v;
     let h = tcp_dereg_buf (Some (k_ctrl_h v));
     _ \<leftarrow> rdma_close E (k_data v);
     _ \<leftarrow> tcp_close E (k_ctrl v);
     ret () }"

subsection \<open>kv_server\<close>

definition kv_server_body :: "env \<Rightarrow> u64 \<Rightarrow> kv_config \<Rightarrow> kv_vars stmt" where
  "kv_server_body E a cfg = block [
     set_vars (\<lambda>v. v\<lparr>k_pool := (k_pool v)\<lparr>kp_slot_size := kc_slot_size cfg, kp_num_slots := kc_num_slots cfg\<rparr>\<rparr>),
     k_ctrl_op E (Op_listen (kc_port cfg)),
     k_data_op E (Op_listen (kc_port cfg + 2)),
     k_ctrl_op E Op_accept,
     k_data_op E Op_accept,
     k_ctrl_init a,
     k_server_handshake E,
     k_pool_fill E,
     k_sb_init E (\<lambda>v. kp_data (k_pool v)) (\<lambda>v. kp_bytes (k_pool v)),
     k_exchange E,
     k_serve E]"

definition kv_server :: "env \<Rightarrow> u64 \<Rightarrow> memory \<Rightarrow> string list \<Rightarrow> trace \<Rightarrow> ((int \<times> kv_vars) \<times> trace) option" where
  "kv_server E a m args t =
     (case kv_config_parse args \<lparr>kc_port = 12345, kc_num_slots = 0, kc_slot_size = 0\<rparr> of (r, cfg) \<Rightarrow>
        if r \<noteq> 0 then Some ((1, kv_vars_init m), t)
        else (case kv_server_body E a cfg (kv_vars_init m) t of None \<Rightarrow> None
          | Some ((x, v), u) \<Rightarrow> Some ((if x \<noteq> 0 then 1 else 0, v), snd (run_state (server_out E v) u))))"

subsection \<open>The measuring loop of kv_bench\<close>

definition k_poll :: "env \<Rightarrow> kv_vars stmt" where
  "k_poll E v t = (case rdma_poll E (k_data v) None t of None \<Rightarrow> None | Some ((r, x), u) \<Rightarrow> Some ((r, v), u))"

text \<open>One batch: \<open>n\<close> operations from number \<open>i\<close> on are posted, then polled, then timed together.\<close>

definition bench_batch :: "env \<Rightarrow> (int \<Rightarrow> kv_vars stmt) \<Rightarrow> int \<Rightarrow> int \<Rightarrow> kv_vars stmt" where
  "bench_batch E op n i = block [
     do_clock E (\<lambda>now v. v\<lparr>k_start := now, k_bw_start := (if kWarmup \<le> i \<and> k_bw_start v = 0 then now else k_bw_start v)\<rparr>),
     for_each (\<lambda>k. op (i + k)) [0..n - 1],
     for_each (\<lambda>k. k_poll E) [0..n - 1],
     do_clock E (\<lambda>now v. v\<lparr>k_samples := fold (\<lambda>k xs. if kWarmup \<le> i + k
        then xs[nat (i + k - kWarmup) := time_elapsed_ns (k_start v) now div word_of_int n] else xs) [0..n - 1] (k_samples v)\<rparr>)]"

text \<open>The loop over the batches; its counter and its differences are of type \<open>int\<close>.\<close>

partial_function (option) bench_loop ::
    "env \<Rightarrow> (int \<Rightarrow> kv_vars stmt) \<Rightarrow> int \<Rightarrow> int \<Rightarrow> int \<Rightarrow> kv_vars \<Rightarrow> trace \<Rightarrow> ((int \<times> kv_vars) \<times> trace) option" where
  "bench_loop E op depth tot i v t =
     (if i < tot
      then (case bench_batch E op (min depth (c_int (tot - i))) i v t of None \<Rightarrow> None
        | Some ((r, v'), u) \<Rightarrow> if r \<noteq> 0 then Some ((r, v'), u) else bench_loop E op depth tot (c_int (i + depth)) v' u)
      else Some ((0, v), t))"

text \<open>\<open>run_bench\<close>; a vector of a negative size throws.\<close>

definition run_bench :: "env \<Rightarrow> (int \<Rightarrow> kv_vars stmt) \<Rightarrow> (kv_vars \<Rightarrow> u64) \<Rightarrow> int \<Rightarrow> int \<Rightarrow> kv_vars stmt" where
  "run_bench E op slot_size iters depth =
     (if iters < 0 then (\<lambda>v t. Some ((-1, v), t))
      else block [
        set_vars (\<lambda>v. v\<lparr>k_samples := replicate (nat iters) 0, k_bw_start := 0\<rparr>),
        bench_loop E op depth (c_int (kWarmup + iters)) 0,
        do_clock E (\<lambda>now v. v\<lparr>k_reports := k_reports v @
          [(latency_stats (sort (k_samples v)) iters, word_of_int iters * slot_size v, time_elapsed_ns (k_bw_start v) now)]\<rparr>)])"

subsection \<open>kv_bench\<close>

definition k_client_handshake :: "env \<Rightarrow> kv_vars stmt" where
  "k_client_handshake E = run_stmt (\<lambda>v. do {
     (r, s, m) \<leftarrow> client_handshake E (k_ctrl v) (k_ctrl_h v) (kr_num_slots (k_remote v), kr_slot_size (k_remote v)) (k_mem v);
     ret (r, v\<lparr>k_remote := (k_remote v)\<lparr>kr_num_slots := fst s, kr_slot_size := snd s\<rparr>, k_mem := m\<rparr>) })"

text \<open>\<open>AlignedBuf::init\<close>\<close>

definition k_aligned_init :: "env \<Rightarrow> kv_vars stmt" where
  "k_aligned_init E = run_stmt (\<lambda>v. do {
     ps \<leftarrow> exec_call E Sysconf_pagesize;
     r \<leftarrow> exec_call E (Posix_memalign (if ps \<le> 0 then 4096 else ps) (kr_slot_size (k_remote v)));
     if r \<noteq> 0 then ret (-1, v)
     else do {
       p \<leftarrow> look (e_memory E);
       _ \<leftarrow> exec_call E (Memset p 0 (kr_slot_size (k_remote v)));
       ret (0, v\<lparr>k_block := Some p\<rparr>) } })"

definition k_alloc :: "env \<Rightarrow> kv_vars stmt" where
  "k_alloc E = run_stmt (\<lambda>v. do {
     (r, i, m) \<leftarrow> kv_alloc E (k_ctrl v) (k_ctrl_h v) (k_slot v) (k_mem v);
     ret (r, v\<lparr>k_slot := i, k_mem := m\<rparr>) })"

definition k_slot_check :: "kv_vars stmt" where
  "k_slot_check v t = Some ((if k_slot v < 0 \<or> kr_num_slots (k_remote v) \<le> k_slot v then -1 else 0, v), t)"

definition k_free :: "env \<Rightarrow> kv_vars stmt" where
  "k_free E = run_stmt (\<lambda>v. do {
     (r, m) \<leftarrow> kv_free E (k_ctrl v) (k_ctrl_h v) (k_slot v) (k_mem v);
     ret (r, v\<lparr>k_mem := m\<rparr>) })"

definition remote_addr :: "kv_vars \<Rightarrow> u64" where
  "remote_addr v = slot_addr (kr_base_addr (k_remote v)) (kr_slot_size (k_remote v)) (k_slot v)"

definition k_write :: "env \<Rightarrow> u64 \<Rightarrow> kv_vars stmt" where
  "k_write E i = do_call (\<lambda>v. rdma_write_async E (k_data v) (Some (sb_h (k_sb v))) (remote_addr v) (kr_rkey (k_remote v))
     (kr_slot_size (k_remote v)) i 0)"

definition k_read :: "env \<Rightarrow> u64 \<Rightarrow> kv_vars stmt" where
  "k_read E i = do_call (\<lambda>v. rdma_read_async E (k_data v) (Some (sb_h (k_sb v))) (remote_addr v) (kr_rkey (k_remote v))
     (kr_slot_size (k_remote v)) i 0)"

text \<open>The check of the data path: a pattern goes out, the buffer is cleared, and it has to come back.\<close>

definition pattern_byte :: "nat \<Rightarrow> byte" where
  "pattern_byte i = word_of_nat (i * 31 + 7)"

definition over_slot :: "(nat \<Rightarrow> kv_vars stmt) \<Rightarrow> kv_vars stmt" where
  "over_slot f v = for_each f [0..<unat (kr_slot_size (k_remote v))] v"

definition k_data_check :: "env \<Rightarrow> kv_vars stmt" where
  "k_data_check E = block [
     over_slot (\<lambda>i. do_event E (\<lambda>v. Store (the (k_block v) + word_of_nat i) [pattern_byte i])),
     k_write E 0,
     k_poll E,
     do_event E (\<lambda>v. Memset (the (k_block v)) 0 (kr_slot_size (k_remote v))),
     k_read E 0,
     k_poll E,
     over_slot (\<lambda>i. do_call (\<lambda>v. do {
       n \<leftarrow> exec_call E (Load (the (k_block v) + word_of_nat i));
       ret (if word_of_int n \<noteq> pattern_byte i then -1 else 0) }))]"

definition kv_bench_body :: "env \<Rightarrow> u64 \<Rightarrow> kb_config \<Rightarrow> kv_vars stmt" where
  "kv_bench_body E a cfg = block [
     k_ctrl_op E (Op_connect (Some (kb_server_ip cfg)) (kb_port cfg)),
     k_data_op E (Op_connect (Some (kb_server_ip cfg)) (kb_port cfg + 2)),
     k_ctrl_init a,
     k_client_handshake E,
     k_aligned_init E,
     k_sb_init E (\<lambda>v. the (k_block v)) (\<lambda>v. kr_slot_size (k_remote v)),
     k_exchange E,
     k_alloc E,
     k_slot_check,
     k_data_check E,
     run_bench E (\<lambda>i. k_write E (word_of_int i)) (\<lambda>v. kr_slot_size (k_remote v)) (kb_iters cfg) (kb_depth cfg),
     run_bench E (\<lambda>i. k_read E (word_of_int i)) (\<lambda>v. kr_slot_size (k_remote v)) (kb_iters cfg) (kb_depth cfg),
     k_free E]"

definition kv_bench :: "env \<Rightarrow> u64 \<Rightarrow> memory \<Rightarrow> string list \<Rightarrow> trace \<Rightarrow> ((int \<times> kv_vars) \<times> trace) option" where
  "kv_bench E a m args t =
     (if args = [''--csv-header''] then Some ((0, kv_vars_init m), t)
      else case kb_config_parse args kb_config_init of (r, cfg) \<Rightarrow>
        if r \<noteq> 0 then Some ((1, kv_vars_init m), t)
        else (case kv_bench_body E a cfg (kv_vars_init m) t of None \<Rightarrow> None
          | Some ((x, v), u) \<Rightarrow> Some ((if x \<noteq> 0 then 1 else 0, v), snd (run_state (client_out E v) u))))"

section \<open>Nothing stays behind\<close>

text \<open>
  The variables hold exactly what was acquired, the data transport is whole, and the three variables
  that an acquisition would overwrite satisfy \<open>Q\<close>.
\<close>

definition kv_at ::
    "env \<Rightarrow> res multiset \<Rightarrow> (tcp_transport \<Rightarrow> scoped_buffer \<Rightarrow> u64 option \<Rightarrow> bool) \<Rightarrow> kv_vars \<Rightarrow> trace \<Rightarrow> bool" where
  "kv_at E M Q v t \<longleftrightarrow> rdma_env_ok E t \<and> rdma_inv M (k_data v) \<and> Q (k_ctrl v) (k_sb v) (k_block v) \<and>
     live E t = M + tcp_held (k_ctrl v) + rdma_held (k_data v) + buf_held (k_sb v) + block_held (k_block v)"

abbreviation kv_inv :: "env \<Rightarrow> res multiset \<Rightarrow> kv_vars \<Rightarrow> trace \<Rightarrow> bool" where
  "kv_inv E M \<equiv> kv_at E M (\<lambda>c b p. True)"

lemma kv_at_quiet:
  assumes "kv_at E M Q v t" and "adds silent t u"
    and "k_ctrl v' = k_ctrl v" "k_data v' = k_data v" "k_sb v' = k_sb v" "k_block v' = k_block v"
  shows "kv_at E M Q v' u"
  using assms adds_silent [OF assms(2), of E] by (simp add: kv_at_def rdma_env_ok_def)

abbreviation kv_parts :: "kv_vars \<Rightarrow> tcp_transport \<times> rdma_transport \<times> scoped_buffer \<times> u64 option" where
  "kv_parts v \<equiv> (k_ctrl v, k_data v, k_sb v, k_block v)"

abbreviation talks :: "kv_vars stmt \<Rightarrow> bool" where
  "talks \<equiv> leaves kv_parts"

lemma talks_triple: "talks f \<Longrightarrow> triple (kv_at E M Q) f (kv_at E M Q) (kv_inv E M)"
proof (rule tripleI)
  fix v t r v' u assume f: "talks f" and i: "kv_at E M Q v t" and s: "f v t = Some ((r, v'), u)"
  then have "kv_at E M Q v' u" using kv_at_quiet [OF i, of u v'] by (simp add: leaves_def)
  then show "if r = 0 then kv_at E M Q v' u else kv_inv E M v' u" by (simp add: kv_at_def)
qed

lemma talks_over: "(\<And>i. talks (f i)) \<Longrightarrow> talks (over_slot f)"
  using leaves_for [of kv_parts f] by (auto simp: leaves_def over_slot_def)

lemma talks_poll: "talks (k_poll E)"
  by (rule leavesI) (auto simp: k_poll_def split: option.splits dest: quiet_rdma_poll)

text \<open>What every batch keeps, from its number on, the loop keeps; with what is left when a batch fails.\<close>

lemma bench_loop_keeps:
  assumes "\<And>i. i < tot \<Longrightarrow> triple (J i) (bench_batch E op (min depth (c_int (tot - i))) i) (J (c_int (i + depth))) K"
    and "J i v t" and "bench_loop E op depth tot i v t = Some ((r, v'), u)"
  shows "if r = 0 then \<exists>j \<ge> tot. J j v' u else K v' u"
proof -
  let ?P = "\<lambda>y. if fst (fst y) = 0 then \<exists>j \<ge> tot. J j (snd (fst y)) (snd y) else K (snd (fst y)) (snd y)"
  have "(\<forall>i. i < tot \<longrightarrow> triple (J i) (bench_batch E op (min depth (c_int (tot - i))) i) (J (c_int (i + depth))) K) \<longrightarrow> J i v t \<longrightarrow> ?P ((r, v'), u)"
  proof (rule bench_loop.raw_induct [OF _ assms(3)], goal_cases)
    case (1 loop E op depth tot i v t y)
    show ?case
    proof (intro impI)
      assume b: "\<forall>i. i < tot \<longrightarrow> triple (J i) (bench_batch E op (min depth (c_int (tot - i))) i) (J (c_int (i + depth))) K" and j: "J i v t"
      show "if fst (fst y) = 0 then \<exists>j \<ge> tot. J j (snd (fst y)) (snd y) else K (snd (fst y)) (snd y)"
      proof (cases "i < tot")
        case True
        then obtain x w s where bt: "bench_batch E op (min depth (c_int (tot - i))) i v t = Some ((x, w), s)"
          and rest: "x \<noteq> 0 \<and> y = ((x, w), s) \<or> x = 0 \<and> loop E op depth tot (c_int (i + depth)) w s = Some y"
          using 1(2) by (auto split: option.splits if_splits)
        have k: "if x = 0 then J (c_int (i + depth)) w s else K w s" using b True j bt unfolding triple_def by blast
        show ?thesis
        proof (cases "x = 0")
          case True
          with rest have "loop E op depth tot (c_int (i + depth)) w s = Some y" by simp
          with 1(1) b k True show ?thesis by simp
        qed (use rest k in auto)
      qed (use 1(2) j in \<open>auto intro: exI [of _ i]\<close>)
    qed
  qed
  with assms(1,2) show ?thesis by (auto split: if_splits)
qed

lemma talks_loop:
  assumes "\<And>i. talks (op i)"
  shows "talks (bench_loop E op depth tot i)"
proof (rule leavesI)
  fix v t r v' u assume l: "bench_loop E op depth tot i v t = Some ((r, v'), u)"
  let ?J = "\<lambda>w s. adds silent t s \<and> kv_parts w = kv_parts v"
  have "talks (bench_batch E op n i)" for n i
    unfolding bench_batch_def block_Cons block_Nil by (intro leaves_then leaves_for assms talks_poll leaves_skip leaves_clock) simp_all
  then have "triple ?J (bench_batch E op n i) ?J ?J" for n i
    unfolding triple_def leaves_def by (auto intro: adds_trans)
  from bench_loop_keeps [where J = "\<lambda>i. ?J" and K = ?J, OF this _ l] show "?J v' u" by (auto split: if_splits)
qed

lemma talks_bench: "(\<And>i. talks (op i)) \<Longrightarrow> talks (run_bench E op slot iters depth)"
  unfolding run_bench_def block_Cons block_Nil
  by (auto intro!: leaves_then leaves_skip leaves_set talks_loop leaves_clock leavesI [of "\<lambda>v t. Some ((- 1, v), t)"])

subsection \<open>The statements that acquire\<close>

lemma others_hold:
  "Cm_qp i \<notin># tcp_held c" "Cm_qp i \<notin># buf_held b" "Cm_qp i \<notin># block_held p"
  by (auto simp: tcp_held_def one_fd_def buf_held_def mr_held_def block_held_def split: option.splits)

lemma triple_data_op: "triple (kv_at E M Q) (k_data_op E op) (kv_at E M Q) (kv_inv E M)"
proof (rule tripleI)
  fix v t r v' u assume i: "kv_at E M Q v t" and s: "k_data_op E op v t = Some ((r, v'), u)"
  then obtain d where d: "run_state (rdma_op E op (k_data v)) t = ((r, d), u)" "v' = v\<lparr>k_data := d\<rparr>"
    by (auto simp: k_data_op_def run_stmt_def run_simps split: prod.splits)
  let ?N = "tcp_held (k_ctrl v) + buf_held (k_sb v) + block_held (k_block v)"
  have n: "rdma_inv (M + ?N) tr = rdma_inv M tr" for tr by (rule rdma_inv_more) (simp add: others_hold)
  have "live E t = (M + ?N) + rdma_held (k_data v)" using i by (simp add: kv_at_def ac_simps)
  from rdma_session.step_spec [OF _ _ TrueI this d(1)] i n have "kv_at E M Q v' u"
    by (simp add: kv_at_def d(2) ac_simps)
  then show "if r = 0 then kv_at E M Q v' u else kv_inv E M v' u" by (simp add: kv_at_def)
qed

lemma triple_ctrl_op:
  assumes "\<And>c b p. Q c b p \<Longrightarrow> tcp_may op c"
    and "\<And>c b p t c' u. Q c b p \<Longrightarrow> run_state (tcp_op E op c) t = ((0, c'), u) \<Longrightarrow> Q' c' b p"
  shows "triple (kv_at E M Q) (k_ctrl_op E op) (kv_at E M Q') (kv_inv E M)"
proof (rule tripleI)
  fix v t r v' u assume i: "kv_at E M Q v t" and s: "k_ctrl_op E op v t = Some ((r, v'), u)"
  then obtain c where c: "run_state (tcp_op E op (k_ctrl v)) t = ((r, c), u)" "v' = v\<lparr>k_ctrl := c\<rparr>"
    by (auto simp: k_ctrl_op_def run_stmt_def run_simps split: prod.splits)
  let ?N = "M + rdma_held (k_data v) + buf_held (k_sb v) + block_held (k_block v)"
  have q: "Q (k_ctrl v) (k_sb v) (k_block v)" using i by (simp add: kv_at_def)
  have "live E t = ?N + tcp_held (k_ctrl v)" using i by (simp add: kv_at_def ac_simps)
  from tcp_session.step_spec [OF TrueI TrueI assms(1) [OF q] this c(1)] tcp_op_quiet [OF c(1)] i
  have k: "kv_inv E M v' u" by (simp add: kv_at_def c(2) ac_simps rdma_env_ok_def)
  moreover have "kv_at E M Q' v' u" if "r = 0"
    using k assms(2) [OF q, of t c u] c that by (simp add: kv_at_def)
  ultimately show "if r = 0 then kv_at E M Q' v' u else kv_inv E M v' u" by simp
qed

lemma reg_quiet: "run_state (scoped_buffer_init E b tr a n) t = ((r, b'), u) \<Longrightarrow> listeners u = listeners t"
  by (auto simp: scoped_buffer_init_def rdma_reg_buf_def rai_mr_reg_external_def run_simps split: if_splits prod.splits option.splits)

lemma triple_sb_init:
  "triple (kv_at E M (\<lambda>c b p. b = scoped_buffer_new \<and> Q c p)) (k_sb_init E addr len) (kv_at E M (\<lambda>c b p. Q c p)) (kv_inv E M)"
proof (rule tripleI)
  fix v t r v' u
  assume i: "kv_at E M (\<lambda>c b p. b = scoped_buffer_new \<and> Q c p) v t" and s: "k_sb_init E addr len v t = Some ((r, v'), u)"
  then obtain b where b: "run_state (scoped_buffer_init E scoped_buffer_new (k_data v) (addr v) (len v)) t = ((r, b), u)"
      "v' = v\<lparr>k_sb := b\<rparr>"
    by (auto simp: kv_at_def k_sb_init_def run_stmt_def run_simps split: prod.splits)
  have "r = 0 \<and> live E u = live E t + buf_held b \<or> r \<noteq> 0 \<and> live E u = live E t \<and> buf_held b = {#}"
    using rdma_scoped.acquire_spec [of E "(k_data v, addr v, len v)" t r b u] b(1) by simp
  moreover have "buf_held scoped_buffer_new = {#}" by (simp add: buf_held_def scoped_buffer_new_def)
  ultimately show "if r = 0 then kv_at E M (\<lambda>c b p. Q c p) v' u else kv_inv E M v' u"
    using i b(2) reg_quiet [OF b(1)] by (auto simp: kv_at_def rdma_env_ok_def ac_simps)
qed

lemma triple_exchange: "triple (kv_at E M Q) (k_exchange E) (kv_at E M Q) (kv_inv E M)"
proof (rule tripleI)
  fix v t r v' u assume i: "kv_at E M Q v t" and s: "k_exchange E v t = Some ((r, v'), u)"
  then obtain d a k where d: "run_state (rdma_exchange_buf E (k_data v) (Some (sb_h (k_sb v))) (Some (kr_base_addr (k_remote v)))
      (Some (kr_rkey (k_remote v)))) t = ((r, d, a, k), u)"
      "k_data v' = d" "k_ctrl v' = k_ctrl v" "k_sb v' = k_sb v" "k_block v' = k_block v"
    by (auto simp: k_exchange_def run_stmt_def run_simps split: prod.splits)
  from rdma_exchange_frame [OF d(1), of M] i d(2-) have "kv_at E M Q v' u" by (simp add: kv_at_def rdma_env_ok_def)
  then show "if r = 0 then kv_at E M Q v' u else kv_inv E M v' u" by (simp add: kv_at_def)
qed

lemma triple_block:
  "triple (kv_at E M (\<lambda>c b p. p = None \<and> Q c b)) (k_pool_fill E) (kv_at E M (\<lambda>c b p. Q c b)) (kv_inv E M)"
  "triple (kv_at E M (\<lambda>c b p. p = None \<and> Q c b)) (k_aligned_init E) (kv_at E M (\<lambda>c b p. Q c b)) (kv_inv E M)"
  by (rule tripleI; auto simp: k_pool_fill_def k_aligned_init_def run_stmt_def run_simps Let_def kv_at_def block_held_def
      rdma_env_ok_def split: if_splits)+

subsection \<open>The statements that only talk\<close>

lemma quiet_talk:
  "only silent (send_poll E tr m h len)" "only silent (recv_poll E tr h len m)"
  unfolding send_poll_def recv_poll_def by (intro only_intros quiet_tcp; simp)+

lemma quiet_protocol:
  "only silent (server_handshake E tr h p m)" "only silent (client_handshake E tr h s m)"
  "only silent (kv_alloc E tr h i m)" "only silent (kv_free E tr h i m)" "only silent (serve_iter E tr h p m)"
  unfolding server_handshake_def client_handshake_def kv_alloc_def kv_free_def serve_iter_def Let_def
  by (intro only_intros quiet_talk; simp)+

lemma talks_protocol:
  "talks (k_server_handshake E)" "talks (k_client_handshake E)" "talks (k_alloc E)" "talks (k_free E)"
  unfolding k_server_handshake_def k_client_handshake_def k_alloc_def k_free_def
  by (rule leaves_run; (intro only_intros quiet_protocol | auto simp: run_simps split: prod.splits))+

lemma serve_quiet:
  assumes "serve E tr h p m t = Some (x, u)"
  shows "adds silent t u"
proof -
  have "adds silent t (snd (x, u))"
  proof (rule serve.raw_induct [OF _ assms], goal_cases)
    case (1 loop E tr h p m t y)
    obtain o' p' m' s where i: "run_state (serve_iter E tr h p m) t = ((o', p', m'), s)" by (metis surj_pair)
    have a: "adds silent t s" by (rule onlyD [OF quiet_protocol(5) i])
    show ?case
    proof (cases o')
      case None
      with 1 i have "adds silent s (snd y)" by simp
      with a show ?thesis by (rule adds_trans)
    qed (use 1(2) i a in auto)
  qed
  then show ?thesis by simp
qed

lemma talks_simple:
  "talks (k_ctrl_init a)" "talks (k_serve E)" "talks k_slot_check" "talks (k_write E i)" "talks (k_read E i)"
proof -
  show "talks (k_ctrl_init a)"
    unfolding k_ctrl_init_def by (rule leaves_run) (auto simp: run_simps intro!: only_intros split: prod.splits)
  show "talks (k_serve E)"
    by (rule leavesI) (auto simp: k_serve_def split: option.splits dest: serve_quiet)
  show "talks k_slot_check" by (rule leavesI) (auto simp: k_slot_check_def)
  show "talks (k_write E i)" "talks (k_read E i)"
    unfolding k_write_def k_read_def by (intro leaves_call quiet_rdma)+
qed

lemma talks_check: "talks (k_data_check E)"
  unfolding k_data_check_def block_Cons block_Nil
  by (intro leaves_then talks_over leaves_event talks_simple talks_poll leaves_skip leaves_call only_intros; simp)

subsection \<open>The programs\<close>

abbreviation kv_start :: "env \<Rightarrow> res multiset \<Rightarrow> kv_vars \<Rightarrow> trace \<Rightarrow> bool" where
  "kv_start E M \<equiv> kv_at E M (\<lambda>c b p. p = None \<and> b = scoped_buffer_new \<and> c = tcp_new)"

lemma server_body_safe: "triple (kv_start E M) (kv_server_body E a cfg) (kv_inv E M) (kv_inv E M)"
proof -
  let ?L = "kv_at E M (\<lambda>c b p. p = None \<and> b = scoped_buffer_new \<and> tt_fd c < 0)"
  let ?C = "kv_at E M (\<lambda>c b p. p = None \<and> b = scoped_buffer_new \<and> True)"
  have l: "triple (kv_start E M) (k_ctrl_op E (Op_listen port)) ?L (kv_inv E M)" for port
    by (rule triple_ctrl_op) (auto simp: tcp_may_def tcp_new_def tcp_op_def tcp_listen_def run_simps split: if_splits)
  have c: "triple ?L (k_ctrl_op E Op_accept) ?C (kv_inv E M)"
    by (rule triple_ctrl_op) (auto simp: tcp_may_def)
  have s: "talks (set_vars (\<lambda>v. v\<lparr>k_pool := (k_pool v)\<lparr>kp_slot_size := kc_slot_size cfg, kp_num_slots := kc_num_slots cfg\<rparr>\<rparr>))"
    by (rule leaves_set) simp
  show ?thesis
    unfolding kv_server_body_def block_Cons block_Nil
    by (intro triple_then [OF talks_triple [OF s]] triple_then [OF l] triple_then [OF triple_data_op] triple_then [OF c]
        triple_then [OF talks_triple [OF talks_simple(1)]] triple_then [OF talks_triple [OF talks_protocol(1)]]
        triple_then [OF triple_block(1)] triple_then [OF triple_sb_init] triple_then [OF triple_exchange]
        triple_then [OF talks_triple [OF talks_simple(2)]] triple_skip)
qed

lemma client_body_safe: "triple (kv_start E M) (kv_bench_body E a cfg) (kv_inv E M) (kv_inv E M)"
proof -
  let ?C = "kv_at E M (\<lambda>c b p. p = None \<and> b = scoped_buffer_new \<and> True)"
  have c: "triple (kv_start E M) (k_ctrl_op E (Op_connect host port)) ?C (kv_inv E M)" for host port
    by (rule triple_ctrl_op) (auto simp: tcp_may_def tcp_new_def)
  have b: "talks (run_bench E (\<lambda>i. k_write E (word_of_int i)) s n d)" "talks (run_bench E (\<lambda>i. k_read E (word_of_int i)) s n d)" for s n d
    by (intro talks_bench talks_simple)+
  note talk = talks_triple [OF talks_protocol(2)] talks_triple [OF talks_protocol(3)] talks_triple [OF talks_protocol(4)]
    talks_triple [OF talks_simple(1)] talks_triple [OF talks_simple(3)] talks_triple [OF talks_check] talks_triple [OF b(1)] talks_triple [OF b(2)]
  show ?thesis
    unfolding kv_bench_body_def block_Cons block_Nil
    by (intro triple_then [OF c] triple_then [OF triple_data_op] triple_then [OF triple_block(2)] triple_then [OF triple_sb_init]
        triple_then [OF triple_exchange] talk [THEN triple_then] triple_skip)
qed

lemma dereg_quiet: "run_state (scoped_buffer_destroy E b) t = (b', u) \<Longrightarrow> listeners u = listeners t"
  by (auto simp: scoped_buffer_destroy_def rdma_dereg_buf_def rai_mr_dereg_def run_simps run_drop_if Let_def split: if_splits prod.splits option.splits)

lemma free_block:
  assumes "run_state (k_free_block E v) t = (x, u)"
  shows "live E u = live E t - block_held (k_block v) \<and> listeners u = listeners t"
  using assms by (auto simp: k_free_block_def block_held_def run_simps split: option.splits)

lemma transports_closed:
  assumes "rdma_env_ok E t" and "rdma_inv M d" and "live E t = M + tcp_held c + rdma_held d + N" and "\<And>i. Cm_qp i \<notin># N"
    and "run_state (rdma_close E d) t = (d', s)" and "run_state (tcp_close E c) s = (c', u)"
  shows "live E u = M + N"
proof -
  have "rdma_inv (M + (tcp_held c + N)) d" using assms(2,4) by (subst rdma_inv_more) (auto simp: others_hold)
  moreover have "live E t = M + (tcp_held c + N) + rdma_held d" using assms(3) by (simp add: ac_simps)
  ultimately have "live E s = M + (tcp_held c + N)" using rdma_session.close_spec [OF assms(1) _ _ assms(5)] by blast
  then show ?thesis using tcp_close_held [OF assms(6)] by (simp add: ac_simps)
qed

lemma server_out_spec:
  assumes "kv_inv E M v t"
  shows "live E (snd (run_state (server_out E v) t)) = M"
proof -
  obtain b t1 where b: "run_state (scoped_buffer_destroy E (k_sb v)) t = (b, t1)" by (metis surj_pair)
  obtain d t2 where d: "run_state (rdma_close E (k_data v)) t1 = (d, t2)" by (metis surj_pair)
  obtain c t3 where c: "run_state (tcp_close E (k_ctrl v)) t2 = (c, t3)" by (metis surj_pair)
  obtain x u where f: "run_state (k_free_block E v) t3 = (x, u)" by (metis surj_pair)
  have "live E t1 = M + tcp_held (k_ctrl v) + rdma_held (k_data v) + block_held (k_block v)" "rdma_env_ok E t1"
    using rdma_scoped.release_spec [OF b] dereg_quiet [OF b] assms by (simp_all add: kv_at_def rdma_env_ok_def)
  from transports_closed [OF this(2) _ this(1) _ d c] assms have "live E t3 = M + block_held (k_block v)"
    by (simp add: kv_at_def others_hold)
  then show ?thesis using free_block [OF f] by (simp add: server_out_def run_simps b d c f Let_def)
qed

lemma client_out_spec:
  assumes "kv_inv E M v t"
  shows "live E (snd (run_state (client_out E v) t)) = M"
proof -
  obtain b t1 where b: "run_state (scoped_buffer_destroy E (k_sb v)) t = (b, t1)" by (metis surj_pair)
  obtain x t2 where f: "run_state (k_free_block E v) t1 = (x, t2)" by (metis surj_pair)
  obtain d t3 where d: "run_state (rdma_close E (k_data v)) t2 = (d, t3)" by (metis surj_pair)
  obtain c u where c: "run_state (tcp_close E (k_ctrl v)) t3 = (c, u)" by (metis surj_pair)
  have "live E t1 = M + tcp_held (k_ctrl v) + rdma_held (k_data v) + block_held (k_block v)" "rdma_env_ok E t1"
    using rdma_scoped.release_spec [OF b] dereg_quiet [OF b] assms by (simp_all add: kv_at_def rdma_env_ok_def)
  then have "live E t2 = M + tcp_held (k_ctrl v) + rdma_held (k_data v) + {#}" "rdma_env_ok E t2"
    using free_block [OF f] by (simp_all add: rdma_env_ok_def)
  from transports_closed [OF this(2) _ this(1) _ d c] assms show ?thesis
    by (simp add: kv_at_def client_out_def run_simps b d c f Let_def)
qed

lemma kv_start_init: "rdma_env_ok E t \<Longrightarrow> kv_start E (live E t) (kv_vars_init m) t"
  by (simp add: kv_at_def kv_vars_init_def rdma_inv_def rdma_new_def rdma_held_def tcp_held_def one_fd_def tcp_new_def
      buf_held_def scoped_buffer_new_def block_held_def fd_held_def) (simp add: qp_zero_def)

end
