(* ===== verification/Kv_Flow.thy ===== *)
theory Kv_Flow
  imports Kv_Main Counts
begin

text \<open>
  The flow of kv_bench over its whole run: it polls only while something is outstanding, never has
  more operations outstanding than its depth, and sees every operation it posts complete.
\<close>

section \<open>Statements\<close>

abbreviation kidle :: "kv_vars stmt \<Rightarrow> bool" where
  "kidle \<equiv> idle (\<lambda>c. \<not> transfer c)"

lemma idle_over: "(\<And>i. kidle (f i)) \<Longrightarrow> kidle (over_slot f)"
  using idle_for [of _ f] unfolding idle_def over_slot_def by blast

lemma idle_slot_check: "kidle k_slot_check"
  by (auto simp: idle_def k_slot_check_def)

lemma control_protocol:
  "control (client_handshake E tr h s m)" "control (kv_alloc E tr h i m)" "control (kv_free E tr h i m)"
  unfolding client_handshake_def kv_alloc_def kv_free_def send_poll_def recv_poll_def Let_def
  by (intro only_intros control_tcp_transfers; simp)+

lemma idle_statements:
  "kidle (k_ctrl_op E op)" "kidle (k_data_op E op)" "kidle (k_ctrl_init a)" "kidle (k_client_handshake E)" "kidle (k_aligned_init E)"
  "kidle (k_sb_init E f g)" "kidle (k_exchange E)" "kidle (k_alloc E)" "kidle (k_free E)"
  unfolding k_ctrl_op_def k_data_op_def k_ctrl_init_def k_client_handshake_def k_aligned_init_def k_sb_init_def k_exchange_def
    k_alloc_def k_free_def
  by (intro idle_run only_intros control_transports [THEN only_mono] control_protocol [THEN only_mono] control_buffers [THEN only_mono];
      simp add: control_transfer)+

section \<open>Posting and polling\<close>

lemma kflow_post:
  assumes "s - k < d"
  shows "reaches (kflow d s k) (k_write E i) (kflow d (s + 1) k) (kany d)" "reaches (kflow d s k) (k_read E i) (kflow d (s + 1) k) (kany d)"
proof -
  have "returns (k_write E i)" "returns (k_read E i)" unfolding k_write_def k_read_def by (rule returns_simple)+
  moreover have "triple (kflow d s k) (k_write E i) (kflow d (s + 1) k) (kany d)" "triple (kflow d s k) (k_read E i) (kflow d (s + 1) k) (kany d)"
    unfolding k_write_def k_read_def
    by (rule triple_call; use assms in \<open>auto simp: kflow_def kany_def rdma_write_async_def rdma_read_async_def rai_post_write_def
        rai_post_read_def run_simps split: option.splits if_splits\<close>)+
  ultimately show "reaches (kflow d s k) (k_write E i) (kflow d (s + 1) k) (kany d)" "reaches (kflow d s k) (k_read E i) (kflow d (s + 1) k) (kany d)"
    by (auto intro: reachesI returns_from_all)
qed

lemma kflow_poll:
  assumes "poll_live E" and "k < s"
  shows "reaches (kflow d s k) (k_poll E) (kflow d s (k + 1)) (kany d)"
proof (rule reachesI)
  show "triple (kflow d s k) (k_poll E) (kflow d s (k + 1)) (kany d)"
  proof (rule tripleI)
    fix v t r v' u assume i: "kflow d s k v t" and p: "k_poll E v t = Some ((r, v'), u)"
    then have v: "v' = v" and c: "r \<noteq> 0 \<and> u = t \<or> (\<exists>n. poll_loop E (q_cq (rt_qp (k_data v))) t = Some ((r, n), u))"
      by (auto simp: k_poll_def rdma_poll_def rai_poll_cq_def split: option.splits if_splits)
    from c show "if r = 0 then kflow d s (k + 1) v' u else kany d v' u"
      using v kflow_polled(3) [OF i] poll_counts [OF _ i] by fastforce
  qed
  show "returns_from (kflow d s k) (k_poll E)"
    unfolding returns_from_def
  proof (intro allI impI)
    fix v :: kv_vars and t assume "kflow d s k v t"
    then have o: "0 < sends t - reaped t" using assms(2) by (simp add: kflow_def)
    have "poll_loop E cq t \<noteq> None" for cq by (rule poll_live_returns [OF assms(1) o])
    from this [of "q_cq (rt_qp (k_data v))"] show "k_poll E v t \<noteq> None"
      by (auto simp: k_poll_def rdma_poll_def rai_poll_cq_def split: option.splits)
  qed
qed

lemma kflow_batch:
  assumes "poll_live E" and "0 \<le> n" "n \<le> d" and "\<And>s k i. s - k < d \<Longrightarrow> reaches (kflow d s k) (op i) (kflow d (s + 1) k) (kany d)"
  shows "reaches (kflow d s s) (bench_batch E op n i) (kflow d (s + n) (s + n)) (kany d)"
proof -
  have "reaches (kflow d (s + 0) s) (for_each (\<lambda>k. op (i + k)) [0..n - 1]) (kflow d (s + (n - 1 + 1)) s) (kany d)"
    by (rule reaches_upto [where I = "\<lambda>j. kflow d (s + j) s"]) (use assms in \<open>auto simp: add.assoc [symmetric]\<close>)
  then have a: "reaches (kflow d s s) (for_each (\<lambda>k. op (i + k)) [0..n - 1]) (kflow d (s + n) s) (kany d)" by simp
  have "reaches (kflow d (s + n) (s + 0)) (for_each (\<lambda>k. k_poll E) [0..n - 1]) (kflow d (s + n) (s + (n - 1 + 1))) (kany d)"
    by (rule reaches_upto [where I = "\<lambda>j. kflow d (s + n) (s + j)"])
      (use assms(2) kflow_poll [OF assms(1)] in \<open>auto simp: add.assoc [symmetric]\<close>)
  then have b: "reaches (kflow d (s + n) s) (for_each (\<lambda>k. k_poll E) [0..n - 1]) (kflow d (s + n) (s + n)) (kany d)" by simp
  show ?thesis
    unfolding bench_batch_def block_Cons block_Nil
    by (rule reaches_then [OF kflow_idle [OF idle_simple(4) [of "\<lambda>c. \<not> transfer c", simplified]]] reaches_then [OF a] reaches_then [OF b] reaches_skip)+
qed

section \<open>The run\<close>

lemma kflow_loop:
  assumes "poll_live E" and "1 \<le> d" and "\<And>s k i. s - k < d \<Longrightarrow> reaches (kflow d s k) (op i) (kflow d (s + 1) k) (kany d)" and "tot + d \<le> 2 ^ 31"
    and "0 \<le> i" "i \<le> tot"
  shows "reaches (kflow d s s) (bench_loop E op d tot i) (kflow d (s + (tot - i)) (s + (tot - i))) (kany d)"
  using assms(5,6)
proof (induction "nat (tot - i)" arbitrary: i s rule: less_induct)
  case less
  show ?case
  proof (cases "i < tot")
    case True
    define n where "n = min d (tot - i)"
    have c: "c_int (tot - i) = tot - i" "c_int (i + d) = i + d"
      using True less.prems assms(2,4) by (simp_all add: c_int_id)
    have b: "reaches (kflow d s s) (bench_batch E op n i) (kflow d (s + n) (s + n)) (kany d)"
      by (rule kflow_batch [OF assms(1) _ _ assms(3)]) (use True assms(2) in \<open>simp_all add: n_def\<close>)
    have "reaches (kflow d (s + n) (s + n)) (bench_loop E op d tot (i + d)) (kflow d (s + (tot - i)) (s + (tot - i))) (kany d)"
    proof (cases "i + d \<le> tot")
      case le: True
      have "s + n + (tot - (i + d)) = s + (tot - i)" using le by (simp add: n_def)
      then show ?thesis using less.hyps [of "i + d" "s + n"] le True less.prems assms(2) by simp
    next
      case False
      then have "bench_loop E op d tot (i + d) = skip" by (intro ext) (simp add: bench_loop.simps skip_def)
      moreover have "n = tot - i" using False by (simp add: n_def)
      ultimately show ?thesis by (simp add: reaches_skip)
    qed
    from reaches_then [OF b this] have "reaches (kflow d s s) (then_do (bench_batch E op n i) (bench_loop E op d tot (i + d)))
      (kflow d (s + (tot - i)) (s + (tot - i))) (kany d)" .
    moreover have "bench_loop E op d tot i = then_do (bench_batch E op n i) (bench_loop E op d tot (i + d))"
      using True unfolding then_do_def n_def by (intro ext) (subst bench_loop.simps, unfold c, simp)
    ultimately show ?thesis by simp
  next
    case False
    then have "bench_loop E op d tot i = skip" "tot = i" using less.prems by (auto simp: bench_loop.simps skip_def intro!: ext)
    then show ?thesis by (simp add: reaches_skip)
  qed
qed

lemma kflow_bench:
  assumes "poll_live E" and "1 \<le> d" and "\<And>s k i. s - k < d \<Longrightarrow> reaches (kflow d s k) (op i) (kflow d (s + 1) k) (kany d)"
    and "kWarmup + iters + d \<le> 2 ^ 31"
  shows "reaches (kflow d s s) (run_bench E op slot iters d) (\<lambda>v t. kflow d (s + (kWarmup + iters)) (s + (kWarmup + iters)) v t \<and> 0 \<le> iters) (kany d)"
proof (cases "iters < 0")
  case True
  then show ?thesis by (auto simp: reaches_def run_bench_def kflow_def kany_def)
next
  case False
  have k: "0 \<le> kWarmup + iters" using False by (simp add: kWarmup_def)
  have c: "c_int (kWarmup + iters) = kWarmup + iters" using k assms(2,4) by (simp add: c_int_id)
  have l: "reaches (kflow d s s) (bench_loop E op d (kWarmup + iters) 0) (kflow d (s + (kWarmup + iters)) (s + (kWarmup + iters))) (kany d)"
    using kflow_loop [OF assms order.refl k, of s] by simp
  have "reaches (kflow d s s) (run_bench E op slot iters d) (kflow d (s + (kWarmup + iters)) (s + (kWarmup + iters))) (kany d)"
    unfolding run_bench_def block_Cons block_Nil c using False
    by (simp, intro reaches_then [OF kflow_idle [OF idle_simple(3)]] reaches_then [OF l] reaches_then [OF kflow_idle [OF idle_simple(4) [of "\<lambda>c. \<not> transfer c", simplified]]]
        reaches_skip)
  then show ?thesis using False by (simp add: not_less)
qed

lemma kflow_check:
  assumes "poll_live E" and "1 \<le> d"
  shows "reaches (kflow d s s) (k_data_check E) (kflow d (s + 2) (s + 2)) (kany d)"
proof -
  have w: "reaches (kflow d s s) (k_write E 0) (kflow d (s + 1) s) (kany d)" by (rule kflow_post) (use assms(2) in simp)
  have r: "reaches (kflow d (s + 1) (s + 1)) (k_read E 0) (kflow d (s + 2) (s + 1)) (kany d)"
    using kflow_post(2) [of "s + 1" "s + 1" d E 0] assms(2) by (simp add: add.assoc)
  have p: "reaches (kflow d (s + 1) s) (k_poll E) (kflow d (s + 1) (s + 1)) (kany d)"
    "reaches (kflow d (s + 2) (s + 1)) (k_poll E) (kflow d (s + 2) (s + 2)) (kany d)"
    using kflow_poll [OF assms(1), of s "s + 1" d] kflow_poll [OF assms(1), of "s + 1" "s + 2" d] by (simp_all add: add.assoc)
  have i: "kidle (over_slot (\<lambda>i. do_event E (\<lambda>v. Store (f v i) (g i))))" for f g by (intro idle_over idle_simple) simp
  have m: "kidle (do_event E (\<lambda>v. Memset (f v) x (g v)))" for f x g by (rule idle_simple) simp
  have c: "kidle (over_slot (\<lambda>i. do_call (\<lambda>v. do { n \<leftarrow> exec_call E (Load (f v i)); ret (h n i) })))" for f h
    by (intro idle_over idle_call only_intros) simp
  show ?thesis
    unfolding k_data_check_def block_Cons block_Nil
    by (intro reaches_then [OF kflow_idle [OF i]] reaches_then [OF w] reaches_then [OF p(1)] reaches_then [OF kflow_idle [OF m]]
        reaches_then [OF r] reaches_then [OF p(2)] reaches_then [OF kflow_idle [OF c]] reaches_skip)
qed

lemma reaches_pre: "(\<And>v t. I' v t \<Longrightarrow> I v t) \<Longrightarrow> reaches I f J K \<Longrightarrow> reaches I' f J K"
  by (auto simp: reaches_def)

lemma kflow_body:
  assumes "poll_live E" and "1 \<le> kb_depth cfg" and "kWarmup + kb_iters cfg + kb_depth cfg \<le> 2 ^ 31"
  shows "reaches (kflow (kb_depth cfg) 0 0) (kv_bench_body E a cfg)
    (\<lambda>v t. kflow (kb_depth cfg) (2 + 2 * (kWarmup + kb_iters cfg)) (2 + 2 * (kWarmup + kb_iters cfg)) v t \<and> 0 \<le> kb_iters cfg) (kany (kb_depth cfg))"
proof -
  let ?d = "kb_depth cfg" and ?n = "kWarmup + kb_iters cfg"
  let ?K = "\<lambda>m v t. kflow ?d m m v t \<and> 0 \<le> kb_iters cfg"
  have c: "reaches (kflow ?d 0 0) (k_data_check E) (kflow ?d 2 2) (kany ?d)" using kflow_check [OF assms(1,2), of 0] by simp
  have w: "reaches (kflow ?d 2 2) (run_bench E (\<lambda>i. k_write E (word_of_int i)) z (kb_iters cfg) ?d) (?K (2 + ?n)) (kany ?d)" for z
    by (rule kflow_bench [OF assms(1,2) kflow_post(1) assms(3)])
  have "reaches (kflow ?d (2 + ?n) (2 + ?n)) (run_bench E (\<lambda>i. k_read E (word_of_int i)) z (kb_iters cfg) ?d) (?K (2 + ?n + ?n)) (kany ?d)" for z
    by (rule kflow_bench [OF assms(1,2) kflow_post(2) assms(3)])
  moreover have "2 + ?n + ?n = 2 + 2 * ?n" by simp
  ultimately have "reaches (kflow ?d (2 + ?n) (2 + ?n)) (run_bench E (\<lambda>i. k_read E (word_of_int i)) z (kb_iters cfg) ?d) (?K (2 + 2 * ?n)) (kany ?d)" for z
    by metis
  then have r: "reaches (?K (2 + ?n)) (run_bench E (\<lambda>i. k_read E (word_of_int i)) z (kb_iters cfg) ?d) (?K (2 + 2 * ?n)) (kany ?d)" for z
    by (rule reaches_pre [rotated]) simp
  have f: "reaches (?K m) (k_free E) (?K m) (kany ?d)" for m
    using kflow_idle [OF idle_statements(9), of ?d m m E] by (cases "0 \<le> kb_iters cfg") (auto simp: reaches_def)
  note i = idle_statements [THEN kflow_idle, THEN reaches_then] kflow_idle [OF idle_slot_check, THEN reaches_then]
  show ?thesis
    unfolding kv_bench_body_def block_Cons block_Nil
    by (intro i reaches_then [OF c] reaches_then [OF w] reaches_then [OF r] reaches_then [OF f] reaches_skip)
qed

lemma control_out: "control (client_out E v)"
  unfolding client_out_def k_free_block_def Let_def by (intro only_intros control_buffers control_transports; simp)

lemma kb_options_depth: "kb_options args cfg = (0, cfg') \<Longrightarrow> 1 \<le> kb_depth cfg \<Longrightarrow> 1 \<le> kb_depth cfg'"
proof (induction args cfg rule: kb_options.induct)
  case (2 opt rest cfg)
  show ?case
  proof (cases "opt = ''--iters'' \<or> opt = ''--depth''")
    case True
    with 2(5) obtain val rest' where r: "rest = val # rest'" by (cases rest) auto
    from True show ?thesis
    proof
      assume o: "opt = ''--iters''"
      then have "kb_options rest' (cfg\<lparr>kb_iters := atoi val\<rparr>) = (0, cfg')" using 2(5) r by simp
      with 2(1) [OF o r] 2(6) show ?thesis by simp
    next
      assume o: "opt = ''--depth''"
      then have "\<not> atoi val < 1" "kb_options rest' (cfg\<lparr>kb_depth := atoi val\<rparr>) = (0, cfg')" using 2(5) r by (auto split: if_splits)
      with 2(2) [OF _ o r] o show ?thesis by simp
    qed
  next
    case False
    show ?thesis
    proof (cases "opt = ''--csv''")
      case True
      then have "kb_options rest (cfg\<lparr>kb_csv := True\<rparr>) = (0, cfg')" using 2(5) by simp
      with 2(3) True 2(6) show ?thesis by simp
    next
      case c: False
      then have "kb_options rest cfg = (0, cfg')" using 2(5) False by simp
      with 2(4) False c 2(6) show ?thesis by simp
    qed
  qed
qed simp

lemma kb_parse_depth: "kb_config_parse args kb_config_init = (0, cfg) \<Longrightarrow> 1 \<le> kb_depth cfg \<and> args \<noteq> [''--csv-header'']"
  by (auto simp: kb_config_parse_def kb_config_init_def split: list.splits dest!: kb_options_depth)

lemma kv_bench_runs:
  assumes "poll_live E" and "kb_config_parse args kb_config_init = (0, cfg)" and "kWarmup + kb_iters cfg + kb_depth cfg \<le> 2 ^ 31"
  obtains x :: int and w s where "kv_bench E a m args [] = Some ((if x \<noteq> 0 then 1 else 0, w), snd (run_state (client_out E w) s))"
    and "if x = 0 then kflow (kb_depth cfg) (2 + 2 * (kWarmup + kb_iters cfg)) (2 + 2 * (kWarmup + kb_iters cfg)) w s
      else kany (kb_depth cfg) w s"
proof -
  have d: "1 \<le> kb_depth cfg" "args \<noteq> [''--csv-header'']" using kb_parse_depth [OF assms(2)] by auto
  have "kflow (kb_depth cfg) 0 0 (kv_vars_init m) []" using d by (simp add: kflow_def)
  with kflow_body [OF assms(1) d(1) assms(3), of a] obtain x w s where b: "kv_bench_body E a cfg (kv_vars_init m) [] = Some ((x, w), s)"
    and f: "if x = 0 then kflow (kb_depth cfg) (2 + 2 * (kWarmup + kb_iters cfg)) (2 + 2 * (kWarmup + kb_iters cfg)) w s \<and> 0 \<le> kb_iters cfg
      else kany (kb_depth cfg) w s" by (rule reachesD)
  from d(2) assms(2) b have "kv_bench E a m args [] = Some ((if x \<noteq> 0 then 1 else 0, w), snd (run_state (client_out E w) s))"
    by (simp add: kv_bench_def)
  with f show ?thesis by (intro that [of x w s]) (auto split: if_splits)
qed

text \<open>
  C31. The key-value client ends and keeps its window: on a queue that does not stay silent forever
  while something is outstanding, the program returns, so it never waits for a completion that
  cannot come; at every moment of the run at most depth operations were outstanding; and when it
  succeeds, the two operations of the data check and every write and read of the two warm-ups and
  measurements were posted once and seen to complete. The number of rounds and the depth must be
  such that the program's \<open>int\<close> counters do not overflow.
\<close>

theorem kv_bench_pipeline:
  assumes "poll_live E" and "kb_config_parse args kb_config_init = (0, cfg)" and "kWarmup + kb_iters cfg + kb_depth cfg \<le> 2 ^ 31"
  shows "\<exists>r v u. kv_bench E a m args [] = Some ((r, v), u) \<and> window_kept (kb_depth cfg) u \<and>
    (r = 0 \<longrightarrow> sends u = 2 + 2 * (kWarmup + kb_iters cfg) \<and> reaped u = sends u)"
proof -
  let ?n = "2 + 2 * (kWarmup + kb_iters cfg)"
  obtain x :: int and w s where b: "kv_bench E a m args [] = Some ((if x \<noteq> 0 then 1 else 0, w), snd (run_state (client_out E w) s))"
    and f: "if x = 0 then kflow (kb_depth cfg) ?n ?n w s else kany (kb_depth cfg) w s"
    by (rule kv_bench_runs [OF assms, of a m])
  have k: "window_kept (kb_depth cfg) s" using f by (auto simp: kflow_def kany_def split: if_splits)
  have "adds_control s (snd (run_state (client_out E w) s))" using onlyD [OF control_out] by (metis prod.collapse)
  from adds_control_counts [OF this, of "kb_depth cfg"] window_now [OF k] k kb_parse_depth [OF assms(2)] f b show ?thesis
    by (auto simp: kflow_def split: if_splits)
qed

theorem kv_bench_pipeline_witness:
  "\<exists>r v u. kv_bench cm_calm 4096 (\<lambda>_. 0) [''10.0.0.1'', ''7'', ''--depth'', ''4''] [] = Some ((r, v), u) \<and> window_kept 4 u"
proof -
  have "poll_live cm_calm" unfolding poll_live_def by (auto intro!: exI [of _ 0] simp: cm_calm_def calm_def)
  moreover have "kb_config_parse [''10.0.0.1'', ''7'', ''--depth'', ''4''] kb_config_init =
      (0, kb_config_init\<lparr>kb_server_ip := ''10.0.0.1'', kb_port := 7, kb_depth := 4\<rparr>)"
    by code_simp
  moreover have "kWarmup + kb_iters (kb_config_init\<lparr>kb_server_ip := ''10.0.0.1'', kb_port := 7, kb_depth := 4\<rparr>) + 4 \<le> 2 ^ 31"
    by (simp add: kb_config_init_def kWarmup_def)
  ultimately show ?thesis using kv_bench_pipeline [of cm_calm] by fastforce
qed

text \<open>
  C32. The key-value programs leak nothing: whichever step of kv_server or kv_bench fails, and also where
  the server's pool cannot be allocated or the data check does not find its pattern, every
  descriptor, region, queue pair and block of memory acquired on the way has been released when
  the program returns.
\<close>

theorem kv_programs_balanced:
  assumes "cm_ok E" "cm_requests_ok E" "listeners t = {}"
    and "kv_server E a m args t = Some ((r, v), u) \<or> kv_bench E a m args t = Some ((r, v), u)"
  shows "live E u = live E t"
proof -
  let ?M = "live E t" and ?v = "kv_vars_init m"
  have i: "kv_start E ?M ?v t" using kv_start_init assms(1-3) by (simp add: rdma_env_ok_def)
  consider "u = t" | cfg x w s where "kv_server_body E a cfg ?v t = Some ((x, w), s)" "u = snd (run_state (server_out E w) s)"
    | cfg x w s where "kv_bench_body E a cfg ?v t = Some ((x, w), s)" "u = snd (run_state (client_out E w) s)"
    using assms(4) by (auto simp: kv_server_def kv_bench_def split: if_splits option.splits prod.splits)
  then show ?thesis
  proof cases
    case 2
    from tripleD [OF server_body_safe i 2(1)] have "kv_inv E ?M w s" by (simp split: if_splits)
    then show ?thesis using server_out_spec 2(2) by simp
  next
    case 3
    from tripleD [OF client_body_safe i 3(1)] have "kv_inv E ?M w s" by (simp split: if_splits)
    then show ?thesis using client_out_spec 3(2) by simp
  qed simp
qed

theorem kv_programs_balanced_witness:
  "\<exists>r v u. kv_bench cm_calm 4096 (\<lambda>_. 0) [''10.0.0.1'', ''7''] [] = Some ((r, v), u) \<and> live cm_calm u = {#}"
proof -
  have p: "poll_live cm_calm" unfolding poll_live_def by (auto intro!: exI [of _ 0] simp: cm_calm_def calm_def)
  have c: "kb_config_parse [''10.0.0.1'', ''7''] kb_config_init = (0, kb_config_init\<lparr>kb_server_ip := ''10.0.0.1'', kb_port := 7\<rparr>)"
    by code_simp
  obtain r v u where b: "kv_bench cm_calm 4096 (\<lambda>_. 0) [''10.0.0.1'', ''7''] [] = Some ((r, v), u)"
    by (rule kv_bench_runs [OF p c, of 4096 "\<lambda>_. 0"]) (simp_all add: kb_config_init_def kWarmup_def)
  have "listeners [] = {}" by simp
  from kv_programs_balanced [OF cm_calm_ok cm_calm_requests this disjI2 [OF b]] b show ?thesis by auto
qed

end
