(* ===== verification/Transport_Class.thy ===== *)
theory Transport_Class
  imports World Frames
begin

text \<open>
  The remaining virtual functions of the class \<open>Transport\<close> (transport.hpp), by the kind of transport
  behind the pointer, and \<open>ScopedBuffer\<close> over such a pointer. The benchmarks of phase2_transport use a
  transport only through these.
\<close>

section \<open>Definitions\<close>

definition transport_reg_buf :: "env \<Rightarrow> transport \<Rightarrow> u64 \<Rightarrow> u64 \<Rightarrow> buffer_handle option \<Rightarrow> (trace, int \<times> buffer_handle option) state" where
  "transport_reg_buf E tr addr len out = (case tr of TcpT x \<Rightarrow> ret (tcp_reg_buf addr len out) | RdmaT x \<Rightarrow> rdma_reg_buf E x addr len out)"

definition transport_dereg_buf :: "env \<Rightarrow> transport \<Rightarrow> buffer_handle option \<Rightarrow> (trace, buffer_handle option) state" where
  "transport_dereg_buf E tr h = (case tr of TcpT x \<Rightarrow> ret (tcp_dereg_buf h) | RdmaT x \<Rightarrow> rdma_dereg_buf E h)"

text \<open>
  A TCP transfer reads and writes the memory of the process itself; an RDMA transfer is posted, and
  the network card accesses the memory later.
\<close>

definition transport_send_async ::
    "env \<Rightarrow> transport \<Rightarrow> memory \<Rightarrow> buffer_handle option \<Rightarrow> u64 \<Rightarrow> u64 \<Rightarrow> u64 \<Rightarrow> (trace, int) state" where
  "transport_send_async E tr m h len wid off =
     (case tr of TcpT x \<Rightarrow> tcp_send_async E x m h len wid off | RdmaT x \<Rightarrow> rdma_send_async E x h len wid off)"

definition transport_recv_async ::
    "env \<Rightarrow> transport \<Rightarrow> buffer_handle option \<Rightarrow> u64 \<Rightarrow> u64 \<Rightarrow> u64 \<Rightarrow> memory \<Rightarrow> (trace, int \<times> memory) state" where
  "transport_recv_async E tr h len wid off m =
     (case tr of TcpT x \<Rightarrow> tcp_recv_async E x h len wid off m
      | RdmaT x \<Rightarrow> do { r \<leftarrow> rdma_recv_async E x h len wid off; ret (r, m) })"

definition recv_blocks :: "transport \<Rightarrow> bool" where
  "recv_blocks tr = (case tr of TcpT x \<Rightarrow> True | RdmaT x \<Rightarrow> False)"

definition transport_write_async ::
    "env \<Rightarrow> transport \<Rightarrow> memory \<Rightarrow> buffer_handle option \<Rightarrow> u64 \<Rightarrow> u32 \<Rightarrow> u64 \<Rightarrow> u64 \<Rightarrow> u64 \<Rightarrow> (trace, int) state" where
  "transport_write_async E tr m h ra rk len wid off =
     (case tr of TcpT x \<Rightarrow> tcp_write_async E x m h ra rk len wid off | RdmaT x \<Rightarrow> rdma_write_async E x h ra rk len wid off)"

definition transport_read_async ::
    "env \<Rightarrow> transport \<Rightarrow> buffer_handle option \<Rightarrow> u64 \<Rightarrow> u32 \<Rightarrow> u64 \<Rightarrow> u64 \<Rightarrow> u64 \<Rightarrow> (trace, int) state" where
  "transport_read_async E tr h ra rk len wid off =
     (case tr of TcpT x \<Rightarrow> tcp_read_async h ra rk len wid off | RdmaT x \<Rightarrow> rdma_read_async E x h ra rk len wid off)"

definition transport_exchange_buf ::
    "env \<Rightarrow> transport \<Rightarrow> buffer_handle option \<Rightarrow> u64 option \<Rightarrow> u32 option \<Rightarrow> (trace, int \<times> transport \<times> u64 option \<times> u32 option) state" where
  "transport_exchange_buf E tr h a k =
     (case tr of TcpT x \<Rightarrow> do { (r, a', k') \<leftarrow> tcp_exchange_buf E x h a k; ret (r, tr, a', k') }
      | RdmaT x \<Rightarrow> do { (r, y, a', k') \<leftarrow> rdma_exchange_buf E x h a k; ret (r, RdmaT y, a', k') })"

definition transport_poll :: "env \<Rightarrow> transport \<Rightarrow> u64 option \<Rightarrow> trace \<Rightarrow> ((int \<times> u64 option) \<times> trace) option" where
  "transport_poll E tr out t =
     (case tr of TcpT x \<Rightarrow> Some (run_state (tcp_poll out) t) | RdmaT x \<Rightarrow> rdma_poll E x out t)"

text \<open>\<open>ScopedBuffer\<close>: its transport, NULL until \<open>init\<close>, and its handle.\<close>

record shared_buffer =
  sh_t :: "transport option"
  sh_h :: buffer_handle

definition shared_buffer_new :: shared_buffer where
  "shared_buffer_new = \<lparr>sh_t = None, sh_h = bh_zero\<rparr>"

definition shared_buffer_init :: "env \<Rightarrow> shared_buffer \<Rightarrow> transport \<Rightarrow> u64 \<Rightarrow> u64 \<Rightarrow> (trace, int \<times> shared_buffer) state" where
  "shared_buffer_init E b tr addr len = do {
     (r, h) \<leftarrow> transport_reg_buf E tr addr len (Some (sh_h b));
     ret (r, b\<lparr>sh_t := Some tr, sh_h := the h\<rparr>) }"

definition shared_buffer_destroy :: "env \<Rightarrow> shared_buffer \<Rightarrow> (trace, shared_buffer) state" where
  "shared_buffer_destroy E b =
     (case sh_t b of None \<Rightarrow> ret b
      | Some tr \<Rightarrow> do { h \<leftarrow> transport_dereg_buf E tr (Some (sh_h b)); ret (b\<lparr>sh_h := the h\<rparr>) })"

text \<open>What it stands for: a region, on an RDMA transport.\<close>

definition shared_held :: "shared_buffer \<Rightarrow> res multiset" where
  "shared_held b = (case sh_t b of Some (RdmaT x) \<Rightarrow> mr_held (bh_priv (sh_h b)) | _ \<Rightarrow> {#})"

section \<open>Buffers\<close>

interpretation shared_scoped: scoped_resource E
  "\<lambda>(tr, addr, len). shared_buffer_init E shared_buffer_new tr addr len" "shared_buffer_destroy E" shared_held
  for E
proof
  show "r = 0 \<and> live E u = live E t + shared_held h \<or> r \<noteq> 0 \<and> live E u = live E t \<and> shared_held h = {#}"
    if "run_state (case a of (tr, addr, len) \<Rightarrow> shared_buffer_init E shared_buffer_new tr addr len) t = ((r, h), u)" for a t r h u
  proof -
    obtain tr addr len where a: "a = (tr, addr, len)" by (cases a)
    show ?thesis
    proof (cases tr)
      case (TcpT x)
      with that show ?thesis
        by (auto simp: a shared_buffer_init_def transport_reg_buf_def tcp_reg_buf_def shared_held_def shared_buffer_new_def run_simps
            split: if_splits)
    next
      case (RdmaT x)
      obtain r' b u' where i: "run_state (scoped_buffer_init E scoped_buffer_new x addr len) t = ((r', b), u')" by (metis surj_pair)
      then have "r = r'" "u = u'" "shared_held h = buf_held b"
        using that RdmaT by (auto simp: a shared_buffer_init_def scoped_buffer_init_def transport_reg_buf_def shared_held_def buf_held_def
            shared_buffer_new_def scoped_buffer_new_def run_simps split: prod.splits)
      with rdma_scoped.acquire_spec [of E "(x, addr, len)" t r' b u'] i show ?thesis by simp
    qed
  qed
  show "live E u = live E t - shared_held h \<and> shared_held h' = {#}" if "run_state (shared_buffer_destroy E h) t = (h', u)" for h t h' u
    using that mr_dereg_spec [of E "bh_priv (sh_h h)" t]
    by (auto simp: shared_buffer_destroy_def transport_dereg_buf_def rdma_dereg_buf_def tcp_dereg_buf_def shared_held_def bh_zero_def
        run_simps mr_held_def split: option.splits prod.splits transport.splits)
qed

section \<open>What an open transport leaves alone\<close>

lemma only_transport: "(\<And>x. only P (f x)) \<Longrightarrow> (\<And>x. only P (g x)) \<Longrightarrow> only P (case tr of TcpT x \<Rightarrow> f x | RdmaT x \<Rightarrow> g x)"
  by (cases tr) simp_all

lemma quiet_transport:
  "only silent (transport_send_async E tr m h len i off)" "only silent (transport_recv_async E tr h len i off m)"
  "only silent (transport_write_async E tr m h ra rk len i off)" "only silent (transport_read_async E tr h ra rk len i off)"
  unfolding transport_send_async_def transport_recv_async_def transport_write_async_def tcp_write_async_def transport_read_async_def
    tcp_read_async_def
  by (intro only_transport only_intros quiet_tcp quiet_rdma)+

lemma quiet_transport_poll: "transport_poll E tr out t = Some (x, u) \<Longrightarrow> adds silent t u"
  by (cases tr) (auto simp: transport_poll_def tcp_poll_def dest: quiet_rdma_poll)

lemma calm_transport_poll: "transport_poll cm_calm tr out t \<noteq> None"
proof (cases tr)
  case (RdmaT x)
  have "poll_loop cm_calm cq t \<noteq> None" for cq by (subst poll_loop.simps) (simp add: cm_calm_def calm_def Let_def)
  from this [of "q_cq (rt_qp x)"] RdmaT show ?thesis by (auto simp: transport_poll_def rdma_poll_def rai_poll_cq_def)
qed (simp add: transport_poll_def tcp_poll_def)

lemma transport_exchange_frame:
  assumes "run_state (transport_exchange_buf E tr h a k) t = ((r, tr', a', k'), u)"
  shows "live E u = live E t \<and> listeners u = listeners t \<and> transport_held tr' = transport_held tr \<and> transport_inv M tr' = transport_inv M tr"
proof (cases tr)
  case (TcpT x)
  then obtain a'' k'' where "run_state (tcp_exchange_buf E x h a k) t = ((r, a'', k''), u)" "tr' = tr"
    using assms by (auto simp: transport_exchange_buf_def run_simps split: prod.splits)
  with quietD [OF quiet_tcp(4)] show ?thesis by metis
next
  case (RdmaT x)
  then obtain y where "run_state (rdma_exchange_buf E x h a k) t = ((r, y, a', k'), u)" "tr' = RdmaT y"
    using assms by (auto simp: transport_exchange_buf_def run_simps split: prod.splits)
  with rdma_exchange_frame [of E x h a k t r y a' k' u M] RdmaT show ?thesis by (simp add: transport_held_def transport_inv_def)
qed

lemma shared_quiet:
  "run_state (shared_buffer_init E b tr a n) t = ((r, b'), u) \<Longrightarrow> listeners u = listeners t"
  "run_state (shared_buffer_destroy E b) t = (b'', u) \<Longrightarrow> listeners u = listeners t"
  by (auto simp: shared_buffer_init_def transport_reg_buf_def rdma_reg_buf_def rai_mr_reg_external_def shared_buffer_destroy_def
      transport_dereg_buf_def rdma_dereg_buf_def rai_mr_dereg_def run_simps run_drop_if Let_def
      split: if_splits prod.splits option.splits transport.splits)

text \<open>Buffers and blocks do not matter to the connection of a transport.\<close>

lemma transport_inv_more: "(\<And>i. Cm_qp i \<notin># N) \<Longrightarrow> transport_inv (M + N) tr = transport_inv M tr"
  by (cases tr) (simp_all add: transport_inv_def rdma_inv_more)

lemma held_no_qp: "Cm_qp i \<notin># shared_held b" "Cm_qp i \<notin># block_held p"
  by (auto simp: shared_held_def mr_held_def block_held_def split: option.splits transport.splits)

text \<open>Giving back: whatever else is held, exactly \<open>N\<close> goes.\<close>

definition gives_back :: "env \<Rightarrow> res multiset \<Rightarrow> (trace, 'a) state \<Rightarrow> bool" where
  "gives_back E N m \<longleftrightarrow> (\<forall>t M x u. run_state m t = (x, u) \<longrightarrow> rdma_env_ok E t \<longrightarrow> live E t = M + N \<longrightarrow> rdma_env_ok E u \<and> live E u = M)"

lemma gives_back_bind: "gives_back E N' m \<Longrightarrow> (\<And>x. gives_back E N (f x)) \<Longrightarrow> gives_back E (N + N') (State_Monad.bind m f)"
  unfolding gives_back_def run_bind by (simp add: case_prod_beta add.assoc [symmetric]) (metis prod.collapse)

lemma gives_back_buffer: "gives_back E (shared_held b) (shared_buffer_destroy E b)"
  unfolding gives_back_def rdma_env_ok_def using shared_scoped.release_spec [of E b] shared_quiet(2) [of E b] by auto

end
