(* ===== verification/Backend_Compare.thy ===== *)
theory Backend_Compare
  imports Transport_Class Args Bench_Stats Counts
begin

text \<open>
  The benchmark of phase2_transport, from \<open>main\<close> to \<open>return\<close> (backend_compare.cpp): a round trip of
  sends over either transport, then, over RDMA, one-sided writes whose last four bytes carry the
  number of the round. Each test has a transport of its own; leaving a test destroys its scoped
  buffer, its aligned buffer and its transport, in this order. A vector of a negative size throws,
  which leaves the test.
\<close>

section \<open>Definitions\<close>

subsection \<open>The command line\<close>

record bk_config =
  bk_server_ip :: string
  bk_port :: int
  bk_iters :: int
  bk_size :: int
  bk_is_rdma :: bool
  bk_csv :: bool
  bk_csv_header :: bool

definition bk_config_init :: bk_config where
  "bk_config_init = \<lparr>bk_server_ip = [], bk_port = 12345, bk_iters = 1000, bk_size = 4096, bk_is_rdma = False, bk_csv = False,
     bk_csv_header = False\<rparr>"

fun bk_config_parse :: "string list \<Rightarrow> bk_config \<Rightarrow> int \<times> bk_config" where
  "bk_config_parse [] cfg = (0, cfg)"
| "bk_config_parse (opt # rest) cfg =
     (if opt = ''rdma'' then bk_config_parse rest (cfg\<lparr>bk_is_rdma := True\<rparr>)
      else if opt = ''tcp'' then bk_config_parse rest (cfg\<lparr>bk_is_rdma := False\<rparr>)
      else if opt \<in> {''--port'', ''--iters'', ''--size''} then
        (case rest of [] \<Rightarrow> (-1, cfg)
         | val # rest' \<Rightarrow> bk_config_parse rest'
             (if opt = ''--port'' then cfg\<lparr>bk_port := atoi val\<rparr>
              else if opt = ''--iters'' then cfg\<lparr>bk_iters := atoi val\<rparr>
              else cfg\<lparr>bk_size := atoi val\<rparr>))
      else if opt = ''--csv'' then bk_config_parse rest (cfg\<lparr>bk_csv := True\<rparr>)
      else if opt = ''--csv-header'' then bk_config_parse rest (cfg\<lparr>bk_csv_header := True\<rparr>)
      else if positional opt then bk_config_parse rest (cfg\<lparr>bk_server_ip := opt\<rparr>)
      else (-1, cfg))"

subsection \<open>Variables\<close>

record bk_vars =
  b_tr :: transport
  b_sb :: shared_buffer
  b_block :: "u64 option"       \<comment> \<open>\<open>buf.p\<close>\<close>
  b_mem :: memory
  b_remote_addr :: u64
  b_rkey :: u32
  b_start :: u64
  b_bw_start :: u64
  b_samples :: "u64 list"
  b_reports :: "(lat_stats \<times> u64) list"   \<comment> \<open>latencies, elapsed time\<close>

definition bk_vars_init :: "memory \<Rightarrow> bk_vars" where
  "bk_vars_init m = \<lparr>b_tr = TcpT tcp_new, b_sb = shared_buffer_new, b_block = None, b_mem = m, b_remote_addr = 0, b_rkey = 0,
     b_start = 0, b_bw_start = 0, b_samples = [], b_reports = []\<rparr>"

subsection \<open>Calls\<close>

definition b_op :: "env \<Rightarrow> session_op \<Rightarrow> bk_vars stmt" where
  "b_op E op = run_stmt (\<lambda>v. do { (r, tr) \<leftarrow> transport_op E op (b_tr v); ret (r, v\<lparr>b_tr := tr\<rparr>) })"

text \<open>\<open>AlignedBuf::init\<close>\<close>

definition b_aligned_init :: "env \<Rightarrow> u64 \<Rightarrow> bk_vars stmt" where
  "b_aligned_init E len = run_stmt (\<lambda>v. do {
     ps \<leftarrow> exec_call E Sysconf_pagesize;
     r \<leftarrow> exec_call E (Posix_memalign (if ps \<le> 0 then 4096 else ps) len);
     if r \<noteq> 0 then ret (-1, v)
     else do {
       p \<leftarrow> look (e_memory E);
       _ \<leftarrow> exec_call E (Memset p 0 len);
       ret (0, v\<lparr>b_block := Some p, b_mem := write_mem (b_mem v) p (replicate (unat len) 0)\<rparr>) } })"

definition b_sb_init :: "env \<Rightarrow> u64 \<Rightarrow> bk_vars stmt" where
  "b_sb_init E len = run_stmt (\<lambda>v. do {
     (r, b) \<leftarrow> shared_buffer_init E (b_sb v) (b_tr v) (the (b_block v)) len;
     ret (r, v\<lparr>b_sb := b\<rparr>) })"

definition b_send :: "env \<Rightarrow> u64 \<Rightarrow> bk_vars stmt" where
  "b_send E len = do_call (\<lambda>v. transport_send_async E (b_tr v) (b_mem v) (Some (sh_h (b_sb v))) len 1 0)"

definition b_recv :: "env \<Rightarrow> u64 \<Rightarrow> bk_vars stmt" where
  "b_recv E len = run_stmt (\<lambda>v. do {
     (r, m) \<leftarrow> transport_recv_async E (b_tr v) (Some (sh_h (b_sb v))) len 1 0 (b_mem v);
     ret (r, v\<lparr>b_mem := m\<rparr>) })"

definition b_poll :: "env \<Rightarrow> bk_vars stmt" where
  "b_poll E v t = (case transport_poll E (b_tr v) None t of None \<Rightarrow> None | Some ((r, x), u) \<Rightarrow> Some ((r, v), u))"

definition b_exchange :: "env \<Rightarrow> bk_vars stmt" where
  "b_exchange E = run_stmt (\<lambda>v. do {
     (r, tr, a, k) \<leftarrow> transport_exchange_buf E (b_tr v) (Some (sh_h (b_sb v))) (Some (b_remote_addr v)) (Some (b_rkey v));
     ret (r, v\<lparr>b_tr := tr, b_remote_addr := the a, b_rkey := the k\<rparr>) })"

text \<open>\<open>iter_start = time_now_ns(); if (i == kWarmup) bw_start = iter_start\<close>, and the sample of round \<open>i\<close>.\<close>

definition b_clock :: "env \<Rightarrow> int \<Rightarrow> bk_vars stmt" where
  "b_clock E i = do_clock E (\<lambda>now v. v\<lparr>b_start := now, b_bw_start := (if i = kWarmup then now else b_bw_start v)\<rparr>)"

definition b_sample :: "env \<Rightarrow> int \<Rightarrow> bk_vars stmt" where
  "b_sample E i = (if kWarmup \<le> i
     then do_clock E (\<lambda>now v. v\<lparr>b_samples := (b_samples v)[nat (i - kWarmup) := time_elapsed_ns (b_start v) now]\<rparr>)
     else skip)"

definition b_report :: "env \<Rightarrow> bk_config \<Rightarrow> bk_vars stmt" where
  "b_report E cfg = do_clock E (\<lambda>now v. v\<lparr>b_reports := b_reports v @
     [(latency_stats (sort (b_samples v)) (bk_iters cfg), time_elapsed_ns (b_bw_start v) now)]\<rparr>)"

text \<open>\<open>std::vector<uint64_t> latencies(cfg.iters)\<close>\<close>

definition b_latencies :: "bk_config \<Rightarrow> bk_vars stmt" where
  "b_latencies cfg v t = (if bk_iters cfg < 0 then Some ((-1, v), t)
     else Some ((0, v\<lparr>b_samples := replicate (nat (bk_iters cfg)) 0, b_bw_start := 0\<rparr>), t))"

subsection \<open>The round trip of sends\<close>

text \<open>\<open>int total_iters = kWarmup + cfg.iters\<close>, which overflows for a number above \<open>2 ^ 31 - 21\<close>.\<close>

definition bk_total :: "bk_config \<Rightarrow> int" where
  "bk_total cfg = c_int (kWarmup + bk_iters cfg)"

definition bk_prepost :: "bk_config \<Rightarrow> int" where
  "bk_prepost cfg = (if bk_is_rdma cfg then (if bk_total cfg < 8 then bk_total cfg else 8) else 0)"

definition b_prepost :: "env \<Rightarrow> bk_config \<Rightarrow> bk_vars stmt" where
  "b_prepost E cfg = for_each (\<lambda>j. b_recv E (word_of_int (bk_size cfg))) [0..bk_prepost cfg - 1]"

definition b_refill :: "env \<Rightarrow> bk_config \<Rightarrow> int \<Rightarrow> bk_vars stmt" where
  "b_refill E cfg i = (if c_int (i + bk_prepost cfg) < bk_total cfg then b_recv E (word_of_int (bk_size cfg)) else skip)"

definition sendrecv_server_iter :: "env \<Rightarrow> bk_config \<Rightarrow> int \<Rightarrow> bk_vars stmt" where
  "sendrecv_server_iter E cfg i =
     (let len = word_of_int (bk_size cfg)
      in if bk_is_rdma cfg then block [b_poll E, b_refill E cfg i, b_send E len, b_poll E]
         else block [b_recv E len, b_send E len])"

definition sendrecv_client_iter :: "env \<Rightarrow> bk_config \<Rightarrow> int \<Rightarrow> bk_vars stmt" where
  "sendrecv_client_iter E cfg i =
     (let len = word_of_int (bk_size cfg)
      in block [b_clock E i,
           if bk_is_rdma cfg then block [b_refill E cfg i, b_send E len, b_poll E, b_poll E]
           else block [b_send E len, b_recv E len],
           b_sample E i])"

definition run_server_sendrecv :: "env \<Rightarrow> bk_config \<Rightarrow> bk_vars stmt" where
  "run_server_sendrecv E cfg = block [
     b_op E (Op_listen (bk_port cfg)),
     b_aligned_init E (word_of_int (bk_size cfg)),
     b_sb_init E (word_of_int (bk_size cfg)),
     b_prepost E cfg,
     b_op E Op_accept,
     for_each (sendrecv_server_iter E cfg) [0..bk_total cfg - 1]]"

definition run_client_sendrecv :: "env \<Rightarrow> bk_config \<Rightarrow> bk_vars stmt" where
  "run_client_sendrecv E cfg = block [
     b_latencies cfg,
     b_op E (Op_connect (Some (bk_server_ip cfg)) (bk_port cfg)),
     b_aligned_init E (word_of_int (bk_size cfg)),
     b_sb_init E (word_of_int (bk_size cfg)),
     b_prepost E cfg,
     for_each (sendrecv_client_iter E cfg) [0..bk_total cfg - 1],
     b_report E cfg]"

subsection \<open>One-sided writes\<close>

definition b_size_check :: "bk_config \<Rightarrow> bk_vars stmt" where
  "b_size_check cfg v t = Some ((if bk_size cfg < 4 then -1 else 0, v), t)"

definition run_server_write :: "env \<Rightarrow> bk_config \<Rightarrow> bk_vars stmt" where
  "run_server_write E cfg = block [
     b_size_check cfg,
     b_op E (Op_listen (bk_port cfg)),
     b_aligned_init E (word_of_int (bk_size cfg)),
     b_sb_init E (word_of_int (bk_size cfg)),
     b_op E Op_accept,
     b_exchange E,
     do_spin E (\<lambda>v. bh_addr (sh_h (b_sb v)) + word_of_int (bk_size cfg) - 4) (\<lambda>n. (word_of_int n :: u32) = word_of_int (bk_total cfg))]"

definition write_iter :: "env \<Rightarrow> bk_config \<Rightarrow> int \<Rightarrow> bk_vars stmt" where
  "write_iter E cfg i =
     (let len = word_of_int (bk_size cfg)
      in block [do_event E (\<lambda>v. Store (the (b_block v) + len - 4) (u32_bytes (word_of_int (i + 1)))),
           b_clock E i,
           do_call (\<lambda>v. transport_write_async E (b_tr v) (b_mem v) (Some (sh_h (b_sb v))) (b_remote_addr v) (b_rkey v) len (word_of_int i) 0),
           b_poll E,
           b_sample E i])"

definition run_client_write :: "env \<Rightarrow> bk_config \<Rightarrow> bk_vars stmt" where
  "run_client_write E cfg = block [
     b_latencies cfg,
     b_size_check cfg,
     b_op E (Op_connect (Some (bk_server_ip cfg)) (bk_port cfg)),
     b_aligned_init E (word_of_int (bk_size cfg)),
     b_sb_init E (word_of_int (bk_size cfg)),
     b_exchange E,
     for_each (write_iter E cfg) [0..bk_total cfg - 1],
     b_report E cfg]"

subsection \<open>main\<close>

text \<open>The destructors of a test and then of its transport.\<close>

definition bk_out :: "env \<Rightarrow> bk_vars \<Rightarrow> (trace, unit) state" where
  "bk_out E v = do {
     _ \<leftarrow> shared_buffer_destroy E (b_sb v);
     _ \<leftarrow> (case b_block v of None \<Rightarrow> ret 0 | Some p \<Rightarrow> exec_call E (Free p));
     _ \<leftarrow> transport_close E (b_tr v);
     ret () }"

text \<open>A block of \<open>main\<close>: a new transport, a test with its own variables, and the way out.\<close>

definition bk_test :: "env \<Rightarrow> bool \<Rightarrow> bk_vars stmt \<Rightarrow> bk_vars stmt" where
  "bk_test E use_rdma body v t =
     (case body (v\<lparr>b_tr := create_transport use_rdma, b_sb := shared_buffer_new, b_block := None\<rparr>) t of None \<Rightarrow> None
      | Some ((r, v'), u) \<Rightarrow> Some ((r, v'), snd (run_state (bk_out E v') u)))"

definition backend_body :: "env \<Rightarrow> bk_config \<Rightarrow> bk_vars stmt" where
  "backend_body E cfg =
     (let is_server = (bk_server_ip cfg = []); cfg2 = cfg\<lparr>bk_port := bk_port cfg + 2\<rparr>
      in block [
        bk_test E (bk_is_rdma cfg) (if is_server then run_server_sendrecv E cfg else run_client_sendrecv E cfg),
        if bk_is_rdma cfg then bk_test E True (if is_server then run_server_write E cfg2 else run_client_write E cfg2) else skip])"

definition backend_compare :: "env \<Rightarrow> memory \<Rightarrow> string list \<Rightarrow> trace \<Rightarrow> ((int \<times> bk_vars) \<times> trace) option" where
  "backend_compare E m args t =
     (case bk_config_parse args bk_config_init of (r, cfg) \<Rightarrow>
        if r \<noteq> 0 then Some ((1, bk_vars_init m), t)
        else if bk_csv_header cfg then Some ((0, bk_vars_init m), t)
        else (case backend_body E cfg (bk_vars_init m) t of None \<Rightarrow> None
          | Some ((x, v), u) \<Rightarrow> Some ((if x \<noteq> 0 then 1 else 0, v), u)))"

section \<open>Nothing stays behind\<close>

text \<open>The variables hold exactly what was acquired, and \<open>Q\<close> holds of them.\<close>

definition bk_at ::
    "env \<Rightarrow> res multiset \<Rightarrow> (transport \<Rightarrow> shared_buffer \<Rightarrow> u64 option \<Rightarrow> bool) \<Rightarrow> bk_vars \<Rightarrow> trace \<Rightarrow> bool" where
  "bk_at E M Q v t \<longleftrightarrow> rdma_env_ok E t \<and> transport_inv M (b_tr v) \<and> Q (b_tr v) (b_sb v) (b_block v) \<and>
     live E t = M + transport_held (b_tr v) + shared_held (b_sb v) + block_held (b_block v)"

abbreviation bk_inv :: "env \<Rightarrow> res multiset \<Rightarrow> bk_vars \<Rightarrow> trace \<Rightarrow> bool" where
  "bk_inv E M \<equiv> bk_at E M (\<lambda>c b p. True)"

abbreviation bk_parts :: "bk_vars \<Rightarrow> transport \<times> shared_buffer \<times> u64 option" where
  "bk_parts v \<equiv> (b_tr v, b_sb v, b_block v)"

abbreviation bk_talks :: "bk_vars stmt \<Rightarrow> bool" where
  "bk_talks \<equiv> leaves bk_parts"

lemma bk_talks_triple: "bk_talks f \<Longrightarrow> triple (bk_at E M Q) f (bk_at E M Q) (bk_inv E M)"
proof (rule tripleI)
  fix v t r v' u assume f: "bk_talks f" and i: "bk_at E M Q v t" and s: "f v t = Some ((r, v'), u)"
  from leavesD [OF f s] adds_silent [of t u E] i have "bk_at E M Q v' u" by (simp add: bk_at_def rdma_env_ok_def)
  then show "if r = 0 then bk_at E M Q v' u else bk_inv E M v' u" by (simp add: bk_at_def)
qed

lemma bk_talks_simple:
  "bk_talks (b_send E n)" "bk_talks (b_recv E n)" "bk_talks (b_poll E)" "bk_talks (b_clock E i)" "bk_talks (b_sample E i)"
  "bk_talks (b_report E cfg)" "bk_talks (b_latencies cfg)" "bk_talks (b_size_check cfg)" "bk_talks (b_prepost E cfg)" "bk_talks (b_refill E cfg i)"
proof -
  show r: "bk_talks (b_recv E n)" for n
    unfolding b_recv_def by (rule leaves_run) (auto simp: run_simps split: prod.splits intro!: only_intros quiet_transport)
  show "bk_talks (b_send E n)" unfolding b_send_def by (intro leaves_call quiet_transport)
  show "bk_talks (b_poll E)" by (rule leavesI) (auto simp: b_poll_def split: option.splits dest: quiet_transport_poll)
  show "bk_talks (b_clock E i)" "bk_talks (b_sample E i)" "bk_talks (b_report E cfg)"
    unfolding b_clock_def b_sample_def b_report_def by (intro leaves_intros; simp)+
  show "bk_talks (b_latencies cfg)" "bk_talks (b_size_check cfg)"
    by (rule leavesI; auto simp: b_latencies_def b_size_check_def split: if_splits)+
  show "bk_talks (b_prepost E cfg)" "bk_talks (b_refill E cfg i)"
    unfolding b_prepost_def b_refill_def by (intro leaves_intros r)+
qed

lemma bk_talks_rounds:
  "bk_talks (sendrecv_server_iter E cfg i)" "bk_talks (sendrecv_client_iter E cfg i)" "bk_talks (write_iter E cfg i)"
  unfolding sendrecv_server_iter_def sendrecv_client_iter_def write_iter_def block_Cons block_Nil Let_def
  by (intro leaves_intros bk_talks_simple quiet_transport; simp)+

lemma triple_b_op:
  assumes "\<And>c b p. Q c b p \<Longrightarrow> transport_may op c"
    and "\<And>c b p t c' u. Q c b p \<Longrightarrow> run_state (transport_op E op c) t = ((0, c'), u) \<Longrightarrow> Q' c' b p"
  shows "triple (bk_at E M Q) (b_op E op) (bk_at E M Q') (bk_inv E M)"
proof (rule tripleI)
  fix v t r v' u assume i: "bk_at E M Q v t" and s: "b_op E op v t = Some ((r, v'), u)"
  then obtain c where c: "run_state (transport_op E op (b_tr v)) t = ((r, c), u)" "v' = v\<lparr>b_tr := c\<rparr>"
    by (auto simp: b_op_def run_stmt_def run_simps split: prod.splits)
  let ?N = "shared_held (b_sb v) + block_held (b_block v)"
  have q: "Q (b_tr v) (b_sb v) (b_block v)" using i by (simp add: bk_at_def)
  have n: "transport_inv (M + ?N) tr = transport_inv M tr" for tr by (rule transport_inv_more) (simp add: held_no_qp)
  have "live E t = (M + ?N) + transport_held (b_tr v)" using i by (simp add: bk_at_def ac_simps)
  from transports.step_spec [OF _ _ assms(1) [OF q] this c(1)] i n
  have k: "bk_inv E M v' u" by (simp add: bk_at_def c(2) ac_simps)
  moreover have "bk_at E M Q' v' u" if "r = 0" using k assms(2) [OF q, of t c u] c that by (simp add: bk_at_def)
  ultimately show "if r = 0 then bk_at E M Q' v' u else bk_inv E M v' u" by simp
qed

lemma triple_b_aligned:
  "triple (bk_at E M (\<lambda>c b p. p = None \<and> Q c b)) (b_aligned_init E n) (bk_at E M (\<lambda>c b p. Q c b)) (bk_inv E M)"
  by (rule tripleI) (auto simp: b_aligned_init_def run_stmt_def run_simps Let_def bk_at_def block_held_def rdma_env_ok_def split: if_splits)

lemma triple_b_sb:
  "triple (bk_at E M (\<lambda>c b p. b = shared_buffer_new \<and> Q c)) (b_sb_init E n) (bk_at E M (\<lambda>c b p. Q c)) (bk_inv E M)"
proof (rule tripleI)
  fix v t r v' u
  assume i: "bk_at E M (\<lambda>c b p. b = shared_buffer_new \<and> Q c) v t" and s: "b_sb_init E n v t = Some ((r, v'), u)"
  then obtain b where b: "run_state (shared_buffer_init E shared_buffer_new (b_tr v) (the (b_block v)) n) t = ((r, b), u)" "v' = v\<lparr>b_sb := b\<rparr>"
    by (auto simp: bk_at_def b_sb_init_def run_stmt_def run_simps split: prod.splits)
  have "r = 0 \<and> live E u = live E t + shared_held b \<or> r \<noteq> 0 \<and> live E u = live E t \<and> shared_held b = {#}"
    using shared_scoped.acquire_spec [of E "(b_tr v, the (b_block v), n)" t r b u] b(1) by simp
  moreover have "shared_held shared_buffer_new = {#}" by (simp add: shared_held_def shared_buffer_new_def)
  ultimately show "if r = 0 then bk_at E M (\<lambda>c b p. Q c) v' u else bk_inv E M v' u"
    using i b(2) shared_quiet(1) [OF b(1)] by (auto simp: bk_at_def rdma_env_ok_def ac_simps)
qed

lemma triple_b_exchange: "triple (bk_inv E M) (b_exchange E) (bk_inv E M) (bk_inv E M)"
proof (rule tripleI)
  fix v t r v' u assume i: "bk_inv E M v t" and s: "b_exchange E v t = Some ((r, v'), u)"
  then obtain d a k where d: "run_state (transport_exchange_buf E (b_tr v) (Some (sh_h (b_sb v))) (Some (b_remote_addr v)) (Some (b_rkey v))) t =
      ((r, d, a, k), u)" "b_tr v' = d" "b_sb v' = b_sb v" "b_block v' = b_block v"
    by (auto simp: b_exchange_def run_stmt_def run_simps split: prod.splits)
  from transport_exchange_frame [OF d(1), of M] i d(2-) show "if r = 0 then bk_inv E M v' u else bk_inv E M v' u"
    by (simp add: bk_at_def rdma_env_ok_def)
qed

subsection \<open>The tests\<close>

abbreviation bk_start :: "env \<Rightarrow> res multiset \<Rightarrow> bool \<Rightarrow> bk_vars \<Rightarrow> trace \<Rightarrow> bool" where
  "bk_start E M b \<equiv> bk_at E M (\<lambda>c s p. p = None \<and> s = shared_buffer_new \<and> c = create_transport b)"

abbreviation bk_listening :: "env \<Rightarrow> res multiset \<Rightarrow> bk_vars \<Rightarrow> trace \<Rightarrow> bool" where
  "bk_listening E M \<equiv> bk_at E M (\<lambda>c s p. p = None \<and> s = shared_buffer_new \<and> unconnected c)"

lemma listen_unconnected:
  assumes "unconnected c" and "run_state (transport_op E (Op_listen port) c) t = ((0, c'), u)"
  shows "unconnected c'"
  using assms by (cases c) (auto simp: unconnected_def transport_op_def tcp_op_def tcp_listen_def run_simps split: if_splits prod.splits)

lemma unconnected_may: "unconnected c \<Longrightarrow> transport_may Op_accept c" "unconnected c \<Longrightarrow> transport_may (Op_connect h port) c"
  by (cases c; simp add: unconnected_def transport_may_def tcp_may_def)+

lemma triple_b_listen: "triple (bk_start E M b) (b_op E (Op_listen port)) (bk_listening E M) (bk_inv E M)"
  by (rule triple_b_op) (auto simp: create_unconnected intro: listen_unconnected [OF create_unconnected(1)])

lemma triple_b_accept: "triple (bk_at E M (\<lambda>c s p. unconnected c)) (b_op E Op_accept) (bk_inv E M) (bk_inv E M)"
  by (rule triple_b_op) (auto simp: unconnected_may)

lemma triple_b_connect:
  "triple (bk_start E M b) (b_op E (Op_connect h port)) (bk_at E M (\<lambda>c s p. p = None \<and> s = shared_buffer_new \<and> True)) (bk_inv E M)"
  by (rule triple_b_op) (auto intro: unconnected_may create_unconnected)

lemmas bk_talk = bk_talks_simple [THEN bk_talks_triple, THEN triple_then]
  bk_talks_rounds [THEN leaves_for, THEN bk_talks_triple, THEN triple_then] leaves_spin [THEN bk_talks_triple, THEN triple_then]

lemma tests_safe:
  "triple (bk_start E M b) (run_server_sendrecv E cfg) (bk_inv E M) (bk_inv E M)"
  "triple (bk_start E M b) (run_client_sendrecv E cfg) (bk_inv E M) (bk_inv E M)"
  "triple (bk_start E M b) (run_server_write E cfg) (bk_inv E M) (bk_inv E M)"
  "triple (bk_start E M b) (run_client_write E cfg) (bk_inv E M) (bk_inv E M)"
  unfolding run_server_sendrecv_def run_client_sendrecv_def run_server_write_def run_client_write_def block_Cons block_Nil
  by (intro bk_talk triple_then [OF triple_b_listen] triple_then [OF triple_b_connect] triple_then [OF triple_b_aligned]
      triple_then [OF triple_b_sb] triple_then [OF triple_b_accept] triple_then [OF triple_b_exchange] triple_skip)+

lemma bk_out_spec:
  assumes "bk_inv E M v t"
  shows "live E (snd (run_state (bk_out E v) t)) = M \<and> rdma_env_ok E (snd (run_state (bk_out E v) t))"
proof -
  obtain b t1 where b: "run_state (shared_buffer_destroy E (b_sb v)) t = (b, t1)" by (metis surj_pair)
  obtain x t2 where f: "run_state (case b_block v of None \<Rightarrow> ret 0 | Some p \<Rightarrow> exec_call E (Free p)) t1 = (x, t2)" by (metis surj_pair)
  obtain d u where d: "run_state (transport_close E (b_tr v)) t2 = (d, u)" by (metis surj_pair)
  have "live E t1 = M + transport_held (b_tr v) + block_held (b_block v)" "rdma_env_ok E t1"
    using shared_scoped.release_spec [OF b] shared_quiet(2) [OF b] assms by (simp_all add: bk_at_def rdma_env_ok_def)
  then have "live E t2 = M + transport_held (b_tr v)" "rdma_env_ok E t2"
    using f by (auto simp: block_held_def run_simps rdma_env_ok_def split: option.splits)
  from transports.close_spec [OF this(2) _ this(1) d] assms show ?thesis
    by (simp add: bk_at_def bk_out_def run_simps b f d)
qed

definition bk_between :: "env \<Rightarrow> res multiset \<Rightarrow> bk_vars \<Rightarrow> trace \<Rightarrow> bool" where
  "bk_between E M v t \<longleftrightarrow> rdma_env_ok E t \<and> live E t = M"

lemma test_between:
  assumes "triple (bk_start E M b) body (bk_inv E M) (bk_inv E M)"
  shows "triple (bk_between E M) (bk_test E b body) (bk_between E M) (bk_between E M)"
proof (rule tripleI)
  fix v t r v' u assume i: "bk_between E M v t" and s: "bk_test E b body v t = Some ((r, v'), u)"
  let ?v = "v\<lparr>b_tr := create_transport b, b_sb := shared_buffer_new, b_block := None\<rparr>"
  obtain w where w: "body ?v t = Some ((r, v'), w)" "u = snd (run_state (bk_out E v') w)"
    using s by (auto simp: bk_test_def split: option.splits)
  have "bk_start E M b ?v t"
    using i create_held by (simp add: bk_at_def bk_between_def shared_held_def shared_buffer_new_def block_held_def)
  from tripleD [OF assms this w(1)] have "bk_inv E M v' w" by (simp split: if_splits)
  from bk_out_spec [OF this] w(2) show "if r = 0 then bk_between E M v' u else bk_between E M v' u" by (simp add: bk_between_def)
qed

end
