(* ===== verification/Backend_Flow.thy ===== *)
theory Backend_Flow
  imports Backend_Compare "HOL-Library.Sublist"
begin

text \<open>
  The flow of the transport benchmark over RDMA: in the round trip of sends a receive is always
  posted before the send it answers, and in the test of one-sided writes the doorbell, the post and
  the completion of each round alternate, so the value the server waits for is written by the last
  round and by no earlier one.
\<close>

section \<open>The transport stays what it is\<close>

definition over_rdma :: "bk_vars \<Rightarrow> trace \<Rightarrow> bool" where
  "over_rdma v t \<longleftrightarrow> (\<exists>x. b_tr v = RdmaT x)"

lemma over_rdma_leaves: "bk_talks f \<Longrightarrow> preserves over_rdma f"
  by (rule preservesI) (auto simp: over_rdma_def dest: leavesD)

lemma over_rdma_op: "preserves over_rdma (b_op E op)"
  unfolding b_op_def by (rule preserves_run) (auto simp: over_rdma_def transport_op_def run_simps split: prod.splits)

lemma over_rdma_acquire: "preserves over_rdma (b_aligned_init E n)" "preserves over_rdma (b_sb_init E n)" "preserves over_rdma (b_exchange E)"
  unfolding b_aligned_init_def b_sb_init_def b_exchange_def
  by (rule preserves_run; auto simp: over_rdma_def transport_exchange_buf_def run_simps split: prod.splits if_splits transport.splits)+

text \<open>A triple over the transport that stays.\<close>

definition on_rdma :: "(bk_vars \<Rightarrow> trace \<Rightarrow> bool) \<Rightarrow> bk_vars \<Rightarrow> trace \<Rightarrow> bool" where
  "on_rdma I v t \<longleftrightarrow> I v t \<and> over_rdma v t"

lemma on_rdmaI: "triple I f J K \<Longrightarrow> preserves over_rdma f \<Longrightarrow> triple (on_rdma I) f (on_rdma J) K"
  unfolding triple_def preserves_def on_rdma_def by (auto split: if_splits) blast+

lemma reaches_rdma: "reaches I f J K \<Longrightarrow> preserves over_rdma f \<Longrightarrow> reaches (on_rdma I) f (on_rdma J) K"
  unfolding reaches_def preserves_def on_rdma_def by metis

section \<open>Calls that move nothing\<close>

text \<open>A call that rings no doorbell and looks at none, posts nothing and asks for no completion.\<close>

fun still :: "call \<Rightarrow> bool" where
  "still (Store a bs) = False"
| "still (Load a) = False"
| "still c = (\<not> transfer c)"

lemma still_transfer: "still c \<Longrightarrow> \<not> transfer c"
  by (cases c) simp_all

lemma control_still: "\<not> data_call c \<Longrightarrow> still c"
  by (cases c) simp_all

lemma control_class: "control (transport_op E op tr)" "control (transport_reg_buf E tr a n h)" "control (transport_exchange_buf E tr h a' k)"
  unfolding transport_op_def transport_reg_buf_def rdma_reg_buf_def transport_exchange_buf_def tcp_exchange_buf_def
    tcp_send_all_def tcp_recv_all_def Let_def
  by (intro only_transport only_intros control_transports control_mr; simp)+

lemma still_statements:
  "idle still (b_op E op)" "idle still (b_aligned_init E n)" "idle still (b_sb_init E n)" "idle still (b_exchange E)" "idle still (b_clock E i)"
  "idle still (b_sample E i)" "idle still (b_report E cfg)" "idle still (b_latencies cfg)" "idle still (b_size_check cfg)"
proof -
  show "idle still (b_op E op)" "idle still (b_aligned_init E n)" "idle still (b_sb_init E n)" "idle still (b_exchange E)"
    unfolding b_op_def b_aligned_init_def b_sb_init_def shared_buffer_init_def b_exchange_def
    by (intro idle_run only_intros control_class [THEN only_mono]; simp add: control_still)+
  show "idle still (b_clock E i)" "idle still (b_report E cfg)" "idle still (b_sample E i)"
    unfolding b_clock_def b_sample_def b_report_def by (auto intro: idle_simple)
  show "idle still (b_latencies cfg)" "idle still (b_size_check cfg)"
    by (auto simp: idle_def b_latencies_def b_size_check_def)
qed

lemmas idle_statements = still_statements [THEN idle_mono, OF still_transfer]

section \<open>Receives ahead of sends\<close>

lemmas bflow_idle = idle_statements [THEN flow_idle]

lemma bflow_recv: "triple (on_rdma (flow s k)) (b_recv E n) (on_rdma (flow s (k + 1))) flow_any"
  by (rule tripleI) (auto simp: on_rdma_def over_rdma_def flow_def flow_any_def b_recv_def run_stmt_def transport_recv_async_def
      rdma_recv_async_def rai_post_recv_def run_simps split: option.splits if_splits)

lemma bflow_send: "s < k \<Longrightarrow> triple (on_rdma (flow s k)) (b_send E n) (on_rdma (flow (s + 1) k)) flow_any"
  by (rule tripleI) (auto simp: on_rdma_def over_rdma_def flow_def flow_any_def b_send_def do_call_def transport_send_async_def
      rdma_send_async_def rai_post_send_def run_simps split: option.splits if_splits)

lemma bflow_poll: "triple (on_rdma (flow s k)) (b_poll E) (on_rdma (flow s k)) flow_any"
proof (rule tripleI)
  fix v v' t r u assume i: "on_rdma (flow s k) v t" and p: "b_poll E v t = Some ((r, v'), u)"
  then obtain x where x: "b_tr v = RdmaT x" "v' = v" by (auto simp: on_rdma_def over_rdma_def b_poll_def split: option.splits)
  with p have "u = t \<or> (\<exists>y. poll_loop E (q_cq (rt_qp x)) t = Some (y, u))"
    by (auto simp: b_poll_def transport_poll_def rdma_poll_def rai_poll_cq_def split: option.splits if_splits)
  then have "flow s k v u" using flow_polled i by (auto simp: on_rdma_def)
  then show "if r = 0 then on_rdma (flow s k) v' u else flow_any v' u"
    using i x by (auto simp: on_rdma_def over_rdma_def flow_def flow_any_def)
qed

lemma bflow_step:
  assumes "idle (\<lambda>c. \<not> transfer c) f" and "preserves over_rdma f"
  shows "triple (on_rdma (flow s k)) f (on_rdma (flow s k)) flow_any"
  by (rule on_rdmaI [OF flow_idle [OF assms(1)] assms(2)])

lemmas bflow_talk = bflow_step [OF idle_statements(5) over_rdma_leaves [OF bk_talks_simple(4)]]
  bflow_step [OF idle_statements(6) over_rdma_leaves [OF bk_talks_simple(5)]]
  bflow_step [OF idle_statements(7) over_rdma_leaves [OF bk_talks_simple(6)]]
  bflow_step [OF idle_statements(8) over_rdma_leaves [OF bk_talks_simple(7)]]
  bflow_step [OF idle_statements(1) over_rdma_op] bflow_step [OF idle_statements(2) over_rdma_acquire(1)]
  bflow_step [OF idle_statements(3) over_rdma_acquire(2)]

text \<open>The numbers of rounds for which no \<open>int\<close> of the programs overflows.\<close>

lemma bk_total_fits: "0 \<le> kWarmup + bk_iters cfg \<Longrightarrow> kWarmup + bk_iters cfg < 2 ^ 31 \<Longrightarrow> bk_total cfg = kWarmup + bk_iters cfg"
  by (simp add: bk_total_def)

definition bk_roomy :: "bk_config \<Rightarrow> bool" where
  "bk_roomy cfg \<longleftrightarrow> bk_is_rdma cfg \<and> 0 \<le> kWarmup + bk_iters cfg \<and> kWarmup + bk_iters cfg + 8 \<le> 2 ^ 31"

lemma bk_roomy_facts:
  assumes "bk_roomy cfg"
  shows "bk_total cfg = kWarmup + bk_iters cfg" "0 \<le> bk_total cfg" "0 \<le> bk_prepost cfg"
    and "0 \<le> i \<Longrightarrow> i < bk_total cfg \<Longrightarrow> c_int (i + bk_prepost cfg) = i + bk_prepost cfg"
proof -
  show t: "bk_total cfg = kWarmup + bk_iters cfg" by (rule bk_total_fits) (use assms in \<open>simp_all add: bk_roomy_def\<close>)
  with assms show n: "0 \<le> bk_total cfg" by (simp add: bk_roomy_def)
  then show p: "0 \<le> bk_prepost cfg" by (simp add: bk_prepost_def)
  have "bk_prepost cfg \<le> 8" by (simp add: bk_prepost_def)
  then show "c_int (i + bk_prepost cfg) = i + bk_prepost cfg" if "0 \<le> i" "i < bk_total cfg"
    by (intro c_int_id) (use that p t assms in \<open>auto simp: bk_roomy_def\<close>)
qed

text \<open>The receives posted before round \<open>i\<close>.\<close>

abbreviation armed :: "bk_config \<Rightarrow> int \<Rightarrow> int" where
  "armed cfg i \<equiv> min (i + bk_prepost cfg) (bk_total cfg)"

lemma bflow_refill:
  assumes "bk_roomy cfg" and "0 \<le> i" "i < bk_total cfg"
  shows "triple (on_rdma (flow i (armed cfg i))) (b_refill E cfg i) (on_rdma (flow i (armed cfg (i + 1)))) flow_any"
proof (cases "i + bk_prepost cfg < bk_total cfg")
  case True
  then have "armed cfg (i + 1) = armed cfg i + 1" by simp
  with True bflow_recv [of i "armed cfg i"] show ?thesis by (simp add: b_refill_def bk_roomy_facts(4) [OF assms] ac_simps)
next
  case False
  then have "armed cfg (i + 1) = armed cfg i" by simp
  with False triple_skip [of "on_rdma (flow i (armed cfg i))"] show ?thesis by (simp add: b_refill_def bk_roomy_facts(4) [OF assms])
qed

lemma bflow_prepost:
  assumes "0 \<le> bk_prepost cfg"
  shows "triple (on_rdma (flow 0 0)) (b_prepost E cfg) (on_rdma (flow 0 (bk_prepost cfg))) flow_any"
  unfolding b_prepost_def
  using triple_upto [of 0 "bk_prepost cfg - 1" "\<lambda>i. on_rdma (flow 0 i)" "\<lambda>j. b_recv E (word_of_int (bk_size cfg))" flow_any] bflow_recv assms
  by simp

lemma bflow_rounds:
  assumes "bk_roomy cfg" and "0 \<le> i" "i < bk_total cfg"
  shows "triple (on_rdma (flow i (armed cfg i))) (sendrecv_server_iter E cfg i) (on_rdma (flow (i + 1) (armed cfg (i + 1)))) flow_any"
    and "triple (on_rdma (flow i (armed cfg i))) (sendrecv_client_iter E cfg i) (on_rdma (flow (i + 1) (armed cfg (i + 1)))) flow_any"
proof -
  have r: "bk_is_rdma cfg" using assms(1) by (simp add: bk_roomy_def)
  have "1 \<le> bk_prepost cfg" using assms(2,3) r by (auto simp: bk_prepost_def)
  then have send: "triple (on_rdma (flow i (armed cfg (i + 1)))) (b_send E n) (on_rdma (flow (i + 1) (armed cfg (i + 1)))) flow_any" for n
    by (intro bflow_send) (use assms(3) in auto)
  show "triple (on_rdma (flow i (armed cfg i))) (sendrecv_server_iter E cfg i) (on_rdma (flow (i + 1) (armed cfg (i + 1)))) flow_any"
    unfolding sendrecv_server_iter_def Let_def if_P [OF r] block_Cons block_Nil
    by (intro triple_then [OF bflow_poll] triple_then [OF bflow_refill [OF assms]] triple_then [OF send] triple_skip)
  show "triple (on_rdma (flow i (armed cfg i))) (sendrecv_client_iter E cfg i) (on_rdma (flow (i + 1) (armed cfg (i + 1)))) flow_any"
    unfolding sendrecv_client_iter_def Let_def if_P [OF r] block_Cons block_Nil
    by (rule triple_then [OF bflow_talk(1) triple_then [OF triple_then [OF bflow_refill [OF assms] triple_then [OF send triple_then [OF bflow_poll
        triple_then [OF bflow_poll triple_skip]]]] triple_then [OF bflow_talk(2) triple_skip]]])
qed

lemma bflow_loops:
  assumes "bk_roomy cfg"
  shows "triple (on_rdma (flow 0 (bk_prepost cfg))) (for_each (sendrecv_server_iter E cfg) [0..bk_total cfg - 1])
      (on_rdma (flow (bk_total cfg) (bk_total cfg))) flow_any"
    and "triple (on_rdma (flow 0 (bk_prepost cfg))) (for_each (sendrecv_client_iter E cfg) [0..bk_total cfg - 1])
      (on_rdma (flow (bk_total cfg) (bk_total cfg))) flow_any"
proof -
  have e: "armed cfg 0 = bk_prepost cfg" "armed cfg (bk_total cfg) = bk_total cfg" "0 \<le> bk_total cfg"
    using bk_roomy_facts(2) [OF assms] by (auto simp: bk_prepost_def)
  show "triple (on_rdma (flow 0 (bk_prepost cfg))) (for_each (sendrecv_server_iter E cfg) [0..bk_total cfg - 1])
      (on_rdma (flow (bk_total cfg) (bk_total cfg))) flow_any"
    using triple_upto [of 0 "bk_total cfg - 1" "\<lambda>i. on_rdma (flow i (armed cfg i))" "sendrecv_server_iter E cfg" flow_any]
      bflow_rounds(1) [OF assms] e by simp
  show "triple (on_rdma (flow 0 (bk_prepost cfg))) (for_each (sendrecv_client_iter E cfg) [0..bk_total cfg - 1])
      (on_rdma (flow (bk_total cfg) (bk_total cfg))) flow_any"
    using triple_upto [of 0 "bk_total cfg - 1" "\<lambda>i. on_rdma (flow i (armed cfg i))" "sendrecv_client_iter E cfg" flow_any]
      bflow_rounds(2) [OF assms] e by simp
qed

lemma bflow_tests:
  assumes "bk_roomy cfg"
  shows "triple (on_rdma (flow 0 0)) (run_server_sendrecv E cfg) (on_rdma (flow (bk_total cfg) (bk_total cfg))) flow_any"
    and "triple (on_rdma (flow 0 0)) (run_client_sendrecv E cfg) (on_rdma (flow (bk_total cfg) (bk_total cfg))) flow_any"
proof -
  note i = bflow_talk [THEN triple_then] triple_then [OF bflow_prepost [OF bk_roomy_facts(3) [OF assms]]]
  show "triple (on_rdma (flow 0 0)) (run_server_sendrecv E cfg) (on_rdma (flow (bk_total cfg) (bk_total cfg))) flow_any"
    unfolding run_server_sendrecv_def block_Cons block_Nil
    by (intro i triple_then [OF bflow_loops(1) [OF assms]] triple_skip)
  show "triple (on_rdma (flow 0 0)) (run_client_sendrecv E cfg) (on_rdma (flow (bk_total cfg) (bk_total cfg))) flow_any"
    unfolding run_client_sendrecv_def block_Cons block_Nil
    by (intro i triple_then [OF bflow_loops(2) [OF assms]] triple_skip)
qed

section \<open>Doorbells\<close>

text \<open>The beats of a history, in order: a doorbell stored, a write posted, a completion seen.\<close>

datatype beat = Bell "byte list" | Posted | Seen

fun beat_of :: "event \<Rightarrow> beat list" where
  "beat_of (Store a bs, r, d) = [Bell bs]"
| "beat_of (Post_send q w, r, d) = (if r = 0 then [Posted] else [])"
| "beat_of (Poll_cq q, r, d) = (if 0 < r then [Seen] else [])"
| "beat_of e = []"

definition beats :: "trace \<Rightarrow> beat list" where
  "beats t = concat (map beat_of (rev t))"

text \<open>The number of a round as it stands in memory.\<close>

definition bell :: "int \<Rightarrow> byte list" where
  "bell j = u32_bytes (word_of_int j)"

text \<open>The rounds before number \<open>i\<close>, each with its own number.\<close>

definition write_rounds :: "int \<Rightarrow> beat list" where
  "write_rounds i = concat (map (\<lambda>j. [Bell (bell j), Posted, Seen]) [1..i])"

text \<open>The doorbells looked at in a history, oldest first, each with its address.\<close>

fun load_of :: "event \<Rightarrow> (u64 \<times> byte list) list" where
  "load_of (Load a, n, d) = [(a, bell n)]"
| "load_of e = []"

definition loads :: "trace \<Rightarrow> (u64 \<times> byte list) list" where
  "loads t = concat (map load_of (rev t))"

lemma loads_simps [simp]: "loads [] = []" "loads (e # t) = loads t @ load_of e"
  by (simp_all add: loads_def)

lemma beats_simps [simp]: "beats [] = []" "beats (e # t) = beats t @ beat_of e"
  by (simp_all add: beats_def)

lemma write_rounds_next: "0 \<le> i \<Longrightarrow> write_rounds (i + 1) = write_rounds i @ [Bell (bell (i + 1)), Posted, Seen]"
  using upto_rec2 [of 1 "i + 1"] by (simp add: write_rounds_def)

lemma write_rounds_prefix: "i \<le> n \<Longrightarrow> prefix (write_rounds i) (write_rounds n)"
proof (cases "1 \<le> i")
  case True
  assume "i \<le> n"
  then have "[1..n] = [1..i] @ [i + 1..n]" using upto_split1 [of 1 "i + 1" n] True by (cases "i = n") simp_all
  then show ?thesis by (simp add: write_rounds_def)
qed (simp add: write_rounds_def)

lemma still_beats: "adds still t u \<Longrightarrow> beats u = beats t \<and> loads u = loads t"
proof -
  assume "adds still t u"
  then obtain s where s: "u = s @ t" "\<forall>e \<in> set s. still (fst e)" by (auto simp: adds_def)
  have "beat_of (c, r, d) = [] \<and> load_of (c, r, d) = []" if "still c" for c r d using that by (cases c) simp_all
  with s(2) have "beats (s @ t) = beats t \<and> loads (s @ t) = loads t" by (induction s) auto
  with s(1) show ?thesis by simp
qed

text \<open>\<open>n\<close> whole rounds and the beats \<open>bs\<close> of the next one; \<open>s\<close> writes posted and \<open>k\<close> completions seen.\<close>

definition wst :: "int \<Rightarrow> beat list \<Rightarrow> int \<Rightarrow> int \<Rightarrow> bk_vars \<Rightarrow> trace \<Rightarrow> bool" where
  "wst n bs s k v t \<longleftrightarrow> beats t = write_rounds n @ bs \<and> sends t = s \<and> reaped t = k"

definition wbad :: "int \<Rightarrow> bk_vars \<Rightarrow> trace \<Rightarrow> bool" where
  "wbad n v t \<longleftrightarrow> prefix (beats t) (write_rounds n)"

lemma wst_wbad: "wst i bs s k v t \<Longrightarrow> prefix (write_rounds i @ bs) (write_rounds n) \<Longrightarrow> wbad n v' t"
  by (simp add: wst_def wbad_def)

lemma wst_idle:
  assumes "idle still f" and "prefix (write_rounds i @ bs) (write_rounds n)"
  shows "reaches (wst i bs s k) f (wst i bs s k) (wbad n)"
  unfolding reaches_def
proof (intro allI impI)
  fix v t assume w: "wst i bs s k v t"
  obtain r v' u where f: "f v t = Some ((r, v'), u)" "adds still t u" using assms(1) unfolding idle_def by blast
  from still_beats [OF f(2)] adds_counts [OF adds_mono [OF f(2) still_transfer], of 0] w have "wst i bs s k v' u" by (simp add: wst_def)
  with wst_wbad [OF this assms(2)] f(1) show "\<exists>r v' u. f v t = Some ((r, v'), u) \<and> (if r = 0 then wst i bs s k v' u else wbad n v' u)"
    by auto
qed

lemma wst_bell:
  "reaches (wst i [] s k) (do_event E (\<lambda>v. Store (a v) bs)) (wst i [Bell bs] s k) (wbad n)"
  by (auto simp: reaches_def wst_def do_event_def)

lemma wst_post:
  assumes "prefix (write_rounds i @ bs) (write_rounds n)"
  shows "reaches (on_rdma (wst i bs s k)) (do_call (\<lambda>v. transport_write_async E (b_tr v) (b_mem v) (h v) (a v) (b v) len wid off))
    (on_rdma (wst i (bs @ [Posted]) (s + 1) k)) (wbad n)"
proof (rule reachesI [OF _ returns_from_all [OF returns_simple(1)]], rule tripleI)
  fix v v' t r u
  assume i: "on_rdma (wst i bs s k) v t"
    and c: "do_call (\<lambda>v. transport_write_async E (b_tr v) (b_mem v) (h v) (a v) (b v) len wid off) v t = Some ((r, v'), u)"
  then obtain x where x: "b_tr v = RdmaT x" by (auto simp: on_rdma_def over_rdma_def)
  with c i have "r = 0 \<and> on_rdma (wst i (bs @ [Posted]) (s + 1) k) v' u \<or> r \<noteq> 0 \<and> beats u = beats t"
    by (auto simp: on_rdma_def over_rdma_def wst_def do_call_def transport_write_async_def rdma_write_async_def rai_post_write_def run_simps
        split: option.splits if_splits)
  then show "if r = 0 then on_rdma (wst i (bs @ [Posted]) (s + 1) k) v' u else wbad n v' u"
    using i assms by (auto simp: on_rdma_def wst_def wbad_def)
qed

lemma wst_polled:
  assumes "poll_loop E cq t = Some (x, u)" and "wst i bs s k v t"
  shows "wst i bs s k v u \<and> fst x \<noteq> 0 \<or> wst i (bs @ [Seen]) s (k + 1) v u"
proof -
  have "wst i bs s k v t \<longrightarrow> wst i bs s k v (snd (x, u)) \<and> fst (fst (x, u)) \<noteq> 0 \<or> wst i (bs @ [Seen]) s (k + 1) v (snd (x, u))"
  proof (rule poll_loop.raw_induct [OF _ assms(1)], goal_cases)
    case (1 loop E cq t y)
    let ?n = "e_ret E t (Poll_cq cq)"
    let ?t = "(Poll_cq cq, ?n, e_data E t (Poll_cq cq)) # t"
    consider "?n < 0" | "0 < ?n" | "?n = 0" by linarith
    then show ?case
    proof cases
      case 3
      then have "loop E cq ?t = Some y" using 1(2) by simp
      moreover have "wst i bs s k v t \<longrightarrow> wst i bs s k v ?t" using 3 by (simp add: wst_def)
      ultimately show ?thesis using 1(1) by blast
    qed (use 1(2) in \<open>auto simp: Let_def wst_def split: if_splits\<close>)
  qed
  with assms(2) show ?thesis by simp
qed

lemma wst_poll:
  assumes "poll_live E" and "k < s" and "prefix (write_rounds i @ bs @ [Seen]) (write_rounds n)"
  shows "reaches (on_rdma (wst i bs s k)) (b_poll E) (on_rdma (wst i (bs @ [Seen]) s (k + 1))) (wbad n)"
proof -
  have p: "prefix (write_rounds i @ bs) (write_rounds n)" using assms(3) by (metis append.assoc append_prefixD)
  show ?thesis
    unfolding reaches_def
  proof (intro allI impI)
    fix v t assume o: "on_rdma (wst i bs s k) v t"
    then obtain x where x: "b_tr v = RdmaT x" and w: "wst i bs s k v t" by (auto simp: on_rdma_def over_rdma_def)
    let ?cq = "q_cq (rt_qp x)"
    have "0 < sends t - reaped t" using w assms(2) by (simp add: wst_def)
    then obtain r j u where l: "poll_loop E ?cq t = Some ((r, j), u)" using poll_live_returns [OF assms(1)] by (metis not_Some_eq surj_pair)
    show "\<exists>r v' u. b_poll E v t = Some ((r, v'), u) \<and> (if r = 0 then on_rdma (wst i (bs @ [Seen]) s (k + 1)) v' u else wbad n v' u)"
    proof (cases "?cq = 0")
      case True
      with x wst_wbad [OF w p] show ?thesis by (simp add: b_poll_def transport_poll_def rdma_poll_def rai_poll_cq_def)
    next
      case False
      with x l have "b_poll E v t = Some ((r, v), u)" by (simp add: b_poll_def transport_poll_def rdma_poll_def rai_poll_cq_def)
      moreover have "if r = 0 then on_rdma (wst i (bs @ [Seen]) s (k + 1)) v u else wbad n v u"
        using wst_polled [OF l w] wst_wbad [OF _ p] wst_wbad [OF _ assms(3)] x by (auto simp: on_rdma_def over_rdma_def)
      ultimately show ?thesis by blast
    qed
  qed
qed

lemma wst_round:
  assumes "poll_live E" and "0 \<le> i" "i < bk_total cfg"
  shows "reaches (on_rdma (wst i [] i i)) (write_iter E cfg i) (on_rdma (wst (i + 1) [] (i + 1) (i + 1))) (wbad (bk_total cfg))"
proof -
  let ?n = "bk_total cfg" and ?b = "Bell (bell (i + 1))"
  have u: "u32_bytes (word_of_int (i + 1)) = bell (i + 1)" by (simp add: bell_def)
  have p: "prefix (write_rounds i @ [?b, Posted, Seen]) (write_rounds ?n)"
    using write_rounds_prefix [of "i + 1" ?n] write_rounds_next [OF assms(2)] assms(3) by simp
  then have p': "prefix (write_rounds i @ [?b]) (write_rounds ?n)"
    by (metis append.assoc append_Cons append_Nil append_prefixD)
  have e: "wst i [?b, Posted, Seen] s k = wst (i + 1) [] s k" for s k
    by (intro ext) (simp add: wst_def write_rounds_next [OF assms(2)])
  have pn: "prefix (write_rounds (i + 1) @ []) (write_rounds ?n)" using write_rounds_prefix [of "i + 1" ?n] assms(3) by simp
  note bell = reaches_rdma [OF wst_bell [of i i i E _ _ ?n] over_rdma_leaves [OF leaves_event]]
  note post = wst_post [OF p', of i i E]
  have poll: "reaches (on_rdma (wst i [?b, Posted] (i + 1) i)) (b_poll E) (on_rdma (wst (i + 1) [] (i + 1) (i + 1))) (wbad ?n)"
    unfolding e [symmetric] using wst_poll [OF assms(1), of i "i + 1" i "[?b, Posted]" ?n] p by simp
  show ?thesis
    unfolding write_iter_def Let_def block_Cons block_Nil u
    apply (rule reaches_then [OF bell], simp)
    apply (rule reaches_then [OF reaches_rdma [OF wst_idle [OF still_statements(5) p'] over_rdma_leaves [OF bk_talks_simple(4)]]])
    apply (rule reaches_then [OF post])
    apply (rule reaches_then [of _ _ "on_rdma (wst (i + 1) [] (i + 1) (i + 1))"])
    subgoal using poll by simp
    by (rule reaches_then [OF reaches_rdma [OF wst_idle [OF still_statements(6) pn] over_rdma_leaves [OF bk_talks_simple(5)]] reaches_skip])
qed

lemma wst_client:
  assumes "poll_live E" and "0 \<le> bk_total cfg"
  shows "reaches (on_rdma (wst 0 [] 0 0)) (run_client_write E cfg) (on_rdma (wst (bk_total cfg) [] (bk_total cfg) (bk_total cfg))) (wbad (bk_total cfg))"
proof -
  let ?n = "bk_total cfg"
  have i: "reaches (on_rdma (wst m [] m m)) f (on_rdma (wst m [] m m)) (wbad ?n)"
    if "idle still f" "preserves over_rdma f" "m \<le> ?n" for f m
    using reaches_rdma [OF wst_idle [OF that(1)] that(2)] write_rounds_prefix [OF that(3)] by simp
  have l: "reaches (on_rdma (wst 0 [] 0 0)) (for_each (write_iter E cfg) [0..?n - 1]) (on_rdma (wst ?n [] ?n ?n)) (wbad ?n)"
    using reaches_upto [of 0 "?n - 1" "\<lambda>j. on_rdma (wst j [] j j)" "write_iter E cfg" "wbad ?n"] wst_round [OF assms(1)] assms(2) by simp
  note talk = over_rdma_leaves [OF bk_talks_simple(7)] over_rdma_leaves [OF bk_talks_simple(8)] over_rdma_leaves [OF bk_talks_simple(6)]
  show ?thesis
    unfolding run_client_write_def block_Cons block_Nil
    by (intro reaches_then [OF i] reaches_then [OF l] reaches_skip still_statements talk over_rdma_op over_rdma_acquire order.refl assms(2))
qed

lemma rdma_start: "over_rdma ((bk_vars_init m)\<lparr>b_tr := create_transport True\<rparr>) t"
  by (simp add: over_rdma_def create_transport_def)

lemma bell_eq: "bell m = bell n \<longleftrightarrow> (word_of_int m :: u32) = word_of_int n"
  by (auto simp: bell_def) (metis u32_round)

lemma bell_differs: "0 \<le> j \<Longrightarrow> j < n \<Longrightarrow> n < 2 ^ 32 \<Longrightarrow> bell j \<noteq> bell n"
proof
  assume j: "0 \<le> j" "j < n" "n < 2 ^ 32" and "bell j = bell n"
  then have "uint (word_of_int j :: u32) = uint (word_of_int n :: u32)" by (simp add: bell_eq)
  with j show False by (simp add: uint_word_of_int take_bit_int_eq_self)
qed

section \<open>The server\<close>

text \<open>The history after \<open>k\<close> looks at a doorbell.\<close>

primrec peeks :: "env \<Rightarrow> u64 \<Rightarrow> nat \<Rightarrow> trace \<Rightarrow> trace" where
  "peeks E a 0 t = t"
| "peeks E a (Suc k) t = peeks E a k ((Load a, e_ret E t (Load a), e_data E t (Load a)) # t)"

text \<open>The doorbell \<open>b\<close> shows up after some looks.\<close>

definition lands :: "env \<Rightarrow> byte list \<Rightarrow> bool" where
  "lands E b \<longleftrightarrow> (\<forall>t a. \<exists>k. bell (e_ret E (peeks E a k t) (Load a)) = b)"

lemma spin_ends: "P (e_ret E (peeks E a k t) (Load a)) \<Longrightarrow> spin E a P t \<noteq> None"
  by (induction k arbitrary: t) (subst spin.simps, simp add: Let_def)+

lemma spin_loads:
  assumes "spin E a P t = Some u"
  shows "\<exists>ns n. loads u = loads t @ map (\<lambda>m. (a, bell m)) (ns @ [n]) \<and> (\<forall>m \<in> set ns. \<not> P m) \<and> P n"
proof (rule spin.raw_induct [OF _ assms], goal_cases)
  case (1 loop E a P t u)
  let ?n = "e_ret E t (Load a)" and ?t = "(Load a, e_ret E t (Load a), e_data E t (Load a)) # t"
  show ?case
  proof (cases "P ?n")
    case True
    with 1(2) have "loads u = loads t @ map (\<lambda>m. (a, bell m)) ([] @ [?n])" by (auto simp: Let_def)
    with True show ?thesis by (metis empty_iff empty_set)
  next
    case False
    with 1(2) have "loop E a P ?t = Some u" by (simp add: Let_def)
    then obtain ns n where "loads u = loads ?t @ map (\<lambda>m. (a, bell m)) (ns @ [n])" "\<forall>m \<in> set ns. \<not> P m" "P n" using 1(1) by blast
    with False show ?thesis by (intro exI [of _ "?n # ns"] exI [of _ n]) simp
  qed
qed

abbreviation unseen :: "bk_vars \<Rightarrow> trace \<Rightarrow> bool" where
  "unseen v t \<equiv> loads t = []"

text \<open>The server has looked at the last four bytes of its region, and seen the number of the last round last and not before.\<close>

definition rung :: "bk_config \<Rightarrow> bk_vars \<Rightarrow> trace \<Rightarrow> bool" where
  "rung cfg v t \<longleftrightarrow> (\<exists>xs. loads t = map (Pair (bh_addr (sh_h (b_sb v)) + word_of_int (bk_size cfg) - 4)) (xs @ [bell (bk_total cfg)]) \<and>
     bell (bk_total cfg) \<notin> set xs)"

lemma unseen_still: "idle still f \<Longrightarrow> triple unseen f unseen (\<lambda>v t. True)"
proof (rule tripleI)
  fix v t r v' u assume "idle still f" "loads t = []" "f v t = Some ((r, v'), u)"
  moreover from this obtain x w s where "f v t = Some ((x, w), s)" "adds still t s" unfolding idle_def by blast
  ultimately show "if r = 0 then loads u = [] else True" using still_beats by auto
qed

lemma rung_spin:
  "triple unseen (do_spin E (\<lambda>v. bh_addr (sh_h (b_sb v)) + word_of_int (bk_size cfg) - 4) (\<lambda>n. (word_of_int n :: u32) = word_of_int (bk_total cfg)))
     (rung cfg) (\<lambda>v t. True)"
proof (rule tripleI)
  let ?a = "\<lambda>v :: bk_vars. bh_addr (sh_h (b_sb v)) + word_of_int (bk_size cfg) - 4"
  fix v :: bk_vars and t r v' u
  assume i: "loads t = []" and d: "do_spin E ?a (\<lambda>n. (word_of_int n :: u32) = word_of_int (bk_total cfg)) v t = Some ((r, v'), u)"
  then have s: "v' = v" "spin E (?a v) (\<lambda>n. (word_of_int n :: u32) = word_of_int (bk_total cfg)) t = Some u" by (auto simp: do_spin_def)
  from spin_loads [OF s(2)] i obtain ns n where
    "loads u = map (\<lambda>m. (?a v, bell m)) (ns @ [n])" "\<forall>m \<in> set ns. bell m \<noteq> bell (bk_total cfg)" "bell n = bell (bk_total cfg)"
    by (auto simp: bell_eq)
  then have "rung cfg v u" unfolding rung_def by (intro exI [of _ "map bell ns"]) (auto simp: comp_def)
  with s(1) show "if r = 0 then rung cfg v' u else True" by simp
qed

lemma rung_server: "triple unseen (run_server_write E cfg) (rung cfg) (\<lambda>v t. True)"
  unfolding run_server_write_def block_Cons block_Nil
  by (intro triple_then [OF unseen_still] still_statements triple_then [OF rung_spin] triple_skip)

lemma server_ends: "lands E (bell (bk_total cfg)) \<Longrightarrow> returns (run_server_write E cfg)"
proof -
  assume l: "lands E (bell (bk_total cfg))"
  have "returns (do_spin E a (\<lambda>n. (word_of_int n :: u32) = word_of_int (bk_total cfg)))" for a :: "bk_vars \<Rightarrow> u64"
  proof -
    have "spin E (a v) (\<lambda>n. (word_of_int n :: u32) = word_of_int (bk_total cfg)) t \<noteq> None" for v t
    proof -
      obtain k where "bell (e_ret E (peeks E (a v) k t) (Load (a v))) = bell (bk_total cfg)" using l unfolding lands_def by blast
      then show ?thesis unfolding bell_eq by (rule spin_ends)
    qed
    then show ?thesis by (simp add: returns_def do_spin_def)
  qed
  moreover have "idle still f \<Longrightarrow> returns f" for f :: "bk_vars stmt" unfolding idle_def returns_def by (metis option.distinct(1))
  ultimately show ?thesis
    unfolding run_server_write_def block_Cons block_Nil by (intro returns_then returns_skip) (auto intro: still_statements)
qed

text \<open>
  C33. The doorbells of the write test, for a number of rounds whose sum with the warm-up fits an
  \<open>int\<close>. On a queue that does not stay silent forever while something is outstanding, the client
  ends; the doorbells it stores, the writes it posts and the completions it sees are, in this order,
  one of each for every round, or the start of that sequence where it fails. The server looks only
  at the last four bytes of its region; when it succeeds it has seen the number of the last round
  there, as the last thing it looked at and not before; and it returns once that number shows up.
  Neither the cleared buffer nor an earlier round carries that number.
\<close>

theorem write_test_in_step:
  assumes "poll_live E" and "0 \<le> kWarmup + bk_iters cfg" and "kWarmup + bk_iters cfg < 2 ^ 31"
  shows "(\<exists>r v u. run_client_write E cfg ((bk_vars_init m)\<lparr>b_tr := create_transport True\<rparr>) [] = Some ((r, v), u) \<and>
      prefix (beats u) (write_rounds (kWarmup + bk_iters cfg)) \<and> (r = 0 \<longrightarrow> beats u = write_rounds (kWarmup + bk_iters cfg))) \<and>
    (\<forall>v u. run_server_write E' cfg ((bk_vars_init m')\<lparr>b_tr := create_transport True\<rparr>) [] = Some ((0, v), u) \<longrightarrow>
      (\<exists>xs. loads u = map (Pair (bh_addr (sh_h (b_sb v)) + word_of_int (bk_size cfg) - 4)) (xs @ [bell (kWarmup + bk_iters cfg)]) \<and>
        bell (kWarmup + bk_iters cfg) \<notin> set xs)) \<and>
    (lands E' (bell (kWarmup + bk_iters cfg)) \<longrightarrow>
      run_server_write E' cfg ((bk_vars_init m')\<lparr>b_tr := create_transport True\<rparr>) [] \<noteq> None) \<and>
    (\<forall>j. 0 \<le> j \<and> j < kWarmup + bk_iters cfg \<longrightarrow> bell j \<noteq> bell (kWarmup + bk_iters cfg))"
    (is "?client \<and> ?server \<and> ?ends \<and> ?last")
proof (intro conjI)
  let ?n = "kWarmup + bk_iters cfg"
  note n = bk_total_fits [OF assms(2,3)]
  have "on_rdma (wst 0 [] 0 0) ((bk_vars_init m)\<lparr>b_tr := create_transport True\<rparr>) []"
    using rdma_start by (simp add: on_rdma_def wst_def write_rounds_def)
  with wst_client [OF assms(1), of cfg, unfolded n, OF assms(2)] obtain r v u where
    c: "run_client_write E cfg ((bk_vars_init m)\<lparr>b_tr := create_transport True\<rparr>) [] = Some ((r, v), u)"
    "if r = 0 then on_rdma (wst ?n [] ?n ?n) v u else wbad ?n v u" by (rule reachesD)
  from c(2) have "prefix (beats u) (write_rounds ?n) \<and> (r = 0 \<longrightarrow> beats u = write_rounds ?n)"
    by (auto simp: on_rdma_def wst_def wbad_def split: if_splits)
  with c(1) show ?client by blast
  show ?server
  proof (intro allI impI)
    fix v u assume "run_server_write E' cfg ((bk_vars_init m')\<lparr>b_tr := create_transport True\<rparr>) [] = Some ((0, v), u)"
    from tripleD [OF rung_server _ this] have "rung cfg v u" by simp
    then show "\<exists>xs. loads u = map (Pair (bh_addr (sh_h (b_sb v)) + word_of_int (bk_size cfg) - 4)) (xs @ [bell ?n]) \<and> bell ?n \<notin> set xs"
      unfolding rung_def n .
  qed
  show ?ends using server_ends [of E' cfg] n by (simp add: returns_def)
  show ?last using bell_differs assms(3) by simp
qed

text \<open>An outside in which everything works and the doorbell of round 22 has come.\<close>

definition rings :: env where
  "rings = cm_calm\<lparr>e_ret := (\<lambda>t c. case c of Load a \<Rightarrow> 22 | _ \<Rightarrow> e_ret cm_calm t c)\<rparr>"

theorem write_test_in_step_witness:
  "(\<exists>r v u. run_client_write cm_calm (bk_config_init\<lparr>bk_server_ip := ''10.0.0.1'', bk_is_rdma := True, bk_iters := 2\<rparr>)
     ((bk_vars_init (\<lambda>_. 0))\<lparr>b_tr := create_transport True\<rparr>) [] = Some ((r, v), u) \<and> prefix (beats u) (write_rounds 22)) \<and>
   run_server_write rings (bk_config_init\<lparr>bk_server_ip := ''10.0.0.1'', bk_is_rdma := True, bk_iters := 2\<rparr>)
     ((bk_vars_init (\<lambda>_. 0))\<lparr>b_tr := create_transport True\<rparr>) [] \<noteq> None"
proof -
  let ?cfg = "bk_config_init\<lparr>bk_server_ip := ''10.0.0.1'', bk_is_rdma := True, bk_iters := 2\<rparr>"
  have p: "poll_live cm_calm" unfolding poll_live_def by (auto intro!: exI [of _ 0] simp: cm_calm_def calm_def)
  have n: "kWarmup + bk_iters ?cfg = 22" by (simp add: kWarmup_def)
  have "lands rings (bell 22)" unfolding lands_def by (auto intro!: exI [of _ 0] simp: rings_def)
  with write_test_in_step [OF p, of ?cfg "\<lambda>_. 0" rings "\<lambda>_. 0"] show ?thesis unfolding n by auto
qed

text \<open>
  C34. Receives come first in the transport benchmark over RDMA: at every moment of a send and receive
  test, on either side, at least as many receives as sends have been posted, so no answer can arrive
  before there is a receive for it; and a test that succeeds posts exactly one receive and one send
  per round. The number of rounds must be such that no counter of the program overflows.
\<close>

theorem backend_receives_ahead:
  assumes "bk_is_rdma cfg" and "0 \<le> kWarmup + bk_iters cfg" and "kWarmup + bk_iters cfg + 8 \<le> 2 ^ 31"
    and "body \<in> {run_server_sendrecv E, run_client_sendrecv E}"
    and "body cfg ((bk_vars_init m)\<lparr>b_tr := create_transport True\<rparr>) [] = Some ((r, v), u)"
  shows "recv_ahead u \<and> (r = 0 \<longrightarrow> recvs u = kWarmup + bk_iters cfg \<and> sends u = kWarmup + bk_iters cfg)"
proof -
  have c: "bk_roomy cfg" using assms(1-3) by (simp add: bk_roomy_def)
  have i: "on_rdma (flow 0 0) ((bk_vars_init m)\<lparr>b_tr := create_transport True\<rparr>) []" using rdma_start by (simp add: on_rdma_def flow_def)
  have "triple (on_rdma (flow 0 0)) (body cfg) (on_rdma (flow (bk_total cfg) (bk_total cfg))) flow_any"
    using assms(4) bflow_tests [OF c] by auto
  from tripleD [OF this i assms(5)] bk_roomy_facts(1) [OF c] show ?thesis by (simp add: on_rdma_def flow_def flow_any_def split: if_splits)
qed

lemma returns_statements:
  "returns (b_op E op)" "returns (b_aligned_init E n)" "returns (b_sb_init E n)" "returns (b_send E n)" "returns (b_recv E n)" "returns (b_clock E i)"
  "returns (b_sample E i)" "returns (b_report E cfg)" "returns (b_latencies cfg)" "returns (b_refill E cfg i)" "returns (b_prepost E cfg)"
  "returns (b_exchange E)" "returns (b_size_check cfg)"
  unfolding b_op_def b_aligned_init_def b_sb_init_def b_send_def b_recv_def b_clock_def b_sample_def b_report_def b_refill_def b_prepost_def b_exchange_def
  by (auto intro!: returns_simple returns_skip returns_for) (simp_all add: returns_def b_latencies_def b_size_check_def)

lemma client_returns:
  assumes "returns (b_poll E)"
  shows "returns (run_client_sendrecv E cfg)" "returns (run_client_write E cfg)"
  unfolding run_client_sendrecv_def sendrecv_client_iter_def run_client_write_def write_iter_def block_Cons block_Nil Let_def
  by (auto intro!: returns_then returns_skip returns_for returns_statements returns_simple assms)

lemma returns_test: "returns f \<Longrightarrow> returns (bk_test E b f)"
  by (auto simp: returns_def bk_test_def split: option.split)

lemma calm_poll_returns: "returns (b_poll cm_calm)"
  unfolding returns_def b_poll_def using calm_transport_poll by (auto split: option.splits)

theorem backend_receives_ahead_witness:
  "\<exists>r v u. run_client_sendrecv cm_calm (bk_config_init\<lparr>bk_server_ip := ''10.0.0.1'', bk_is_rdma := True\<rparr>)
     ((bk_vars_init (\<lambda>_. 0))\<lparr>b_tr := create_transport True\<rparr>) [] = Some ((r, v), u) \<and> recv_ahead u"
proof -
  let ?cfg = "bk_config_init\<lparr>bk_server_ip := ''10.0.0.1'', bk_is_rdma := True\<rparr>" and ?v = "(bk_vars_init (\<lambda>_. 0))\<lparr>b_tr := create_transport True\<rparr>"
  obtain r v u where r: "run_client_sendrecv cm_calm ?cfg ?v [] = Some ((r, v), u)"
    using client_returns(1) [OF calm_poll_returns] unfolding returns_def by (metis not_Some_eq surj_pair)
  have "bk_is_rdma ?cfg" "0 \<le> kWarmup + bk_iters ?cfg" "kWarmup + bk_iters ?cfg + 8 \<le> 2 ^ 31"
    by (simp_all add: bk_config_init_def kWarmup_def)
  from backend_receives_ahead [where body = "run_client_sendrecv cm_calm" and E = cm_calm, OF this _ r] r show ?thesis by auto
qed

section \<open>A run over RDMA that succeeds\<close>

definition nowhere :: "bk_vars \<Rightarrow> trace \<Rightarrow> bool" where
  "nowhere v t \<longleftrightarrow> False"

text \<open>Connected as a client, and with a registered buffer of a page.\<close>

definition linked :: "bk_vars \<Rightarrow> trace \<Rightarrow> bool" where
  "linked v t \<longleftrightarrow> (\<exists>x. b_tr v = RdmaT x \<and> q_pd (rt_qp x) \<noteq> 0 \<and> q_cq (rt_qp x) \<noteq> 0 \<and> q_qp (rt_qp x) \<noteq> 0 \<and>
     \<not> rt_is_server x \<and> rt_host x = ''10.0.0.1'')"

definition primed :: "bk_vars \<Rightarrow> trace \<Rightarrow> bool" where
  "primed v t \<longleftrightarrow> linked v t \<and> (\<exists>m. bh_priv (sh_h (b_sb v)) = Some m \<and> mr_mr m \<noteq> 0 \<and> mr_size m = 4096)"

lemma linked_trace: "linked v t \<Longrightarrow> linked v u" "primed v t \<Longrightarrow> primed v u"
  by (simp_all add: linked_def primed_def)

lemma good_connect: "triple (bk_start cm_calm M True) (b_op cm_calm (Op_connect (Some ''10.0.0.1'') port)) linked nowhere"
proof (rule tripleI)
  fix v t r v' u assume i: "bk_start cm_calm M True v t" and d: "b_op cm_calm (Op_connect (Some ''10.0.0.1'') port) v t = Some ((r, v'), u)"
  obtain q w where c: "run_state (rai_cm_connect_qp cm_calm qp_zero ''10.0.0.1'' port) t = ((0, q), w)" using calm_connects by blast
  have l: "listeners t = {}" using i by (simp add: bk_at_def rdma_env_ok_def)
  from cm_connect_spec(1) [OF cm_calm_ok cm_calm_requests l qp_fresh_zero c] have "q_qp q \<noteq> 0" by auto
  moreover have "b_tr v = RdmaT rdma_new" using i by (simp add: bk_at_def create_transport_def)
  moreover have "q_qp qp_zero = 0" by (simp add: qp_zero_def)
  ultimately show "if r = 0 then linked v' u else nowhere v' u"
    using connect_ok [OF c] d c by (auto simp: b_op_def run_stmt_def run_simps transport_op_def rdma_op_def rdma_connect_def rdma_reset_def
        close_listen_fd_def rdma_new_def linked_def Let_def)
qed

definition placed :: "bk_vars \<Rightarrow> trace \<Rightarrow> bool" where
  "placed v t \<longleftrightarrow> linked v t \<and> b_block v = Some 4096"

lemma good_buffers:
  "triple linked (b_aligned_init cm_calm 4096) placed nowhere" "triple placed (b_sb_init cm_calm 4096) primed nowhere"
  by (rule tripleI; auto simp: b_aligned_init_def b_sb_init_def run_stmt_def run_simps shared_buffer_init_def transport_reg_buf_def
      rdma_reg_buf_def rai_mr_reg_external_def calm_data linked_def placed_def primed_def Let_def split: if_splits)+

lemma primed_sge:
  assumes "b_tr v = RdmaT x" and "primed v t"
  shows "\<exists>g. prepare_sge cm_calm (Some (rt_qp x)) (bh_priv (sh_h (b_sb v))) 4096 0 = Some g"
  using assms by (auto simp: prepare_sge_def primed_def linked_def)

lemma good_posts:
  "triple primed (b_recv cm_calm 4096) primed nowhere" "triple primed (b_send cm_calm 4096) primed nowhere"
  "triple primed (do_call (\<lambda>v. transport_write_async cm_calm (b_tr v) (b_mem v) (Some (sh_h (b_sb v))) (ra v) (rk v) 4096 wid 0)) primed nowhere"
proof -
  have x: "\<exists>x g. b_tr v = RdmaT x \<and> prepare_sge cm_calm (Some (rt_qp x)) (bh_priv (sh_h (b_sb v))) 4096 0 = Some g" if p: "primed v t" for v t
  proof -
    obtain x where "b_tr v = RdmaT x" using p by (auto simp: primed_def linked_def)
    with primed_sge [OF this p] show ?thesis by blast
  qed
  show "triple primed (b_recv cm_calm 4096) primed nowhere" "triple primed (b_send cm_calm 4096) primed nowhere"
    "triple primed (do_call (\<lambda>v. transport_write_async cm_calm (b_tr v) (b_mem v) (Some (sh_h (b_sb v))) (ra v) (rk v) 4096 wid 0)) primed nowhere"
    by (rule tripleI, frule x, auto simp: b_recv_def b_send_def run_stmt_def do_call_def run_simps transport_recv_async_def transport_send_async_def
        transport_write_async_def rdma_recv_async_def rdma_send_async_def rdma_write_async_def rai_post_recv_def rai_post_send_def
        rai_post_write_def calm_data primed_def linked_def)+
qed

lemma good_poll: "triple primed (b_poll cm_calm) primed nowhere"
proof (rule tripleI)
  fix v t r v' u assume g: "primed v t" and p: "b_poll cm_calm v t = Some ((r, v'), u)"
  then obtain x where x: "b_tr v = RdmaT x" "q_cq (rt_qp x) \<noteq> 0" by (auto simp: primed_def linked_def)
  let ?c = "Poll_cq (q_cq (rt_qp x))"
  have "poll_loop cm_calm (q_cq (rt_qp x)) t =
      Some ((0, e_wc_wr_id cm_calm ((?c, 1, e_data cm_calm t ?c) # t)), (?c, 1, e_data cm_calm t ?c) # t)"
    by (subst poll_loop.simps) (simp add: Let_def calm_data)
  with x p have "r = 0 \<and> v' = v" by (auto simp: b_poll_def transport_poll_def rdma_poll_def rai_poll_cq_def)
  with linked_trace(2) [OF g] show "if r = 0 then primed v' u else nowhere v' u" by simp
qed

lemma good_exchange: "triple primed (b_exchange cm_calm) primed nowhere"
proof (rule tripleI)
  fix v t r v' u assume g: "primed v t" and p: "b_exchange cm_calm v t = Some ((r, v'), u)"
  then obtain x m where x: "b_tr v = RdmaT x" "\<not> rt_is_server x" "rt_host x = ''10.0.0.1''" "bh_priv (sh_h (b_sb v)) = Some m" "mr_mr m \<noteq> 0"
    by (auto simp: primed_def linked_def)
  define q where "q = (rt_qp x)\<lparr>q_local := (q_local (rt_qp x))\<lparr>ci_addr := e_mr_addr cm_calm (mr_mr m), ci_rkey := e_mr_rkey cm_calm (mr_mr m)\<rparr>\<rparr>"
  obtain y q' w where c: "run_state (rai_oob_connect cm_calm (Some q) (Some ''10.0.0.1'') (rt_port x + 1)) t = ((y, q'), w)" by (metis surj_pair)
  from oob_connect_frame [OF c] calm_oob [OF c] c p g x show "if r = 0 then primed v' u else nowhere v' u"
    by (auto simp: b_exchange_def run_stmt_def run_simps transport_exchange_buf_def rdma_exchange_buf_def Let_def q_def [symmetric]
        primed_def linked_def) (auto simp: q_def)
qed

lemma good_rest:
  "triple primed (b_clock cm_calm i) primed nowhere" "triple primed (b_sample cm_calm i) primed nowhere" "triple primed (b_report cm_calm cfg) primed nowhere"
  "triple primed (do_event cm_calm c) primed nowhere"
  by (rule tripleI; auto simp: b_clock_def b_sample_def b_report_def do_clock_def do_event_def primed_def linked_def split: if_splits)+

lemma good_checks:
  "0 \<le> bk_iters cfg \<Longrightarrow> triple (bk_at E M Q) (b_latencies cfg) (bk_at E M Q) nowhere"
  "4 \<le> bk_size cfg \<Longrightarrow> triple I (b_size_check cfg) I nowhere"
  by (rule tripleI; auto simp: b_latencies_def b_size_check_def bk_at_def)+

definition page_client :: "bk_config \<Rightarrow> bool" where
  "page_client cfg \<longleftrightarrow> bk_is_rdma cfg \<and> bk_server_ip cfg = ''10.0.0.1'' \<and> bk_size cfg = 4096 \<and> 0 \<le> bk_iters cfg"

lemma good_rounds:
  assumes "page_client cfg"
  shows "triple primed (b_prepost cm_calm cfg) primed nowhere" "triple primed (sendrecv_client_iter cm_calm cfg i) primed nowhere"
    "triple primed (write_iter cm_calm cfg i) primed nowhere"
proof -
  have c: "bk_is_rdma cfg" "word_of_int (bk_size cfg) = (4096 :: u64)" using assms by (simp_all add: page_client_def)
  note steps = triple_then [where J = primed] triple_if triple_skip good_posts good_poll good_rest
  show "triple primed (b_prepost cm_calm cfg) primed nowhere" unfolding b_prepost_def c by (intro triple_for good_posts)
  show "triple primed (sendrecv_client_iter cm_calm cfg i) primed nowhere"
    unfolding sendrecv_client_iter_def b_refill_def Let_def c if_P [OF TrueI] block_Cons block_Nil by (intro steps)
  show "triple primed (write_iter cm_calm cfg i) primed nowhere"
    unfolding write_iter_def Let_def c block_Cons block_Nil by (intro steps)
qed

lemma good_tests:
  assumes "page_client cfg"
  shows "triple (bk_start cm_calm M True) (run_client_sendrecv cm_calm cfg) primed nowhere"
    "triple (bk_start cm_calm M True) (run_client_write cm_calm cfg) primed nowhere"
proof -
  have c: "word_of_int (bk_size cfg) = (4096 :: u64)" "0 \<le> bk_iters cfg" "4 \<le> bk_size cfg" "bk_server_ip cfg = ''10.0.0.1''"
    using assms by (simp_all add: page_client_def)
  note g = good_rounds [OF assms]
  show "triple (bk_start cm_calm M True) (run_client_sendrecv cm_calm cfg) primed nowhere"
    unfolding run_client_sendrecv_def c(1,4) block_Cons block_Nil
    by (rule triple_then [OF good_checks(1) [OF c(2)] triple_then [OF good_connect triple_then [OF good_buffers(1) triple_then [OF good_buffers(2)
        triple_then [OF g(1) triple_then [OF triple_for [OF g(2)] triple_then [OF good_rest(3) triple_skip]]]]]]])
  show "triple (bk_start cm_calm M True) (run_client_write cm_calm cfg) primed nowhere"
    unfolding run_client_write_def c(1,4) block_Cons block_Nil
    by (rule triple_then [OF good_checks(1) [OF c(2)] triple_then [OF good_checks(2) [OF c(3)] triple_then [OF good_connect
        triple_then [OF good_buffers(1) triple_then [OF good_buffers(2) triple_then [OF good_exchange
        triple_then [OF triple_for [OF g(3)] triple_then [OF good_rest(3) triple_skip]]]]]]]])
qed

lemma good_test:
  assumes "triple (bk_start E M b) body J nowhere" and "triple (bk_start E M b) body (bk_inv E M) (bk_inv E M)"
  shows "triple (bk_between E M) (bk_test E b body) (bk_between E M) nowhere"
proof (rule tripleI)
  fix v t r v' u assume i: "bk_between E M v t" and s: "bk_test E b body v t = Some ((r, v'), u)"
  let ?v = "v\<lparr>b_tr := create_transport b, b_sb := shared_buffer_new, b_block := None\<rparr>"
  obtain w where w: "body ?v t = Some ((r, v'), w)" using s by (auto simp: bk_test_def split: option.splits)
  have "bk_start E M b ?v t"
    using i create_held by (simp add: bk_at_def bk_between_def shared_held_def shared_buffer_new_def block_held_def)
  from tripleD [OF assms(1) this w] have "r = 0" by (simp add: nowhere_def split: if_splits)
  with tripleD [OF test_between [OF assms(2)] i s] show "if r = 0 then bk_between E M v' u else nowhere v' u" by simp
qed

lemma good_body:
  assumes "page_client cfg"
  shows "triple (bk_between cm_calm M) (backend_body cm_calm cfg) (bk_between cm_calm M) nowhere"
proof -
  have c: "page_client (cfg\<lparr>bk_port := bk_port cfg + 2\<rparr>)" "bk_is_rdma cfg" "bk_server_ip cfg \<noteq> []" using assms by (auto simp: page_client_def)
  note s = good_test [OF good_tests(1) [OF assms] tests_safe(2)] good_test [OF good_tests(2) [OF c(1)] tests_safe(4)]
  show ?thesis
    unfolding backend_body_def Let_def if_not_P [OF c(3)] block_Cons block_Nil
    using c(2) triple_then [OF s(1) triple_then [OF s(2) triple_skip]] by simp
qed

text \<open>
  C35. The benchmark of the transports leaks nothing: in either role and over either transport,
  whichever step of whichever test fails, and also where the command line asks for a negative
  number of rounds, everything acquired on the way has been released when the program returns.
\<close>

theorem backend_compare_balanced:
  assumes "cm_ok E" "cm_requests_ok E" "listeners t = {}" and "backend_compare E m args t = Some ((r, v), u)"
  shows "live E u = live E t"
proof -
  let ?B = "bk_between E (live E t)"
  have i: "?B (bk_vars_init m) t" using assms(1-3) by (simp add: bk_between_def rdma_env_ok_def)
  have b: "triple ?B (backend_body E cfg) ?B ?B" for cfg
    unfolding backend_body_def Let_def block_Cons block_Nil
    by (intro triple_then [of ?B _ ?B ?B] test_between triple_if triple_skip tests_safe)
  consider "u = t" | cfg x where "backend_body E cfg (bk_vars_init m) t = Some ((x, v), u)"
    using assms(4) by (auto simp: backend_compare_def split: if_splits option.splits prod.splits)
  then show ?thesis
  proof cases
    case 2
    from tripleD [OF b i 2] show ?thesis by (simp add: bk_between_def split: if_splits)
  qed simp
qed

theorem backend_compare_balanced_witness:
  "\<exists>v u. backend_compare cm_calm (\<lambda>_. 0) [''rdma'', ''10.0.0.1'', ''--iters'', ''5''] [] = Some ((0, v), u) \<and> live cm_calm u = {#}"
proof -
  let ?args = "[''rdma'', ''10.0.0.1'', ''--iters'', ''5'']"
  let ?cfg = "bk_config_init\<lparr>bk_server_ip := ''10.0.0.1'', bk_is_rdma := True, bk_iters := 5\<rparr>"
  have c: "bk_config_parse ?args bk_config_init = (0, ?cfg)" by code_simp
  have p: "poll_live cm_calm" unfolding poll_live_def by (auto intro!: exI [of _ 0] simp: cm_calm_def calm_def)
  have g: "page_client ?cfg" by (simp add: page_client_def bk_config_init_def)
  have "returns (backend_body cm_calm ?cfg)"
    unfolding backend_body_def Let_def block_Cons block_Nil
    by (intro returns_then returns_skip) (simp_all add: returns_test client_returns calm_poll_returns)
  then obtain x v u where b: "backend_body cm_calm ?cfg (bk_vars_init (\<lambda>_. 0)) [] = Some ((x, v), u)"
    unfolding returns_def by (metis not_Some_eq surj_pair)
  have "bk_between cm_calm {#} (bk_vars_init (\<lambda>_. 0)) []" using cm_calm_ok cm_calm_requests by (simp add: bk_between_def rdma_env_ok_def)
  from tripleD [OF good_body [OF g] this b] have "x = 0" by (simp add: nowhere_def split: if_splits)
  with b c have m: "backend_compare cm_calm (\<lambda>_. 0) ?args [] = Some ((0, v), u)"
    by (simp add: backend_compare_def bk_config_init_def)
  have "listeners [] = {}" by simp
  from backend_compare_balanced [OF cm_calm_ok cm_calm_requests this m] m show ?thesis by auto
qed

end
