(* ===== verification/Allreduce_Bench.thy ===== *)
theory Allreduce_Bench
  imports Transport_Class Args Bench_Stats
begin

text \<open>
  The benchmark of phase3_collective, from \<open>main\<close> to \<open>return\<close> (allreduce_bench.cpp), over the
  transports of the process group: the calls of \<open>ring_allreduce\<close> and \<open>world_barrier\<close> are the lists
  \<open>blocking_program\<close>, \<open>posted_program\<close> and \<open>barrier_program\<close>, executed here on the two transports.
  Memory that a TCP transport fills is the memory of the process; memory that the network card may
  have written is read by an event. Single-precision arithmetic is a parameter.
\<close>

section \<open>Definitions\<close>

subsection \<open>The command line\<close>

record ar_config =
  ac_rank :: int
  ac_world :: int
  ac_base_port :: int
  ac_host_list :: "string list"
  ac_count :: int
  ac_iters :: int
  ac_is_rdma :: bool
  ac_csv :: bool

definition ar_config_init :: ar_config where
  "ar_config_init = \<lparr>ac_rank = 0, ac_world = 0, ac_base_port = 12345, ac_host_list = [], ac_count = 1024, ac_iters = 100,
     ac_is_rdma = False, ac_csv = False\<rparr>"

fun ar_options :: "string list \<Rightarrow> ar_config \<Rightarrow> int \<times> ar_config" where
  "ar_options [] cfg = (0, cfg)"
| "ar_options (opt # rest) cfg =
     (if opt = ''--iters'' then
        (case rest of [] \<Rightarrow> (-1, cfg) | val # rest' \<Rightarrow> ar_options rest' (cfg\<lparr>ac_iters := atoi val\<rparr>))
      else if opt = ''--count'' then
        (case rest of [] \<Rightarrow> (-1, cfg) | val # rest' \<Rightarrow> ar_options rest' (cfg\<lparr>ac_count := atoi val\<rparr>))
      else if opt = ''--rdma'' then ar_options rest (cfg\<lparr>ac_is_rdma := True\<rparr>)
      else if opt = ''--csv'' then ar_options rest (cfg\<lparr>ac_csv := True\<rparr>)
      else ar_options rest cfg)"

text \<open>The arguments after the program's name.\<close>

definition ar_config_parse :: "string list \<Rightarrow> ar_config \<Rightarrow> int \<times> ar_config" where
  "ar_config_parse args cfg =
     (case args of a # b # c # rest \<Rightarrow>
        let cfg1 = cfg\<lparr>ac_rank := atoi a, ac_world := atoi b, ac_base_port := atoi c\<rparr>;
            n = nat (ac_world cfg1)
        in if ac_world cfg1 \<le> 0 \<or> ac_rank cfg1 < 0 \<or> ac_world cfg1 \<le> ac_rank cfg1 then (-1, cfg1)
           else if length rest < n then (-1, cfg1\<lparr>ac_host_list := rest\<rparr>)
           else (case ar_options (drop n rest) (cfg1\<lparr>ac_host_list := take n rest\<rparr>) of (r, cfg2) \<Rightarrow>
             if r \<noteq> 0 then (r, cfg2)
             else if ac_count cfg2 \<le> 0 \<or> c_rem (ac_count cfg2) (ac_world cfg2) \<noteq> 0 then (-1, cfg2)
             else (0, cfg2))
      | _ \<Rightarrow> (-1, cfg))"

subsection \<open>Variables\<close>

datatype ar_block = Buf | Stage | Scratch
datatype ar_buffer = R_buf | L_buf | Stage_buf | Scratch_r | Scratch_l

record ar_vars =
  av_block :: "ar_block \<Rightarrow> u64 option"
  av_sb :: "ar_buffer \<Rightarrow> shared_buffer"
  av_mem :: memory
  av_start :: u64
  av_samples :: "u64 list"
  av_report :: "lat_stats option"
  av_terminated :: bool         \<comment> \<open>the process was ended by an exception that nothing catches\<close>

definition ar_vars_init :: "memory \<Rightarrow> ar_vars" where
  "ar_vars_init m = \<lparr>av_block = (\<lambda>_. None), av_sb = (\<lambda>_. shared_buffer_new), av_mem = m, av_start = 0, av_samples = [], av_report = None,
     av_terminated = False\<rparr>"

text \<open>Conversion of an int to float, the quotient by \<open>2.0f\<close>, addition, and \<open>std::abs(x - y) > 1e-3\<close>.\<close>

record floats =
  fl_of_int :: "int \<Rightarrow> byte list"
  fl_half :: "int \<Rightarrow> byte list"
  fl_add :: "byte list \<Rightarrow> byte list \<Rightarrow> byte list"
  fl_far :: "byte list \<Rightarrow> byte list \<Rightarrow> bool"

subsection \<open>Buffers\<close>

text \<open>\<open>AlignedFloats::init\<close>, and \<open>ScopedBuffer::init\<close> on one of the arrays.\<close>

definition a_alloc :: "env \<Rightarrow> ar_block \<Rightarrow> u64 \<Rightarrow> ar_vars stmt" where
  "a_alloc E k n = run_stmt (\<lambda>v. do {
     ps \<leftarrow> exec_call E Sysconf_pagesize;
     r \<leftarrow> exec_call E (Posix_memalign (if ps \<le> 0 then 4096 else ps) (n * 4));
     if r \<noteq> 0 then ret (-1, v)
     else do {
       p \<leftarrow> look (e_memory E);
       ret (0, v\<lparr>av_block := (av_block v)(k := Some p)\<rparr>) } })"

definition a_reg :: "env \<Rightarrow> ar_buffer \<Rightarrow> transport \<Rightarrow> ar_block \<Rightarrow> u64 \<Rightarrow> ar_vars stmt" where
  "a_reg E h tr k n = run_stmt (\<lambda>v. do {
     (r, b) \<leftarrow> shared_buffer_init E (av_sb v h) tr (the (av_block v k)) n;
     ret (r, v\<lparr>av_sb := (av_sb v)(h := b)\<rparr>) })"

text \<open>Reading and writing a float of an array.\<close>

definition a_get :: "env \<Rightarrow> group \<Rightarrow> ar_vars \<Rightarrow> u64 \<Rightarrow> (trace, byte list) state" where
  "a_get E w v a = (if recv_blocks (w_left w) then ret (read_mem (av_mem v) a 4)
     else do { n \<leftarrow> exec_call E (Load a); ret (u32_bytes (word_of_int n)) })"

definition a_put :: "env \<Rightarrow> ar_vars \<Rightarrow> u64 \<Rightarrow> byte list \<Rightarrow> (trace, ar_vars) state" where
  "a_put E v a x = do { _ \<leftarrow> exec_call E (Store a x); ret (v\<lparr>av_mem := write_mem (av_mem v) a x\<rparr>) }"

definition float_at :: "ar_vars \<Rightarrow> ar_block \<Rightarrow> nat \<Rightarrow> u64" where
  "float_at v k i = the (av_block v k) + 4 * word_of_nat i"

text \<open>\<open>for (i < count) buf.p[i] = cfg.rank + 1\<close>, and the check of the result.\<close>

definition a_fill :: "env \<Rightarrow> floats \<Rightarrow> ar_config \<Rightarrow> ar_vars stmt" where
  "a_fill E F cfg = for_each (\<lambda>i. run_stmt (\<lambda>v. do {
     v' \<leftarrow> a_put E v (float_at v Buf i) (fl_of_int F (ac_rank cfg + 1));
     ret (0, v') })) [0..<nat (ac_count cfg)]"

definition ar_expect :: "floats \<Rightarrow> ar_config \<Rightarrow> byte list" where
  "ar_expect F cfg = fl_half F ((1 + ac_world cfg) * ac_world cfg)"

definition a_check :: "env \<Rightarrow> floats \<Rightarrow> group \<Rightarrow> ar_config \<Rightarrow> ar_vars stmt" where
  "a_check E F w cfg = for_each (\<lambda>i. do_call (\<lambda>v. do {
     x \<leftarrow> a_get E w v (float_at v Buf i);
     ret (if fl_far F x (ar_expect F cfg) then -1 else 0) })) [0..<nat (ac_count cfg)]"

subsection \<open>The collectives on the transports of the group\<close>

definition a_add :: "env \<Rightarrow> floats \<Rightarrow> group \<Rightarrow> u64 \<Rightarrow> u64 \<Rightarrow> u64 \<Rightarrow> ar_vars stmt" where
  "a_add E F w dst src n = for_each (\<lambda>i. run_stmt (\<lambda>v. do {
     x \<leftarrow> a_get E w v (float_at v Buf (unat dst + i));
     y \<leftarrow> a_get E w v (float_at v Stage (unat src + i));
     v' \<leftarrow> a_put E v (float_at v Buf (unat dst + i)) (fl_add F x y);
     ret (0, v') })) [0..<unat n]"

definition a_poll :: "env \<Rightarrow> transport \<Rightarrow> ar_vars stmt" where
  "a_poll E tr v t = (case transport_poll E tr None t of None \<Rightarrow> None | Some ((r, x), u) \<Rightarrow> Some ((r, v), u))"

fun a_act :: "env \<Rightarrow> floats \<Rightarrow> group \<Rightarrow> (bufsel \<Rightarrow> ar_buffer) \<Rightarrow> act \<Rightarrow> ar_vars stmt" where
  "a_act E F w hs (SendRight h len i off) =
     do_call (\<lambda>v. transport_send_async E (w_right w) (av_mem v) (Some (sh_h (av_sb v (hs h)))) len i off)"
| "a_act E F w hs (RecvLeft h len i off) = run_stmt (\<lambda>v. do {
     (r, m) \<leftarrow> transport_recv_async E (w_left w) (Some (sh_h (av_sb v (hs h)))) len i off (av_mem v);
     ret (r, v\<lparr>av_mem := m\<rparr>) })"
| "a_act E F w hs PollLeft = a_poll E (w_left w)"
| "a_act E F w hs PollRight = a_poll E (w_right w)"
| "a_act E F w hs (AddChunk dst src n) = a_add E F w dst src n"
| "a_act E F w hs Skip = skip"

definition data_buffers :: "bufsel \<Rightarrow> ar_buffer" where
  "data_buffers h = (case h of R_H \<Rightarrow> R_buf | L_H \<Rightarrow> L_buf | Stage_H \<Rightarrow> Stage_buf)"

definition scratch_buffers :: "bufsel \<Rightarrow> ar_buffer" where
  "scratch_buffers h = (case h of R_H \<Rightarrow> Scratch_r | _ \<Rightarrow> Scratch_l)"

definition a_allreduce :: "env \<Rightarrow> floats \<Rightarrow> group \<Rightarrow> u64 \<Rightarrow> ar_vars stmt" where
  "a_allreduce E F w cnt =
     (if cnt mod word_of_int (w_size w) \<noteq> 0 then (\<lambda>v t. Some ((-1, v), t))
      else if w_size w < 2 then skip
      else let chunk = cnt div word_of_int (w_size w)
           in for_each (a_act E F w data_buffers)
                (if recv_blocks (w_left w) then blocking_program (w_size w) (w_rank w) chunk
                 else posted_program (w_size w) (w_rank w) chunk))"

definition a_barrier :: "env \<Rightarrow> floats \<Rightarrow> group \<Rightarrow> ar_vars stmt" where
  "a_barrier E F w =
     (if w_size w < 2 then skip
      else for_each (a_act E F w scratch_buffers) (barrier_program (recv_blocks (w_left w)) (w_rank w)))"

subsection \<open>main\<close>

definition ar_setup :: "env \<Rightarrow> floats \<Rightarrow> group \<Rightarrow> ar_config \<Rightarrow> ar_vars stmt" where
  "ar_setup E F w cfg =
     (let chunk = word_of_int (ac_count cfg div w_size w); bytes = word_of_int (ac_count cfg) * 4
      in block [
        a_alloc E Buf (word_of_int (ac_count cfg)),
        a_alloc E Stage (2 * chunk),
        a_fill E F cfg,
        a_reg E R_buf (w_right w) Buf bytes,
        a_reg E L_buf (w_left w) Buf bytes,
        a_reg E Stage_buf (w_left w) Stage (2 * (chunk * 4)),
        a_alloc E Scratch 16,
        a_reg E Scratch_r (w_right w) Scratch (16 * 4),
        a_reg E Scratch_l (w_left w) Scratch (16 * 4)])"

text \<open>
  \<open>std::vector<uint64_t> latencies(cfg.iters)\<close>: a negative number throws, nothing in \<open>main\<close> catches
  it, and the process is terminated on the spot, without a destructor.
\<close>

definition a_latencies :: "ar_config \<Rightarrow> ar_vars stmt" where
  "a_latencies cfg v t = (if ac_iters cfg < 0 then Some ((-1, v\<lparr>av_terminated := True\<rparr>), t)
     else Some ((0, v\<lparr>av_samples := replicate (nat (ac_iters cfg)) 0\<rparr>), t))"

definition ar_round :: "env \<Rightarrow> floats \<Rightarrow> group \<Rightarrow> ar_config \<Rightarrow> int \<Rightarrow> ar_vars stmt" where
  "ar_round E F w cfg i = block [
     a_fill E F cfg,
     a_barrier E F w,
     do_clock E (\<lambda>now v. v\<lparr>av_start := now\<rparr>),
     a_allreduce E F w (word_of_int (ac_count cfg)),
     if kWarmup \<le> i
     then do_clock E (\<lambda>now v. v\<lparr>av_samples := (av_samples v)[nat (i - kWarmup) := time_elapsed_ns (av_start v) now]\<rparr>)
     else skip]"

text \<open>The figures of a CSV row have positions of their own; \<open>(int)(iters * 0.99)\<close> is as in \<open>latency_stats\<close>.\<close>

definition csv_stats :: "u64 list \<Rightarrow> int \<Rightarrow> lat_stats" where
  "csv_stats xs n = \<lparr>ls_min = xs ! 0, ls_median = xs ! nat (n div 2), ls_p99 = xs ! nat (99 * n div 100), ls_max = xs ! nat (n - 1)\<rparr>"

definition a_report :: "ar_config \<Rightarrow> ar_vars stmt" where
  "a_report cfg = set_vars (\<lambda>v. if ac_rank cfg = 0
     then v\<lparr>av_report := Some ((if ac_csv cfg then csv_stats else latency_stats) (sort (av_samples v)) (ac_iters cfg))\<rparr> else v)"

definition ar_body :: "env \<Rightarrow> floats \<Rightarrow> group \<Rightarrow> ar_config \<Rightarrow> ar_vars stmt" where
  "ar_body E F w cfg = block [
     ar_setup E F w cfg,
     a_allreduce E F w (word_of_int (ac_count cfg)),
     a_check E F w cfg,
     a_latencies cfg,
     for_each (ar_round E F w cfg) [0..c_int (kWarmup + ac_iters cfg) - 1],
     a_check E F w cfg,
     a_report cfg]"

text \<open>The destructors, in reverse order of construction.\<close>

definition a_free :: "env \<Rightarrow> u64 option \<Rightarrow> (trace, unit) state" where
  "a_free E p = (case p of None \<Rightarrow> ret () | Some a \<Rightarrow> do { _ \<leftarrow> exec_call E (Free a); ret () })"

definition ar_out :: "env \<Rightarrow> ar_vars \<Rightarrow> (trace, unit) state" where
  "ar_out E v = do {
     _ \<leftarrow> shared_buffer_destroy E (av_sb v Scratch_l);
     _ \<leftarrow> shared_buffer_destroy E (av_sb v Scratch_r);
     _ \<leftarrow> a_free E (av_block v Scratch);
     _ \<leftarrow> shared_buffer_destroy E (av_sb v Stage_buf);
     _ \<leftarrow> shared_buffer_destroy E (av_sb v L_buf);
     _ \<leftarrow> shared_buffer_destroy E (av_sb v R_buf);
     _ \<leftarrow> a_free E (av_block v Stage);
     a_free E (av_block v Buf) }"

text \<open>The host list as \<open>world_init\<close> reads it.\<close>

definition ar_hosts :: "ar_config \<Rightarrow> int \<Rightarrow> string option" where
  "ar_hosts cfg i = (if 0 \<le> i \<and> nat i < length (ac_host_list cfg) then Some (ac_host_list cfg ! nat i) else None)"

text \<open>
  The whole program, with the outside and history of the thread that listens in \<open>world_init\<close> and of
  the main one; each transport is released in the history it was acquired in. \<open>w0\<close> is the
  uninitialised \<open>World\<close>. A process that is terminated runs no destructor.
\<close>

definition allreduce_bench ::
    "env \<Rightarrow> env \<Rightarrow> floats \<Rightarrow> group \<Rightarrow> memory \<Rightarrow> string list \<Rightarrow> trace \<times> trace \<Rightarrow> ((int \<times> ar_vars) \<times> trace \<times> trace) option" where
  "allreduce_bench El Em F w0 m args ts =
     (if args = [''--csv-header''] then Some ((0, ar_vars_init m), ts)
      else case ar_config_parse args ar_config_init of (r, cfg) \<Rightarrow>
        if r \<noteq> 0 then Some ((1, ar_vars_init m), ts)
        else case world_init El Em (Some w0) (ac_rank cfg) (ac_world cfg) (ar_hosts cfg)
            (ac_base_port cfg) (ac_is_rdma cfg) ts of
          ((wr, g), (ua, ub)) \<Rightarrow>
            let close_all = (\<lambda>t. (snd (run_state (transport_close El (w_left (the g))) ua), snd (run_state (transport_close Em (w_right (the g))) t)))
            in if wr \<noteq> 0 then Some ((-1, ar_vars_init m), close_all ub)
               else (case ar_body Em F (the g) cfg (ar_vars_init m) ub of None \<Rightarrow> None
                 | Some ((x, v), t) \<Rightarrow>
                     if av_terminated v then Some ((x, v), (ua, t))
                     else Some ((if x \<noteq> 0 then -1 else 0, v), close_all (snd (run_state (ar_out Em v) t)))))"

section \<open>Nothing stays behind\<close>

definition blocks_held :: "(ar_block \<Rightarrow> u64 option) \<Rightarrow> res multiset" where
  "blocks_held p = block_held (p Buf) + block_held (p Stage) + block_held (p Scratch)"

definition buffers_held :: "(ar_buffer \<Rightarrow> shared_buffer) \<Rightarrow> res multiset" where
  "buffers_held b = shared_held (b R_buf) + shared_held (b L_buf) + shared_held (b Stage_buf) + shared_held (b Scratch_r) + shared_held (b Scratch_l)"

text \<open>The variables hold exactly what was acquired, and those of \<open>B\<close> and \<open>H\<close> are as constructed.\<close>

definition ar_at :: "env \<Rightarrow> res multiset \<Rightarrow> ar_block set \<Rightarrow> ar_buffer set \<Rightarrow> ar_vars \<Rightarrow> trace \<Rightarrow> bool" where
  "ar_at E M B H v t \<longleftrightarrow> rdma_env_ok E t \<and> live E t = M + blocks_held (av_block v) + buffers_held (av_sb v) \<and> \<not> av_terminated v \<and>
     (\<forall>k \<in> B. av_block v k = None) \<and> (\<forall>h \<in> H. av_sb v h = shared_buffer_new)"

abbreviation ar_inv :: "env \<Rightarrow> res multiset \<Rightarrow> ar_vars \<Rightarrow> trace \<Rightarrow> bool" where
  "ar_inv E M \<equiv> ar_at E M {} {}"

abbreviation ar_talks :: "ar_vars stmt \<Rightarrow> bool" where
  "ar_talks \<equiv> leaves (\<lambda>v. (av_block v, av_sb v, av_terminated v))"

text \<open>Where \<open>main\<close> leaves, or the process is terminated.\<close>

definition ar_end :: "env \<Rightarrow> res multiset \<Rightarrow> ar_config \<Rightarrow> ar_vars \<Rightarrow> trace \<Rightarrow> bool" where
  "ar_end E M cfg v t \<longleftrightarrow> rdma_env_ok E t \<and> live E t = M + blocks_held (av_block v) + buffers_held (av_sb v) \<and>
     (av_terminated v \<longrightarrow> ac_iters cfg < 0)"

lemma ar_at_weaken: "ar_at E M B H v t \<Longrightarrow> ar_inv E M v t"
  by (simp add: ar_at_def)

lemma ar_at_end: "ar_at E M B H v t \<Longrightarrow> ar_end E M cfg v t"
  by (simp add: ar_at_def ar_end_def)

lemma ar_talks_triple: "ar_talks f \<Longrightarrow> triple (ar_at E M B H) f (ar_at E M B H) (ar_inv E M)"
proof (rule tripleI)
  fix v t r v' u assume f: "ar_talks f" and i: "ar_at E M B H v t" and s: "f v t = Some ((r, v'), u)"
  from leavesD [OF f s] adds_silent [of t u E] i have "ar_at E M B H v' u" by (simp add: ar_at_def rdma_env_ok_def)
  then show "if r = 0 then ar_at E M B H v' u else ar_inv E M v' u" by (simp add: ar_at_def)
qed

lemma blocks_held_set: "p k = None \<Longrightarrow> blocks_held (p(k := q)) = blocks_held p + block_held q"
  by (cases k) (simp_all add: blocks_held_def block_held_def)

lemma buffers_held_set: "shared_held (b h) = {#} \<Longrightarrow> buffers_held (b(h := x)) = buffers_held b + shared_held x"
  by (cases h) (simp_all add: buffers_held_def)

lemma triple_a_alloc: "k \<in> B \<Longrightarrow> triple (ar_at E M B H) (a_alloc E k n) (ar_at E M (B - {k}) H) (ar_inv E M)"
  by (rule tripleI)
    (auto simp: a_alloc_def run_stmt_def run_simps ar_at_def blocks_held_set block_held_def rdma_env_ok_def split: if_splits)

lemma triple_a_reg: "h \<in> H \<Longrightarrow> triple (ar_at E M B H) (a_reg E h tr k n) (ar_at E M B (H - {h})) (ar_inv E M)"
proof (rule tripleI)
  fix v t r v' u assume h: "h \<in> H" and i: "ar_at E M B H v t" and s: "a_reg E h tr k n v t = Some ((r, v'), u)"
  then obtain b where b: "run_state (shared_buffer_init E shared_buffer_new tr (the (av_block v k)) n) t = ((r, b), u)"
      "v' = v\<lparr>av_sb := (av_sb v)(h := b)\<rparr>"
    by (auto simp: ar_at_def a_reg_def run_stmt_def run_simps split: prod.splits)
  have "shared_held (av_sb v h) = {#}" using i h by (simp add: ar_at_def shared_held_def shared_buffer_new_def)
  moreover have "live E u = live E t + shared_held b"
    using shared_scoped.acquire_spec [of E "(tr, the (av_block v k), n)" t r b u] b(1) by auto
  ultimately have "ar_at E M B (H - {h}) v' u"
    using i b(2) shared_quiet(1) [OF b(1)] by (auto simp: ar_at_def rdma_env_ok_def buffers_held_set)
  then show "if r = 0 then ar_at E M B (H - {h}) v' u else ar_inv E M v' u" by (simp add: ar_at_weaken)
qed

lemma quiet_access: "only silent (a_get E w v a)" "only silent (a_put E v a x)"
  unfolding a_get_def a_put_def by (intro only_intros; simp)+

lemma ar_talks_simple:
  "ar_talks (a_fill E F cfg)" "ar_talks (a_check E F w cfg)" "ar_talks (a_add E F w dst src n)" "ar_talks (a_poll E tr)"
  "ar_talks (a_report cfg)"
proof -
  show "ar_talks (a_fill E F cfg)" "ar_talks (a_add E F w dst src n)"
    unfolding a_fill_def a_add_def
    by (intro leaves_for leaves_run only_intros quiet_access; auto simp: a_put_def a_get_def run_simps split: if_splits)+
  show "ar_talks (a_check E F w cfg)" unfolding a_check_def by (intro leaves_intros only_intros quiet_access)
  show "ar_talks (a_poll E tr)" by (rule leavesI) (auto simp: a_poll_def split: option.splits dest: quiet_transport_poll)
  show "ar_talks (a_report cfg)" unfolding a_report_def by (rule leaves_set) simp
qed

lemma ar_talks_act: "ar_talks (a_act E F w hs a)"
proof (cases a)
  case (RecvLeft h len i off)
  then show ?thesis
    by simp (rule leaves_run; auto simp: run_simps split: prod.splits intro!: only_intros quiet_transport)
qed (simp_all add: leaves_call quiet_transport leaves_skip ar_talks_simple)

lemma ar_talks_collectives: "ar_talks (a_allreduce E F w n)" "ar_talks (a_barrier E F w)" "ar_talks (ar_round E F w cfg i)"
proof -
  show a: "ar_talks (a_allreduce E F w n)" for n
    unfolding a_allreduce_def Let_def by (intro leaves_if leaves_skip leaves_for ar_talks_act) (rule leavesI, simp)
  show b: "ar_talks (a_barrier E F w)" unfolding a_barrier_def by (intro leaves_intros ar_talks_act)
  show "ar_talks (ar_round E F w cfg i)" unfolding ar_round_def block_Cons block_Nil by (intro leaves_intros a b ar_talks_simple; simp)
qed

lemma ar_setup_safe: "triple (ar_at E M UNIV UNIV) (ar_setup E F w cfg) (ar_inv E M) (ar_inv E M)"
  unfolding ar_setup_def Let_def block_Cons block_Nil
  by (intro triple_then [OF triple_a_alloc] triple_then [OF triple_a_reg] triple_then [OF ar_talks_triple [OF ar_talks_simple(1)]]
      triple_weaken [OF triple_skip ar_at_weaken]; simp)

lemma a_latencies_safe: "triple (ar_inv E M) (a_latencies cfg) (ar_inv E M) (ar_end E M cfg)"
  by (rule tripleI) (auto simp: a_latencies_def ar_at_def ar_end_def split: if_splits)

lemmas ar_leave = triple_leave [OF _ ar_at_end, THEN triple_then]

lemmas ar_talk = ar_talks_simple [THEN ar_talks_triple, THEN ar_leave] ar_talks_collectives [THEN ar_talks_triple, THEN ar_leave]
  ar_talks_collectives(3) [THEN leaves_for, THEN ar_talks_triple, THEN ar_leave]

lemma ar_body_safe: "triple (ar_at E M UNIV UNIV) (ar_body E F w cfg) (ar_inv E M) (ar_end E M cfg)"
  unfolding ar_body_def block_Cons block_Nil by (intro ar_leave [OF ar_setup_safe] triple_then [OF a_latencies_safe] ar_talk triple_skip)

lemma gives_back_block: "gives_back E (block_held p) (a_free E p)"
  by (cases p) (auto simp: gives_back_def a_free_def block_held_def run_simps rdma_env_ok_def)

lemma ar_out_spec:
  assumes "ar_end E M cfg v t" and "run_state (ar_out E v) t = (x, u)"
  shows "rdma_env_ok E u \<and> live E u = M"
proof -
  have "gives_back E (blocks_held (av_block v) + buffers_held (av_sb v)) (ar_out E v)"
    using gives_back_bind [OF gives_back_buffer [of E "av_sb v Scratch_l"] gives_back_bind [OF gives_back_buffer [of E "av_sb v Scratch_r"]
      gives_back_bind [OF gives_back_block [of E "av_block v Scratch"] gives_back_bind [OF gives_back_buffer [of E "av_sb v Stage_buf"]
      gives_back_bind [OF gives_back_buffer [of E "av_sb v L_buf"] gives_back_bind [OF gives_back_buffer [of E "av_sb v R_buf"]
      gives_back_bind [OF gives_back_block [of E "av_block v Stage"] gives_back_block [of E "av_block v Buf"]]]]]]]]
    by (simp add: ar_out_def blocks_held_def buffers_held_def ac_simps)
  with assms show ?thesis by (auto simp: gives_back_def ar_end_def add.assoc)
qed

lemma ar_body_ends:
  assumes "rdma_env_ok E t" and "ar_body E F w cfg (ar_vars_init m) t = Some ((x, v), u)"
  shows "ar_end E (live E t) cfg v u"
proof -
  have "ar_at E (live E t) UNIV UNIV (ar_vars_init m) t"
    using assms(1) by (simp add: ar_at_def ar_vars_init_def blocks_held_def buffers_held_def block_held_def shared_held_def shared_buffer_new_def)
  from tripleD [OF ar_body_safe this assms(2)] ar_at_end show ?thesis by (auto split: if_splits)
qed

text \<open>The check goes through every float, and passes where none is far from the expected one.\<close>

lemma a_check_passes:
  assumes "\<And>i t. i < nat (ac_count cfg) \<Longrightarrow> \<not> fl_far F (fst (run_state (a_get E w v (float_at v Buf i)) t)) (ar_expect F cfg)"
  shows "\<exists>u. a_check E F w cfg v t = Some ((0, v), u)"
proof -
  let ?f = "\<lambda>i. do_call (\<lambda>v. do {
     x \<leftarrow> a_get E w v (float_at v Buf i);
     ret (if fl_far F x (ar_expect F cfg) then -1 else 0) })"
  have "\<exists>u. for_each ?f is v t = Some ((0, v), u)" if "\<forall>i \<in> set is. i < nat (ac_count cfg)" for "is" t
    using that
  proof (induction "is" arbitrary: t)
    case (Cons i "is")
    obtain x u where x: "run_state (a_get E w v (float_at v Buf i)) t = (x, u)" by (metis surj_pair)
    with assms [of i t] Cons show ?case by (simp add: then_do_def do_call_def run_simps)
  qed (simp add: skip_def)
  from this [of "[0..<nat (ac_count cfg)]"] show ?thesis by (simp add: a_check_def)
qed

section \<open>Properties\<close>

text \<open>
  C8. The all-reduce benchmark leaks nothing: on every path out of \<open>main\<close> (bad arguments, a group that
  could not be built, an allocation or a registration that failed, a collective or a check that
  failed, success), the destructors leave held, in the history of either thread, what was held before.
  The one other end is the exception of a negative number of rounds, which terminates the process
  where it stands: there exactly the group's transports, the arrays and their registrations are
  still held.
\<close>

theorem allreduce_bench_balanced:
  assumes "cm_ok El" "cm_requests_ok El" "listeners ta = {}" "cm_ok Em" "cm_requests_ok Em" "listeners tb = {}"
    and "allreduce_bench El Em F w0 m args (ta, tb) = Some ((r, v), (va, vb))"
  shows "if av_terminated v
    then ac_iters (snd (ar_config_parse args ar_config_init)) < 0 \<and>
      (\<exists>tr tr'. live El va = live El ta + transport_held tr \<and>
        live Em vb = live Em tb + transport_held tr' + blocks_held (av_block v) + buffers_held (av_sb v))
    else live El va = live El ta \<and> live Em vb = live Em tb"
proof (cases "va = ta \<and> vb = tb \<and> \<not> av_terminated v")
  case False
  obtain c cfg where p: "ar_config_parse args ar_config_init = (c, cfg)" by (metis surj_pair)
  obtain wr g ua ub where w: "world_init El Em (Some w0) (ac_rank cfg) (ac_world cfg) (ar_hosts cfg) (ac_base_port cfg) (ac_is_rdma cfg) (ta, tb) =
      ((wr, Some g), (ua, ub))" using world_init_some by blast
  have "rdma_env_ok El ta" "rdma_env_ok Em tb" using assms(1-6) by (simp_all add: rdma_env_ok_def)
  note h = world_init_holds [OF this w]
  let ?close = "\<lambda>s. va = snd (run_state (transport_close El (w_left g)) ua) \<and> vb = snd (run_state (transport_close Em (w_right g)) s)"
  have start: "\<not> av_terminated (ar_vars_init m)" by (simp add: ar_vars_init_def)
  define B where "B = ar_body Em F g cfg (ar_vars_init m) ub"
  have e: "?close ub \<and> \<not> av_terminated v \<or> (\<exists>x t. ar_body Em F g cfg (ar_vars_init m) ub = Some ((x, v), t) \<and>
      (if av_terminated v then va = ua \<and> vb = t else ?close (snd (run_state (ar_out Em v) t))))"
    using assms(7) False start unfolding allreduce_bench_def Let_def p w B_def [symmetric]
    by (cases B) (auto simp: p w B_def [symmetric] split: if_splits)
  consider "?close ub" "\<not> av_terminated v"
    | x t where "ar_body Em F g cfg (ar_vars_init m) ub = Some ((x, v), t)" "av_terminated v" "va = ua" "vb = t"
    | x t where "ar_body Em F g cfg (ar_vars_init m) ub = Some ((x, v), t)" "\<not> av_terminated v" "?close (snd (run_state (ar_out Em v) t))"
    using e by (auto split: if_splits)
  then show ?thesis
  proof cases
    case 1
    obtain x y where x: "run_state (transport_close El (w_left g)) ua = (x, va)" and y: "run_state (transport_close Em (w_right g)) ub = (y, vb)"
      using 1(1) by (metis prod.collapse)
    from transports.close_spec [OF h(1-3) x] transports.close_spec [OF h(4-6) y] 1(2) show ?thesis by simp
  next
    case 2
    from ar_body_ends [OF h(4) 2(1)] 2 h(3,6) p show ?thesis by (auto simp: ar_end_def)
  next
    case 3
    let ?s = "snd (run_state (ar_out Em v) t)"
    have s: "rdma_env_ok Em ?s" "live Em ?s = live Em ub" using ar_out_spec [OF ar_body_ends [OF h(4) 3(1)]] by (metis prod.collapse)+
    obtain x y where x: "run_state (transport_close El (w_left g)) ua = (x, va)" and y: "run_state (transport_close Em (w_right g)) ?s = (y, vb)"
      using 3(3) by (metis prod.collapse)
    from transports.close_spec [OF h(1-3) x] transports.close_spec [OF s(1) h(5) _ y] h(6) s(2) 3(2) show ?thesis by simp
  qed
qed auto

text \<open>Where a poll returns, so does the whole program.\<close>

lemma ar_body_returns:
  assumes "\<And>tr t. transport_poll E tr None t \<noteq> None"
  shows "returns (ar_body E F w cfg)"
proof -
  have p: "returns (a_poll E tr)" for tr unfolding returns_def a_poll_def using assms [of tr] by (auto split: option.splits)
  have a: "returns (a_act E F w hs x)" for hs x
    by (cases x) (simp_all add: p returns_simple returns_skip a_add_def returns_for)
  have r: "returns (a_allreduce E F w n)" "returns (a_barrier E F w)" for n
    unfolding a_allreduce_def a_barrier_def Let_def
    by (auto simp: returns_skip intro!: returns_for a) (simp_all add: returns_def)
  have f: "returns (a_fill E F cfg)" "returns (a_check E F w cfg)"
    unfolding a_fill_def a_check_def by (auto intro!: returns_for returns_simple)
  have l: "returns (a_latencies cfg)" by (simp add: returns_def a_latencies_def)
  have i: "returns (ar_round E F w cfg i)" for i
    unfolding ar_round_def block_Cons block_Nil by (auto intro!: returns_then returns_simple returns_skip r f)
  have s: "returns (ar_setup E F w cfg)"
    unfolding ar_setup_def Let_def block_Cons block_Nil a_alloc_def a_reg_def by (intro returns_then returns_simple returns_skip f)
  show ?thesis
    unfolding ar_body_def block_Cons block_Nil a_report_def by (intro returns_then returns_simple returns_skip returns_for s r f l i)
qed

lemma allreduce_bench_returns:
  assumes "ar_config_parse args ar_config_init = (0, cfg)" and "\<And>w. returns (ar_body Em F w cfg)"
  shows "\<exists>r v va vb. allreduce_bench El Em F w0 m args ts = Some ((r, v), (va, vb))"
proof (cases "args = [''--csv-header'']")
  case False
  obtain wr g ua ub where "world_init El Em (Some w0) (ac_rank cfg) (ac_world cfg) (ar_hosts cfg) (ac_base_port cfg) (ac_is_rdma cfg) ts =
      ((wr, g), (ua, ub))" by (metis surj_pair)
  moreover obtain x v t where "ar_body Em F (the g) cfg (ar_vars_init m) ub = Some ((x, v), t)"
    using assms(2) [of "the g"] unfolding returns_def by (metis not_Some_eq surj_pair)
  ultimately show ?thesis using assms(1) False by (simp add: allreduce_bench_def Let_def)
qed (auto simp: allreduce_bench_def)

definition toy_floats :: floats where
  "toy_floats = \<lparr>fl_of_int = (\<lambda>n. u32_bytes (word_of_int n)), fl_half = (\<lambda>n. u32_bytes (word_of_int (n div 2))), fl_add = (\<lambda>x y. x),
     fl_far = (\<lambda>x y. x \<noteq> y)\<rparr>"

theorem allreduce_bench_balanced_witness:
  "\<exists>r v va vb. allreduce_bench cm_calm cm_calm toy_floats lone (\<lambda>_. 0)
      [''1'', ''2'', ''7000'', ''10.0.0.1'', ''10.0.0.2'', ''--rdma'', ''--iters'', ''5''] ([], []) = Some ((r, v), (va, vb)) \<and>
     live cm_calm va = {#} \<and> live cm_calm vb = {#}"
proof -
  let ?args = "[''1'', ''2'', ''7000'', ''10.0.0.1'', ''10.0.0.2'', ''--rdma'', ''--iters'', ''5'']"
  let ?cfg = "ar_config_init\<lparr>ac_rank := 1, ac_world := 2, ac_base_port := 7000, ac_host_list := [''10.0.0.1'', ''10.0.0.2''],
    ac_is_rdma := True, ac_iters := 5\<rparr>"
  have c: "ar_config_parse ?args ar_config_init = (0, ?cfg)" by code_simp
  have "returns (ar_body cm_calm toy_floats w ?cfg)" for w by (intro ar_body_returns calm_transport_poll)
  then obtain r v va vb where b: "allreduce_bench cm_calm cm_calm toy_floats lone (\<lambda>_. 0) ?args ([], []) = Some ((r, v), (va, vb))"
    using allreduce_bench_returns [OF c] by blast
  have "listeners [] = {}" by simp
  from allreduce_bench_balanced [OF cm_calm_ok cm_calm_requests this cm_calm_ok cm_calm_requests this b] b show ?thesis
    unfolding c by (auto split: if_splits)
qed

subsection \<open>What a command line that parses stands for\<close>

lemma ar_options_keeps:
  assumes "ar_options xs cfg = (r, cfg')"
  shows "ac_rank cfg' = ac_rank cfg \<and> ac_world cfg' = ac_world cfg \<and> ac_host_list cfg' = ac_host_list cfg \<and>
    (ac_count cfg' = ac_count cfg \<or> ac_count cfg' < 2 ^ 31)"
  using assms
proof (induction xs cfg rule: ar_options.induct)
  case (2 opt rest cfg)
  have lt: "atoi val < 2 ^ 31" for val using atoi_range by blast
  consider (iters) val rest' where "opt = ''--iters''" "rest = val # rest'" "ar_options rest' (cfg\<lparr>ac_iters := atoi val\<rparr>) = (r, cfg')"
    | (cnt) val rest' where "opt \<noteq> ''--iters''" "opt = ''--count''" "rest = val # rest'" "ar_options rest' (cfg\<lparr>ac_count := atoi val\<rparr>) = (r, cfg')"
    | (rdma) "opt \<noteq> ''--iters''" "opt \<noteq> ''--count''" "opt = ''--rdma''" "ar_options rest (cfg\<lparr>ac_is_rdma := True\<rparr>) = (r, cfg')"
    | (csv) "opt \<noteq> ''--iters''" "opt \<noteq> ''--count''" "opt \<noteq> ''--rdma''" "opt = ''--csv''" "ar_options rest (cfg\<lparr>ac_csv := True\<rparr>) = (r, cfg')"
    | (other) "opt \<noteq> ''--iters''" "opt \<noteq> ''--count''" "opt \<noteq> ''--rdma''" "opt \<noteq> ''--csv''" "ar_options rest cfg = (r, cfg')"
    | (missing) "cfg' = cfg"
    using 2(6) unfolding ar_options.simps by (cases rest) (simp_all only: list.case split: if_splits, auto)
  then show ?case
  proof cases
    case iters
    with 2(1) [OF iters(1,2,3)] show ?thesis by simp
  next
    case cnt
    with 2(2) [OF cnt] lt [of val] show ?thesis by auto
  next
    case rdma
    with 2(3) [OF rdma] show ?thesis by simp
  next
    case csv
    with 2(4) [OF csv] show ?thesis by simp
  next
    case other
    with 2(5) [OF other] show ?thesis by simp
  qed simp
qed simp

text \<open>
  C9. The benchmark runs only on well-formed settings: when its command line parses, the rank is one
  of the group, there is one host for each rank, so that the right neighbour's is one of them, and
  the array divides into one chunk for each rank, as \<open>ring_allreduce\<close> demands in its own arithmetic.
\<close>

theorem ar_config_wf:
  assumes "ar_config_parse args ar_config_init = (0, cfg)"
  shows "0 \<le> ac_rank cfg \<and> ac_rank cfg < ac_world cfg \<and> int (length (ac_host_list cfg)) = ac_world cfg \<and>
    ar_hosts cfg (c_rem (ac_rank cfg + 1) (ac_world cfg)) \<noteq> None \<and> 0 < ac_count cfg \<and> ac_count cfg < 2 ^ 31 \<and>
    (word_of_int (ac_count cfg) :: u64) mod word_of_int (ac_world cfg) = 0"
proof -
  obtain a b c rest where args: "args = a # b # c # rest" using assms by (auto simp: ar_config_parse_def split: list.splits)
  let ?cfg1 = "ar_config_init\<lparr>ac_rank := atoi a, ac_world := atoi b, ac_base_port := atoi c\<rparr>" and ?n = "nat (atoi b)"
  have w: "0 < atoi b" "0 \<le> atoi a" "atoi a < atoi b" "?n \<le> length rest"
    using assms by (auto simp: args ar_config_parse_def Let_def ar_config_init_def split: if_splits)
  have o: "ar_options (drop ?n rest) (?cfg1\<lparr>ac_host_list := take ?n rest\<rparr>) = (0, cfg)" and k: "0 < ac_count cfg" "c_rem (ac_count cfg) (ac_world cfg) = 0"
    using assms w by (auto simp: args ar_config_parse_def Let_def ar_config_init_def split: if_splits prod.splits)
  have f: "ac_rank cfg = atoi a" "ac_world cfg = atoi b" "ac_host_list cfg = take ?n rest" "ac_count cfg < 2 ^ 31"
    using ar_options_keeps [OF o] by (auto simp: ar_config_init_def)
  have m: "ac_count cfg mod ac_world cfg = 0" using k w f by simp
  have "uint (word_of_int (ac_count cfg) :: u64) = ac_count cfg" "uint (word_of_int (ac_world cfg) :: u64) = ac_world cfg"
    using k(1) f(2,4) w(1) atoi_range [of b] by (simp_all add: uint_word_of_int take_bit_eq_mod)
  with m have z: "(word_of_int (ac_count cfg) :: u64) mod word_of_int (ac_world cfg) = 0" by (simp add: word_uint_eq_iff uint_mod)
  have "0 \<le> (atoi a + 1) mod atoi b" "(atoi a + 1) mod atoi b < atoi b" using w(1) by simp_all
  then have "ar_hosts cfg (c_rem (ac_rank cfg + 1) (ac_world cfg)) \<noteq> None"
    using w f by (simp add: ar_hosts_def nat_less_iff)
  with w f k z show ?thesis by simp
qed

theorem ar_config_wf_witness:
  "ar_config_parse [''1'', ''2'', ''7000'', ''h0'', ''h1'', ''--count'', ''6''] ar_config_init =
      (0, ar_config_init\<lparr>ac_rank := 1, ac_world := 2, ac_base_port := 7000, ac_host_list := [''h0'', ''h1''], ac_count := 6\<rparr>) \<and>
    (word_of_int 6 :: u64) mod word_of_int 2 = 0"
proof -
  have c: "ar_config_parse [''1'', ''2'', ''7000'', ''h0'', ''h1'', ''--count'', ''6''] ar_config_init =
      (0, ar_config_init\<lparr>ac_rank := 1, ac_world := 2, ac_base_port := 7000, ac_host_list := [''h0'', ''h1''], ac_count := 6\<rparr>)" by code_simp
  from ar_config_wf [OF c] c show ?thesis by simp
qed

end
