(* ===== verification/Python_Binding.thy ===== *)
theory Python_Binding
  imports Transport_Class
begin

text \<open>
  The Python module \<open>_core\<close> (transport_py.cpp): the functions it adds to the class \<open>Transport\<close>, each of
  which turns a failure into an exception, and a Python program as any sequence of such calls on one
  transport and the buffers registered on it. An exception does not end the program, which may catch
  it. What pybind11 does around a call (converting arguments, the interpreter's lock) is not part of
  the sources; of \<open>keep_alive\<close> only the documented order is used, that the transport goes after its
  buffers.
\<close>

section \<open>Definitions\<close>

subsection \<open>The functions of the module\<close>

text \<open>The result of a call: the text of the exception, or a value.\<close>

type_synonym 'a py = "string + 'a"

definition raise_if :: "int \<Rightarrow> string \<Rightarrow> 'a \<Rightarrow> 'a py" where
  "raise_if r msg x = (if r \<noteq> 0 then Inl msg else Inr x)"

text \<open>
  A registration that fails destroys the \<open>RegisteredBuffer\<close> again, whose \<open>ScopedBuffer\<close> already knows
  its transport.
\<close>

definition registered :: "env \<Rightarrow> string \<Rightarrow> transport \<Rightarrow> u64 \<Rightarrow> u64 \<Rightarrow> (trace, shared_buffer py) state" where
  "registered E msg tr addr nbytes = do {
     (r, b) \<leftarrow> shared_buffer_init E shared_buffer_new tr addr nbytes;
     if r \<noteq> 0 then do { _ \<leftarrow> shared_buffer_destroy E b; ret (Inl msg) } else ret (Inr b) }"

text \<open>The buffer protocol: where the object's memory is, its number of items and their size, or no writable memory.\<close>

definition py_reg_buf :: "env \<Rightarrow> transport \<Rightarrow> (u64 \<times> int \<times> int) option \<Rightarrow> (trace, shared_buffer py) state" where
  "py_reg_buf E tr info =
     (case info of None \<Rightarrow> ret (Inl ''request failed'')
      | Some (ptr, items, itemsize) \<Rightarrow> registered E ''reg_buf failed'' tr ptr (word_of_int (items * itemsize)))"

definition py_reg_tensor :: "env \<Rightarrow> transport \<Rightarrow> u64 \<Rightarrow> u64 \<Rightarrow> (trace, shared_buffer py) state" where
  "py_reg_tensor E tr addr nbytes = registered E ''reg_tensor failed'' tr addr nbytes"

definition py_send_async :: "env \<Rightarrow> transport \<Rightarrow> memory \<Rightarrow> shared_buffer \<Rightarrow> u64 \<Rightarrow> u64 \<Rightarrow> u64 \<Rightarrow> (trace, unit py) state" where
  "py_send_async E tr m mr len i off = do {
     r \<leftarrow> transport_send_async E tr m (Some (sh_h mr)) len i off;
     ret (raise_if r ''send_async failed'' ()) }"

definition py_recv_async :: "env \<Rightarrow> transport \<Rightarrow> memory \<Rightarrow> shared_buffer \<Rightarrow> u64 \<Rightarrow> u64 \<Rightarrow> u64 \<Rightarrow> (trace, unit py \<times> memory) state" where
  "py_recv_async E tr m mr len i off = do {
     (r, m') \<leftarrow> transport_recv_async E tr (Some (sh_h mr)) len i off m;
     ret (raise_if r ''recv_async failed'' (), m') }"

definition py_poll :: "env \<Rightarrow> transport \<Rightarrow> trace \<Rightarrow> (u64 py \<times> trace) option" where
  "py_poll E tr t =
     (case transport_poll E tr (Some 0) t of None \<Rightarrow> None
      | Some ((r, i), u) \<Rightarrow> Some (raise_if r ''poll failed'' (the i), u))"

definition py_exchange_buf :: "env \<Rightarrow> transport \<Rightarrow> shared_buffer \<Rightarrow> (trace, (u64 \<times> u32) py \<times> transport) state" where
  "py_exchange_buf E tr mr = do {
     (r, tr', a, k) \<leftarrow> transport_exchange_buf E tr (Some (sh_h mr)) (Some 0) (Some 0);
     ret (raise_if r ''exchange_buf failed'' (the a, the k), tr') }"

definition py_write_async ::
    "env \<Rightarrow> transport \<Rightarrow> memory \<Rightarrow> shared_buffer \<Rightarrow> u64 \<Rightarrow> u32 \<Rightarrow> u64 \<Rightarrow> u64 \<Rightarrow> u64 \<Rightarrow> (trace, unit py) state" where
  "py_write_async E tr m mr ra rk len i off = do {
     r \<leftarrow> transport_write_async E tr m (Some (sh_h mr)) ra rk len i off;
     ret (raise_if r ''write_async failed'' ()) }"

definition py_read_async :: "env \<Rightarrow> transport \<Rightarrow> shared_buffer \<Rightarrow> u64 \<Rightarrow> u32 \<Rightarrow> u64 \<Rightarrow> u64 \<Rightarrow> u64 \<Rightarrow> (trace, unit py) state" where
  "py_read_async E tr mr ra rk len i off = do {
     r \<leftarrow> transport_read_async E tr (Some (sh_h mr)) ra rk len i off;
     ret (raise_if r ''read_async failed'' ()) }"

subsection \<open>A Python program\<close>

text \<open>The objects: a transport, the buffers registered on it and not yet collected, the memory of the process.\<close>

record py_objects =
  py_tr :: transport
  py_bufs :: "shared_buffer list"
  py_mem :: memory

text \<open>
  The functions bound directly return their code as an int. \<open>Del\<close> is the end of a buffer's last
  reference.
\<close>

datatype py_call =
    Call_op session_op
  | Call_close
  | Reg_buf "(u64 \<times> int \<times> int) option"
  | Reg_tensor u64 u64
  | Send_async nat u64 u64 u64
  | Recv_async nat u64 u64 u64
  | Py_poll
  | Exchange_buf nat
  | Write_async nat u64 u32 u64 u64 u64
  | Read_async nat u64 u32 u64 u64 u64
  | Del nat

datatype py_value = None_val | Int_val int | Id_val u64 | Pair_val u64 u32 | Buffer_val

definition drop_nth :: "nat \<Rightarrow> 'a list \<Rightarrow> 'a list" where
  "drop_nth i xs = take i xs @ drop (Suc i) xs"

definition give :: "('a \<Rightarrow> py_value) \<Rightarrow> 'a py \<Rightarrow> py_value py" where
  "give f x = (case x of Inl e \<Rightarrow> Inl e | Inr a \<Rightarrow> Inr (f a))"

definition keep_new :: "py_objects \<Rightarrow> shared_buffer py \<Rightarrow> py_value py \<times> py_objects" where
  "keep_new s x = (case x of Inl e \<Rightarrow> (Inl e, s) | Inr b \<Rightarrow> (Inr Buffer_val, s\<lparr>py_bufs := py_bufs s @ [b]\<rparr>))"

text \<open>A call, except for the poll, which may not return. A name that is bound to no buffer is an exception.\<close>

fun py_exec :: "env \<Rightarrow> py_call \<Rightarrow> py_objects \<Rightarrow> (trace, py_value py \<times> py_objects) state" where
  "py_exec E (Call_op op) s = do { (r, tr) \<leftarrow> transport_op E op (py_tr s); ret (Inr (Int_val r), s\<lparr>py_tr := tr\<rparr>) }"
| "py_exec E Call_close s = do { tr \<leftarrow> transport_close E (py_tr s); ret (Inr None_val, s\<lparr>py_tr := tr\<rparr>) }"
| "py_exec E (Reg_buf info) s = do { x \<leftarrow> py_reg_buf E (py_tr s) info; ret (keep_new s x) }"
| "py_exec E (Reg_tensor addr nbytes) s = do { x \<leftarrow> py_reg_tensor E (py_tr s) addr nbytes; ret (keep_new s x) }"
| "py_exec E (Send_async b len i off) s =
     (if length (py_bufs s) \<le> b then ret (Inl ''name'', s)
      else do { x \<leftarrow> py_send_async E (py_tr s) (py_mem s) (py_bufs s ! b) len i off; ret (give (\<lambda>_. None_val) x, s) })"
| "py_exec E (Recv_async b len i off) s =
     (if length (py_bufs s) \<le> b then ret (Inl ''name'', s)
      else do { (x, m) \<leftarrow> py_recv_async E (py_tr s) (py_mem s) (py_bufs s ! b) len i off; ret (give (\<lambda>_. None_val) x, s\<lparr>py_mem := m\<rparr>) })"
| "py_exec E Py_poll s = ret (Inr None_val, s)"
| "py_exec E (Exchange_buf b) s =
     (if length (py_bufs s) \<le> b then ret (Inl ''name'', s)
      else do { (x, tr) \<leftarrow> py_exchange_buf E (py_tr s) (py_bufs s ! b); ret (give (\<lambda>(a, k). Pair_val a k) x, s\<lparr>py_tr := tr\<rparr>) })"
| "py_exec E (Write_async b ra rk len i off) s =
     (if length (py_bufs s) \<le> b then ret (Inl ''name'', s)
      else do { x \<leftarrow> py_write_async E (py_tr s) (py_mem s) (py_bufs s ! b) ra rk len i off; ret (give (\<lambda>_. None_val) x, s) })"
| "py_exec E (Read_async b ra rk len i off) s =
     (if length (py_bufs s) \<le> b then ret (Inl ''name'', s)
      else do { x \<leftarrow> py_read_async E (py_tr s) (py_bufs s ! b) ra rk len i off; ret (give (\<lambda>_. None_val) x, s) })"
| "py_exec E (Del b) s =
     (if length (py_bufs s) \<le> b then ret (Inl ''name'', s)
      else do { _ \<leftarrow> shared_buffer_destroy E (py_bufs s ! b); ret (Inr None_val, s\<lparr>py_bufs := drop_nth b (py_bufs s)\<rparr>) })"

definition py_step :: "env \<Rightarrow> py_call \<Rightarrow> py_objects \<Rightarrow> trace \<Rightarrow> ((py_value py \<times> py_objects) \<times> trace) option" where
  "py_step E c s t = (if c = Py_poll then map_option (\<lambda>(x, u). ((give Id_val x, s), u)) (py_poll E (py_tr s) t) else Some (run_state (py_exec E c s) t))"

text \<open>The calls one after the other, with what each gave.\<close>

fun py_run :: "env \<Rightarrow> py_call list \<Rightarrow> py_objects \<Rightarrow> trace \<Rightarrow> ((py_value py list \<times> py_objects) \<times> trace) option" where
  "py_run E [] s t = Some (([], s), t)"
| "py_run E (c # cs) s t =
     (case py_step E c s t of None \<Rightarrow> None
      | Some ((x, s'), u) \<Rightarrow> (case py_run E cs s' u of None \<Rightarrow> None | Some ((xs, s''), w) \<Rightarrow> Some ((x # xs, s''), w)))"

definition py_create :: "bool \<Rightarrow> memory \<Rightarrow> py_objects" where
  "py_create use_rdma m = \<lparr>py_tr = create_transport use_rdma, py_bufs = [], py_mem = m\<rparr>"

text \<open>The end of the interpreter: the buffers, then the transport.\<close>

fun py_collect :: "env \<Rightarrow> shared_buffer list \<Rightarrow> (trace, unit) state" where
  "py_collect E [] = ret ()"
| "py_collect E (b # bs) = do { _ \<leftarrow> shared_buffer_destroy E b; py_collect E bs }"

definition py_exit :: "env \<Rightarrow> py_objects \<Rightarrow> (trace, unit) state" where
  "py_exit E s = do { _ \<leftarrow> py_collect E (py_bufs s); _ \<leftarrow> transport_close E (py_tr s); ret () }"

text \<open>
  Two rules that the module does not enforce, under which nothing leaks. A TCP transport is not
  connected, made to listen or to accept while it has the descriptor that this would overwrite
  (\<open>transport_may\<close>): a second \<open>connect\<close> loses the first connection. And a transport is closed, connected
  or made to listen only while no buffer is registered on it: a protection domain that still has
  memory regions cannot be deallocated.
\<close>

fun py_may :: "py_call \<Rightarrow> py_objects \<Rightarrow> bool" where
  "py_may (Call_op op) s \<longleftrightarrow> transport_may op (py_tr s) \<and> (op = Op_accept \<or> py_bufs s = [])"
| "py_may Call_close s \<longleftrightarrow> py_bufs s = []"
| "py_may c s \<longleftrightarrow> True"

fun py_ordered :: "env \<Rightarrow> py_call list \<Rightarrow> py_objects \<Rightarrow> trace \<Rightarrow> bool" where
  "py_ordered E [] s t \<longleftrightarrow> True"
| "py_ordered E (c # cs) s t \<longleftrightarrow> py_may c s \<and> (case py_step E c s t of None \<Rightarrow> True | Some ((x, s'), u) \<Rightarrow> py_ordered E cs s' u)"

section \<open>What a program holds\<close>

abbreviation bufs_held :: "shared_buffer list \<Rightarrow> res multiset" where
  "bufs_held bs \<equiv> sum_list (map shared_held bs)"

definition py_inv :: "env \<Rightarrow> res multiset \<Rightarrow> py_objects \<Rightarrow> trace \<Rightarrow> bool" where
  "py_inv E M s t \<longleftrightarrow> rdma_env_ok E t \<and> transport_inv M (py_tr s) \<and> live E t = M + transport_held (py_tr s) + bufs_held (py_bufs s)"

lemma bufs_no_qp: "Cm_qp i \<notin># bufs_held bs"
  by (induction bs) (simp_all add: held_no_qp)

lemma bufs_drop_nth: "b < length bs \<Longrightarrow> bufs_held bs = bufs_held (drop_nth b bs) + shared_held (bs ! b)"
  by (subst id_take_nth_drop) (simp_all add: drop_nth_def add_ac)

lemma quiet_functions:
  "only silent (py_send_async E tr m mr len i off)" "only silent (py_recv_async E tr m mr len i off)"
  "only silent (py_write_async E tr m mr ra rk len i off)" "only silent (py_read_async E tr mr ra rk len i off)"
  unfolding py_send_async_def py_recv_async_def py_write_async_def py_read_async_def by (intro only_intros quiet_transport)+

lemma registered_spec:
  assumes "run_state (registered E msg tr addr nbytes) t = (x, u)"
  shows "listeners u = listeners t \<and> live E u = live E t + (case x of Inl e \<Rightarrow> {#} | Inr b \<Rightarrow> shared_held b)"
proof -
  obtain r b w where i: "run_state (shared_buffer_init E shared_buffer_new tr addr nbytes) t = ((r, b), w)" by (metis surj_pair)
  obtain b' w' where d: "run_state (shared_buffer_destroy E b) w = (b', w')" by (metis surj_pair)
  have "r = 0 \<and> live E w = live E t + shared_held b \<or> r \<noteq> 0 \<and> live E w = live E t \<and> shared_held b = {#}"
    using shared_scoped.acquire_spec [of E "(tr, addr, nbytes)" t r b w] i by simp
  with shared_scoped.release_spec [OF d] shared_quiet(1) [OF i] shared_quiet(2) [OF d] i d assms show ?thesis
    by (auto simp: registered_def run_simps split: if_splits)
qed

lemma reg_spec:
  assumes "run_state (py_reg_buf E tr info) t = (x, u) \<or> run_state (py_reg_tensor E tr addr nbytes) t = (x, u)"
  shows "listeners u = listeners t \<and> live E u = live E t + (case x of Inl e \<Rightarrow> {#} | Inr b \<Rightarrow> shared_held b)"
  using assms registered_spec [of E _ tr _ _ t x u]
  by (auto simp: py_reg_buf_def py_reg_tensor_def run_simps split: option.splits prod.splits)

lemma py_inv_new:
  assumes "py_inv E M s t" and "listeners u = listeners t" and "live E u = live E t + (case x of Inl e \<Rightarrow> {#} | Inr b \<Rightarrow> shared_held b)"
  shows "py_inv E M (snd (keep_new s x)) u"
  using assms by (auto simp: py_inv_def keep_new_def rdma_env_ok_def add_ac split: sum.splits)

lemma py_inv_same:
  assumes "py_inv E M s t" and "live E u = live E t \<and> listeners u = listeners t" and "py_tr s' = py_tr s" "py_bufs s' = py_bufs s"
  shows "py_inv E M s' u"
  using assms by (simp add: py_inv_def rdma_env_ok_def)

text \<open>A step of the session of the transport, while the buffers stay.\<close>

lemma py_inv_transport:
  assumes "py_inv E M s t"
    and "\<And>N. rdma_env_ok E t \<Longrightarrow> transport_inv N (py_tr s) \<Longrightarrow> live E t = N + transport_held (py_tr s) \<Longrightarrow>
      rdma_env_ok E u \<and> transport_inv N tr \<and> live E u = N + transport_held tr"
  shows "py_inv E M (s\<lparr>py_tr := tr\<rparr>) u"
proof -
  have n: "transport_inv (M + bufs_held (py_bufs s)) x = transport_inv M x" for x by (rule transport_inv_more) (rule bufs_no_qp)
  from assms(1) have "rdma_env_ok E t" "transport_inv (M + bufs_held (py_bufs s)) (py_tr s)"
      "live E t = M + bufs_held (py_bufs s) + transport_held (py_tr s)" by (simp_all add: py_inv_def n add_ac)
  from assms(2) [OF this] show ?thesis by (simp add: py_inv_def n add_ac)
qed

lemma py_exec_keeps:
  assumes "py_inv E M s t" and "py_may c s" and "run_state (py_exec E c s) t = ((x, s'), u)"
  shows "py_inv E M s' u"
proof (cases c)
  case (Call_op op)
  then obtain r tr where r: "run_state (transport_op E op (py_tr s)) t = ((r, tr), u)" "s' = s\<lparr>py_tr := tr\<rparr>"
    using assms(3) by (auto simp: run_simps split: prod.splits)
  with transports.step_spec [OF _ _ _ _ r(1)] assms(2) Call_op show ?thesis
    using py_inv_transport [OF assms(1), of u tr] by simp
next
  case Call_close
  then obtain tr where r: "run_state (transport_close E (py_tr s)) t = (tr, u)" "s' = s\<lparr>py_tr := tr\<rparr>"
    using assms(3) by (auto simp: run_simps split: prod.splits)
  with transports.close_spec [OF _ _ _ r(1)] show ?thesis using py_inv_transport [OF assms(1), of u tr] by simp
next
  case (Reg_buf info)
  then obtain y where "run_state (py_reg_buf E (py_tr s) info) t = (y, u)" "s' = snd (keep_new s y)"
    using assms(3) by (auto simp: run_simps split: prod.splits)
  with reg_spec py_inv_new [OF assms(1)] show ?thesis by metis
next
  case (Reg_tensor addr nbytes)
  then obtain y where "run_state (py_reg_tensor E (py_tr s) addr nbytes) t = (y, u)" "s' = snd (keep_new s y)"
    using assms(3) by (auto simp: run_simps split: prod.splits)
  with reg_spec py_inv_new [OF assms(1)] show ?thesis by metis
next
  case (Exchange_buf b)
  show ?thesis
  proof (cases "length (py_bufs s) \<le> b")
    case False
    with Exchange_buf assms(3) obtain r tr a k where
      "run_state (transport_exchange_buf E (py_tr s) (Some (sh_h (py_bufs s ! b))) (Some 0) (Some 0)) t = ((r, tr, a, k), u)" "s' = s\<lparr>py_tr := tr\<rparr>"
      by (auto simp: py_exchange_buf_def run_simps split: prod.splits)
    with transport_exchange_frame [of E "py_tr s" _ _ _ t r tr a k u] show ?thesis
      using py_inv_transport [OF assms(1), of u tr] by (simp add: rdma_env_ok_def)
  qed (use Exchange_buf assms in \<open>auto simp: run_simps\<close>)
next
  case (Del b)
  show ?thesis
  proof (cases "length (py_bufs s) \<le> b")
    case False
    with Del assms(3) obtain h where h: "run_state (shared_buffer_destroy E (py_bufs s ! b)) t = (h, u)" "s' = s\<lparr>py_bufs := drop_nth b (py_bufs s)\<rparr>"
      by (auto simp: run_simps split: prod.splits)
    from shared_scoped.release_spec [OF h(1)] shared_quiet(2) [OF h(1)] bufs_drop_nth [of b "py_bufs s"] False h(2) assms(1)
    show ?thesis by (simp add: py_inv_def rdma_env_ok_def)
  qed (use Del assms in \<open>auto simp: run_simps\<close>)
qed (use assms in \<open>auto simp: run_simps split: if_splits prod.splits
      intro: py_inv_same dest!: quietD [OF quiet_functions(1)] quietD [OF quiet_functions(2)] quietD [OF quiet_functions(3)] quietD [OF quiet_functions(4)]\<close>)

lemma py_step_keeps:
  assumes "py_inv E M s t" and "py_may c s" and "py_step E c s t = Some ((x, s'), u)"
  shows "py_inv E M s' u"
proof (cases "c = Py_poll")
  case True
  then have "s' = s" "adds silent t u" using assms(3)
    by (auto simp: py_step_def py_poll_def split: option.splits dest: quiet_transport_poll)
  with adds_silent assms(1) show ?thesis by (simp add: py_inv_def rdma_env_ok_def)
qed (use assms py_exec_keeps in \<open>auto simp: py_step_def\<close>)

lemma py_run_keeps:
  assumes "py_inv E M s t" and "py_ordered E cs s t" and "py_run E cs s t = Some ((xs, s'), u)"
  shows "py_inv E M s' u"
  using assms
proof (induction cs arbitrary: s t xs)
  case (Cons c cs)
  obtain x s1 v ys where v: "py_step E c s t = Some ((x, s1), v)" "py_run E cs s1 v = Some ((ys, s'), u)"
    using Cons.prems(3) by (auto split: option.splits)
  with Cons.prems(2) have "py_may c s" "py_ordered E cs s1 v" by simp_all
  with py_step_keeps [OF Cons.prems(1) _ v(1)] Cons.IH v(2) show ?case by blast
qed simp

lemma py_collect_gives: "gives_back E (bufs_held bs) (py_collect E bs)"
proof (induction bs)
  case (Cons b bs)
  from gives_back_bind [OF gives_back_buffer [of E b] Cons] show ?case by (simp add: add.commute)
qed (auto simp: gives_back_def)

section \<open>Properties\<close>

text \<open>
  C36. A Python program that keeps two rules leaks nothing: whatever it calls and whichever calls raise,
  the collection of its buffers and of its transport at the end leaves held what was held before.
  The rules, which the module does not enforce and which are the hypothesis \<open>py_ordered\<close>: a TCP
  transport is not connected, made to listen or to accept while it has the descriptor that this
  would overwrite; and a transport is closed, connected or made to listen only while no buffer is
  registered on it.
\<close>

theorem py_session_balanced:
  assumes "cm_ok E" "cm_requests_ok E" "listeners t = {}"
    and "py_ordered E cs (py_create b m) t" and "py_run E cs (py_create b m) t = Some ((xs, s), u)"
    and "run_state (py_exit E s) u = (x, w)"
  shows "live E w = live E t"
proof -
  have "py_inv E (live E t) (py_create b m) t" using assms(1-3) create_held by (simp add: py_inv_def py_create_def rdma_env_ok_def)
  then have i: "py_inv E (live E t) s u" by (rule py_run_keeps [OF _ assms(4,5)])
  obtain y v where c: "run_state (py_collect E (py_bufs s)) u = (y, v)" by (metis surj_pair)
  obtain z where z: "run_state (transport_close E (py_tr s)) v = (z, w)" using assms(6) c by (auto simp: py_exit_def run_simps split: prod.splits)
  have "rdma_env_ok E v \<and> live E v = live E t + transport_held (py_tr s)"
    using py_collect_gives [of E "py_bufs s"] c i unfolding gives_back_def py_inv_def by blast
  with transports.close_spec [OF _ _ _ z, of "live E t"] i show ?thesis by (simp add: py_inv_def)
qed

theorem py_session_balanced_witness:
  "\<exists>xs s u. py_run cm_calm [Call_op (Op_connect (Some ''10.0.0.1'') 7000), Reg_tensor 4096 64, Reg_buf None, Exchange_buf 0,
      Write_async 0 8192 7 64 1 0, Py_poll, Send_async 3 64 1 0] (py_create True (\<lambda>_. 0)) [] = Some ((xs, s), u) \<and>
     live cm_calm (snd (run_state (py_exit cm_calm s) u)) = {#}"
proof -
  let ?cs = "[Call_op (Op_connect (Some ''10.0.0.1'') 7000), Reg_tensor 4096 64, Reg_buf None, Exchange_buf 0,
      Write_async 0 8192 7 64 1 0, Py_poll, Send_async 3 64 1 0]"
  have step: "py_step cm_calm c s t \<noteq> None" for c s t
    unfolding py_step_def py_poll_def using calm_transport_poll [of "py_tr s" "Some 0" t] by (cases "c = Py_poll") (auto split: option.split)
  have "py_run cm_calm cs s t \<noteq> None" for cs s t
  proof (induction cs arbitrary: s t)
    case (Cons c cs)
    obtain x s1 v where v: "py_step cm_calm c s t = Some ((x, s1), v)" using step [of c s t] by auto
    with Cons [of s1 v] show ?case by auto
  qed simp
  then obtain xs s u where r: "py_run cm_calm ?cs (py_create True (\<lambda>_. 0)) [] = Some ((xs, s), u)" by (metis not_Some_eq surj_pair)
  have o: "py_ordered cm_calm ?cs (py_create True (\<lambda>_. 0)) []"
    by (simp add: py_create_def create_transport_def transport_may_def split: option.split)
  obtain x w where x: "run_state (py_exit cm_calm s) u = (x, w)" by (metis surj_pair)
  have "listeners [] = {}" by simp
  from py_session_balanced [OF cm_calm_ok cm_calm_requests this o r x] r x show ?thesis by auto
qed

end
