(* ===== verification/Spec2Isabelle.thy ===== *)
theory Spec2Isabelle
  imports Ring_Tcp Ring_Rdma Barrier World Bench_Flow Ping_Pong Kv_Flow Backend_Flow Allreduce_Bench Python_Binding
begin

text \<open>
  A verification of rdma-ai-infra: RDMA communication from the verbs up to a collective and a
  key-value cache.

  \<^bold>\<open>The program.\<close> phase1_verbs wraps libibverbs and librdmacm: memory regions, work requests and
  completions, two ways to connect a queue pair, and an out-of-band TCP channel over which the two
  ends trade addresses and keys. phase2_transport puts a class \<open>Transport\<close> over it, with a TCP and an
  RDMA implementation. phase3_collective builds a ring of processes out of transports and runs an
  all-reduce and a barrier on it; its loops differ by whether a receive blocks (TCP) or only posts
  (RDMA). phase4_kv_cache serves slots of memory: control messages over TCP, data by one-sided reads
  and writes over RDMA. Every phase has benchmarks, and a Python module exposes the transports.

  \<^bold>\<open>How it is modelled.\<close> Everything outside the sources (the kernel, libibverbs, librdmacm, the C
  library) is an environment \<open>env\<close> (theory Env) that answers every call from the history of the calls
  made so far; a function of the program is a state transformer on that history (\<open>State_Monad\<close>) that
  returns its code and the structures it changes. So the theorems hold for every behaviour of the
  outside, with what they need of it (for instance that a completion queue does not stay silent
  forever) as hypotheses, each met by a concrete environment in a witness. \<open>live E t\<close> is the multiset of
  resources held after the history \<open>t\<close>. Whole programs are statements (theory Stmts) on a record of their
  variables, with triples for what holds where they go on or leave. Concurrent runs of several ranks
  or sides are inductive step relations. Machine integers are words where the code computes with
  \<open>uint64_t\<close>, \<open>uint32_t\<close> or \<open>size_t\<close>; an \<open>int\<close> is an \<open>int\<close>. The sums of a benchmark's rounds with the warm-up and
  of its loop counters, which overflow for accepted command lines, are cut to 32 bits (\<open>c_int\<close>), and
  the properties that need them whole say for which numbers. The sums of the ring's schedule and of
  port numbers are not cut: the first fit an \<open>int\<close> up to \<open>2 ^ 30\<close> ranks (\<open>schedule_fits_int\<close>), and of a port
  only the low 16 bits are used. A float is its four bytes, and float addition a parameter.

  \<^bold>\<open>The theories\<close>, with the files under src/ they model:
  \<^item> Prelude, Bytes, Rai_Types, Args, Env: machine types, bytes of structures, the structures of
    rdma_common.h, \<open>atoi\<close>, the outside.
  \<^item> Oob (rdma_oob_connect.c), Verbs_Ops (rdma_mr.c, rdma_ops.c, rdma_qp.c), Verbs_Connect
    (rdma_verbs_connect.c), Cm_Connect (rdma_cm_connect.c).
  \<^item> Transport, Tcp_Transport (tcp_backend.cpp), Rdma_Transport (rdma_backend.cpp), Transport_Class
    (transport.hpp).
  \<^item> Ring_Program (ring_allreduce.cpp, the calls of \<open>world_barrier\<close>), Ring_Values (what it computes),
    Ring_Tcp and Ring_Rdma (all ranks at once, over byte streams and over posted receives), Barrier,
    World (world.cpp).
  \<^item> Kv_Pool and Kv_Server (the pool, the control protocol and the serving loop of kv_server.cpp, the
    client's calls of kv_bench.cpp), Kv_Main (both programs from \<open>main\<close> to \<open>return\<close>), Kv_Flow.
  \<^item> Bench_Config and Bench_Stats (bench_config.h, bench_utils.h, timing.h), Verbs_Bench (lat_rdma_write.c,
    bw_rdma_write.c, lat_send_recv.c), Bench_Flow, Ping_Pong (both sides of lat_rdma_write.c).
  \<^item> Backend_Compare and Backend_Flow (backend_compare.cpp), Allreduce_Bench (allreduce_bench.cpp),
    Python_Binding (transport_py.cpp).
  \<^item> Runs, Scoped, Stmts, Control, Frames, Counts: the interfaces and the program logic that the others
    share.

  \<^bold>\<open>Interfaces.\<close> \<open>terminating_system\<close> (Runs) is a protocol whose every run ends finished; the two paths of the
  all-reduce, the two of the barrier and the ping-pong are its instances. \<open>scoped_resource\<close> (Scoped) is
  what is acquired and given back: memory regions, buffers of the RDMA transport, \<open>ScopedBuffer\<close>.
  \<open>checked_transfer\<close> and \<open>transport_session\<close> (Transport) are a transfer that refuses what lies outside its
  buffer, and a transport that any sequence of connect, listen, accept and close leaves without a leak;
  both transports and the class over them are instances. \<open>slot_allocator\<close> (Kv_Pool) is the contract of the
  slot pool, implemented by the free list of the server.

  \<^bold>\<open>What is shown.\<close>
  \<^item> All-reduce: both paths end on every schedule, with every float of every rank the sum in ring order,
    and agree byte for byte; no call leaves its buffer; with three ranks or more no receive overlaps a
    pending send; the first call that fails ends the collective with an error; for integers within
    the exact range of the floats the result is the sum, and the benchmark's own check passes.
  \<^item> Barrier and process group: the barrier ends, and who has arrived when a rank returns; the group
    connects when its neighbour accepts within 600 tries.
  \<^item> Connections: the out-of-band exchange delivers each side's information whole, for every split of the
    transfers; connecting by hand or through librdmacm leaves exactly what the structure owns, or nothing.
  \<^item> Transports: messages arrive whole, requests below 4 GiB cover exactly their range, addresses and
    keys are exchanged, an RDMA transport that is closed leaves nothing.
  \<^item> Key-value cache: slots are exclusive, the server refines an abstract slot server, allocation and
    handshake agree on both sides, the client's pipeline ends and keeps its window.
  \<^item> Benchmarks and the Python module: everything acquired is released on every return from \<open>main\<close>; the
    one exit that releases nothing is the uncaught exception of allreduce_bench for a negative number
    of rounds. A Python program has to keep two rules the module does not enforce: no TCP descriptor
    is overwritten, and a transport is reconnected or closed only while no buffer is registered on
    it. Windows of outstanding requests are kept, receives are posted before the sends they answer,
    doorbells are in step on both sides, and the reported figures are the differences of the clock
    readings around the timed rounds.

  \<^bold>\<open>Bounds and waiting.\<close> No fuel is used. A loop that may wait forever (\<open>poll_loop\<close>, \<open>spin\<close>, \<open>serve\<close>, \<open>bw_loop\<close>,
  \<open>bench_loop\<close>) is a \<open>partial_function (option)\<close> whose value None is never returning; where a property says
  that a program ends, it says that there is a result. Of the connection manager it is assumed that it
  hands out new identifiers and that the identifier of a connection request has no queue pair yet;
  with the other events it may be the one being connected. The 600 tries of \<open>world_init\<close> are those of the
  source. The loops of \<open>send_all\<close> and \<open>recv_all\<close> terminate because every turn moves at least a byte.

  \<^bold>\<open>Not modelled.\<close> What is printed and logged, and the conversion of times for printing; the allocation of
  vectors, strings and objects behind smart pointers; the addition of floats itself, and what the
  network card does to memory, except in the step relations of Ring_Rdma (where a request moves its
  whole length; the transport's cut to 32 bits changes nothing below 4 GiB, \<open>posted_length_fits\<close>) and
  Ping_Pong, so a read of memory it may have written is a call the outside answers; the bytes of
  \<open>rai_conn_info_t\<close> on the wire are its memory as the platform lays it out, not code of the sources; pybind11 itself, with the interpreter lock
  and the two readonly properties of a buffer; the scripts that start the programs and draw their
  output. In the model of the leaks a resource is identified by its handle and the order of
  releases does not matter.
\<close>

section \<open>The two paths of the all-reduce\<close>

lemma tcp_final:
  assumes "ring_ok I" and "0 < cap" and "(tcp_step I cap)\<^sup>*\<^sup>* (tcp_init I) c" and "\<nexists>x. tcp_step I cap c x"
  shows "tcp_good I cap c \<and> tcp_finished I c"
  by (rule tcp_ring.stuck_finished [OF _ assms(3,4)]) (use assms(1,2) in \<open>simp add: tcp_start_def\<close>)

lemma rdma_final:
  assumes "ring_ok I" and "(rdma_step I)\<^sup>*\<^sup>* (rdma_init I) d" and "\<nexists>x. rdma_step I d x"
  shows "rdma_good I d \<and> rdma_finished I d"
  by (rule rdma_ring.stuck_finished [OF _ assms(2,3)]) (use assms(1) in \<open>simp add: rdma_start_def\<close>)

text \<open>
  C5. The blocking and the posted path compute the same bytes, on every rank: after any complete
  run of either, the buffers of any two ranks are equal, so the all-reduce is deterministic
  although float addition is not associative and the schedules are free.
\<close>

theorem paths_agree:
  assumes "ring_ok I" and "0 < cap" and "(tcp_step I cap)\<^sup>*\<^sup>* (tcp_init I) c" and "\<nexists>x. tcp_step I cap c x"
    and "(rdma_step I)\<^sup>*\<^sup>* (rdma_init I) d" and "\<nexists>x. rdma_step I d x" and "r < ri_N I" and "q < ri_N I"
  shows "buf (t_mem c r) = buf (p_mem d q)"
proof (rule list_eq_by_windows)
  have t: "tcp_good I cap c" "tcp_finished I c" and p: "rdma_good I d" "rdma_finished I d"
    using tcp_final [OF assms(1-4)] rdma_final [OF assms(1,5,6)] by auto
  show "length (buf (t_mem c r)) = ri_N I * ri_L I"
    using tcp_goodD(3) [OF t(1) assms(7)] by (simp add: rank_ok_def mem_ok_def)
  show "length (buf (p_mem d q)) = ri_N I * ri_L I"
    using rdma_goodD(4) [OF p(1) assms(8)] by (simp add: pmem_ok_def)
  fix k assume "k < ri_N I"
  then show "window (k * ri_L I) (ri_L I) (buf (t_mem c r)) = window (k * ri_L I) (ri_L I) (buf (p_mem d q))"
    using tcp_finished_buf [OF t assms(7)] rdma_finished_buf [OF p assms(8)] by (simp add: chunk_of_def)
qed

theorem paths_agree_witness:
  "\<exists>c d. (tcp_step tiny 3)\<^sup>*\<^sup>* (tcp_init tiny) c \<and> (rdma_step tiny)\<^sup>*\<^sup>* (rdma_init tiny) d \<and>
     buf (t_mem c 0) = buf (p_mem d 1)"
proof -
  obtain c where c: "(tcp_step tiny 3)\<^sup>*\<^sup>* (tcp_init tiny) c" "\<nexists>x. tcp_step tiny 3 c x"
    using tcp_ring.reaches_stuck [OF tiny_start] by blast
  obtain d where d: "(rdma_step tiny)\<^sup>*\<^sup>* (rdma_init tiny) d" "\<nexists>x. rdma_step tiny d x"
    using rdma_ring.reaches_stuck [OF tiny_rdma_start] by blast
  have "0 < ri_N tiny" "1 < ri_N tiny" by (simp_all add: tiny_def)
  then have "buf (t_mem c 0) = buf (p_mem d 1)" using paths_agree [OF tiny_ok _ c d, of 0 1] by simp
  with c d show ?thesis by blast
qed

section \<open>The sum\<close>

text \<open>A complete run of either path, and the array it leaves on a rank.\<close>

definition leaves_buf :: "ring_inst \<Rightarrow> nat \<Rightarrow> byte list \<Rightarrow> bool" where
  "leaves_buf I r B \<longleftrightarrow>
     (\<exists>cap c. 0 < cap \<and> (tcp_step I cap)\<^sup>*\<^sup>* (tcp_init I) c \<and> (\<nexists>x. tcp_step I cap c x) \<and> B = buf (t_mem c r)) \<or>
     (\<exists>d. (rdma_step I)\<^sup>*\<^sup>* (rdma_init I) d \<and> (\<nexists>x. rdma_step I d x) \<and> B = buf (p_mem d r))"

lemma leaves_buf_chunks:
  assumes "ring_ok I" and "leaves_buf I r B" and "r < ri_N I" and "k < ri_N I"
  shows "chunk_of I k B = psum I k (ri_N I - 1)"
  using assms(2) tcp_final [OF assms(1)] rdma_final [OF assms(1)] tcp_finished_buf [OF _ _ assms(3,4)] rdma_finished_buf [OF _ _ assms(3,4)]
  unfolding leaves_buf_def by metis

lemma leaves_buf_float:
  assumes "ring_ok I" and "leaves_buf I r B" and "r < ri_N I" and "i < ri_N I * ri_n I"
  shows "get_float B i = ring_fold (ri_fadd I) (ri_N I) (i div ri_n I) (\<lambda>q. get_float (buf (ri_init I q)) i) (ri_N I - 1)"
    and "i div ri_n I < ri_N I"
proof -
  let ?k = "i div ri_n I" and ?j = "i mod ri_n I"
  have j: "?j < ri_n I" using assms(4) by (cases "ri_n I = 0") simp_all
  show k: "?k < ri_N I" using assms(4) by (simp add: less_mult_imp_div_less)
  have "get_float B (?k * ri_n I + ?j) =
      ring_fold (ri_fadd I) (ri_N I) ?k (\<lambda>q. get_float (buf (ri_init I q)) (?k * ri_n I + ?j)) (ri_N I - 1)"
    using leaves_buf_chunks [OF assms(1-3) k] get_float_chunk [OF j] get_float_psum [OF assms(1) j k] by metis
  then show "get_float B i = ring_fold (ri_fadd I) (ri_N I) ?k (\<lambda>q. get_float (buf (ri_init I q)) i) (ri_N I - 1)" by simp
qed

text \<open>
  \<open>rep x a\<close>: the four bytes \<open>x\<close> stand for the integer \<open>a\<close>. As long as the absolute values of all summands
  together stay within the limit up to which integers are exact, so do all partial sums.
\<close>

lemma ring_fold_rep:
  assumes exact: "\<And>x y a b. rep x a \<Longrightarrow> rep y b \<Longrightarrow> \<bar>a + b\<bar> \<le> limit \<Longrightarrow> rep (f x y) (a + b :: int)"
    and x: "\<And>q. q < N \<Longrightarrow> rep (x q) (a q)" and bound: "(\<Sum>q < N. \<bar>a q\<bar>) \<le> limit" and c: "c < N" and d: "d < N"
  shows "rep (ring_fold f N c x d) (\<Sum>k \<le> d. a ((c + k) mod N))"
  using d
proof (induction d)
  case 0
  with x [OF c] c show ?case by simp
next
  case (Suc d)
  let ?g = "\<lambda>k. a ((c + k) mod N)"
  have "\<bar>\<Sum>k \<le> Suc d. ?g k\<bar> \<le> (\<Sum>k \<le> Suc d. \<bar>?g k\<bar>)" by (rule sum_abs)
  also have "\<dots> \<le> (\<Sum>k \<le> N - 1. \<bar>?g k\<bar>)" by (rule sum_mono2) (use Suc.prems in auto)
  also have "\<dots> = (\<Sum>q < N. \<bar>a q\<bar>)" by (rule sum_ranks_rotate [OF c, of "\<lambda>q. \<bar>a q\<bar>"])
  finally have "\<bar>?g (Suc d) + (\<Sum>k \<le> d. ?g k)\<bar> \<le> limit" using bound by (simp add: add.commute)
  with exact [OF x [of "(c + Suc d) mod N"] Suc.IH] Suc.prems show ?case by (simp add: add.commute)
qed

text \<open>
  C6. The result is the sum: after a complete run of either path, whatever the schedule and the order
  of the ring, a float on any rank stands for the sum over all ranks of that float, provided that
  the floats stand for integers whose absolute values together stay within the limit up to which
  the float addition adds integers exactly (\<open>2 ^ 24\<close> for IEEE single precision).
\<close>

theorem allreduce_is_sum:
  assumes "ring_ok I" and "leaves_buf I r B" and "r < ri_N I" and "i < ri_N I * ri_n I"
    and "\<And>x y a b. rep x a \<Longrightarrow> rep y b \<Longrightarrow> \<bar>a + b\<bar> \<le> limit \<Longrightarrow> rep (ri_fadd I x y) (a + b :: int)"
    and "\<And>q. q < ri_N I \<Longrightarrow> rep (get_float (buf (ri_init I q)) i) (a q)" and "(\<Sum>q < ri_N I. \<bar>a q\<bar>) \<le> limit"
  shows "rep (get_float B i) (\<Sum>q < ri_N I. a q)"
proof -
  note f = leaves_buf_float [OF assms(1-4)]
  have "rep (get_float B i) (\<Sum>k \<le> ri_N I - 1. a ((i div ri_n I + k) mod ri_N I))"
    unfolding f(1) by (rule ring_fold_rep [where rep = rep and limit = limit]) (use assms(3,5-7) f(2) in simp_all)
  then show ?thesis unfolding sum_ranks_rotate [OF f(2)] .
qed

text \<open>Arithmetic on four bytes that is exact on small integers, with carries; rank 0 holds 200 and rank 1 holds \<open>-456\<close>.\<close>

definition word_add :: "byte list \<Rightarrow> byte list \<Rightarrow> byte list" where
  "word_add x y = u32_bytes (u32_val x + u32_val y)"

definition carries :: ring_inst where
  "carries = \<lparr>ri_N = 2, ri_chunk = 1, ri_fadd = word_add,
     ri_init = (\<lambda>r. let x = u32_bytes (word_of_int (if r = 0 then 200 else -456)) in \<lparr>buf = x @ x, stage = replicate 8 0\<rparr>)\<rparr>"

lemma carries_ok: "ring_ok carries"
  by (simp add: ring_ok_def carries_def ri_L_def sizeof_float_def word_add_def Let_def)

theorem allreduce_is_sum_witness:
  "\<exists>B. leaves_buf carries 1 B \<and> get_float B 1 = u32_bytes (word_of_int (-256))"
proof -
  let ?rep = "\<lambda>x a. x = u32_bytes (word_of_int a) \<and> \<bar>a\<bar> \<le> 2 ^ 24" and ?a = "\<lambda>q. if q = 0 then 200 else -456 :: int"
  have "rdma_start carries (rdma_init carries)" by (simp add: rdma_start_def carries_ok)
  from rdma_ring.reaches_stuck [OF this] obtain d where
    "(rdma_step carries)\<^sup>*\<^sup>* (rdma_init carries) d" "\<nexists>x. rdma_step carries d x" by blast
  then have B: "leaves_buf carries 1 (buf (p_mem d 1))" by (auto simp: leaves_buf_def)
  have n: "ri_N carries = 2" "ri_n carries = 1" "ri_fadd carries = word_add" by (simp_all add: carries_def)
  have x: "get_float (buf (ri_init carries q)) (Suc 0) = u32_bytes (word_of_int (?a q))" for q
    by (simp add: carries_def get_float_def window_def sizeof_float_def Let_def)
  have "?rep (get_float (buf (p_mem d 1)) 1) (\<Sum>q < ri_N carries. ?a q)"
    by (rule allreduce_is_sum [where rep = ?rep and limit = "2 ^ 24", OF carries_ok B])
      (simp_all add: n x word_add_def numeral_2_eq_2)
  moreover have "(\<Sum>q < ri_N carries. ?a q) = -256" by (simp add: n numeral_2_eq_2)
  ultimately show ?thesis using B by auto
qed

section \<open>The check of the benchmark\<close>

text \<open>The sum of the ranks' numbers on the way round the ring, and all the way.\<close>

definition ranks_sum :: "nat \<Rightarrow> nat \<Rightarrow> nat \<Rightarrow> int" where
  "ranks_sum N c d = (\<Sum>k \<le> d. int ((c + k) mod N) + 1)"

lemma ranks_sum_all: "c < N \<Longrightarrow> ranks_sum N c (N - 1) = int N * (int N + 1) div 2"
proof -
  assume "c < N"
  from sum_ranks_rotate [OF this, of "\<lambda>q. int q + 1"] have s: "ranks_sum N c (N - 1) = (\<Sum>q < N. int q + 1)" by (simp add: ranks_sum_def)
  have "2 * (\<Sum>q < n. int q + 1) = int n * (int n + 1)" for n by (induction n) (simp_all add: algebra_simps)
  from this [of N] s show ?thesis by simp
qed

lemma ranks_sum_mono: "d \<le> e \<Longrightarrow> ranks_sum N c d \<le> ranks_sum N c e"
  unfolding ranks_sum_def by (rule sum_mono2) auto

lemma ranks_sum_pos: "0 < ranks_sum N c d"
  using ranks_sum_mono [of 0 d N c] by (simp add: ranks_sum_def)

lemma ring_fold_ranks:
  assumes exact: "\<And>a b. 0 < a \<Longrightarrow> 0 < b \<Longrightarrow> a + b \<le> int N * (int N + 1) div 2 \<Longrightarrow> f (flt a) (flt b) = flt (a + b)"
    and x: "\<And>q. q < N \<Longrightarrow> x q = flt (int q + 1)" and c: "c < N" and d: "d < N"
  shows "ring_fold f N c x d = flt (ranks_sum N c d)"
  using d
proof (induction d)
  case 0
  with x [OF c] c show ?case by (simp add: ranks_sum_def)
next
  case (Suc d)
  let ?a = "int ((c + Suc d) mod N) + 1"
  have s: "ranks_sum N c (Suc d) = ?a + ranks_sum N c d" by (simp add: ranks_sum_def)
  have "?a + ranks_sum N c d \<le> int N * (int N + 1) div 2"
    using ranks_sum_mono [of "Suc d" "N - 1" N c] ranks_sum_all [OF c] Suc.prems s by simp
  with exact [of ?a "ranks_sum N c d"] ranks_sum_pos have "f (flt ?a) (flt (ranks_sum N c d)) = flt (?a + ranks_sum N c d)" by simp
  with Suc x [of "(c + Suc d) mod N"] s show ?case by simp
qed

lemma reduced_ranks:
  assumes "ring_ok I" and "leaves_buf I r B" and "r < ri_N I" and "i < ri_N I * ri_n I"
    and "\<And>q i. q < ri_N I \<Longrightarrow> i < ri_N I * ri_n I \<Longrightarrow> get_float (buf (ri_init I q)) i = flt (int q + 1)"
    and "\<And>a b. 0 < a \<Longrightarrow> 0 < b \<Longrightarrow> a + b \<le> int (ri_N I) * (int (ri_N I) + 1) div 2 \<Longrightarrow> ri_fadd I (flt a) (flt b) = flt (a + b)"
  shows "get_float B i = flt (int (ri_N I) * (int (ri_N I) + 1) div 2)"
proof -
  note f = leaves_buf_float [OF assms(1-4)]
  have "ring_fold (ri_fadd I) (ri_N I) (i div ri_n I) (\<lambda>q. get_float (buf (ri_init I q)) i) (ri_N I - 1) =
      flt (ranks_sum (ri_N I) (i div ri_n I) (ri_N I - 1))"
    by (rule ring_fold_ranks [where flt = flt]) (use f(2) assms(3-6) in auto)
  then show ?thesis unfolding f(1) ranks_sum_all [OF f(2)] .
qed

text \<open>
  C7. The benchmark's check of the result passes: where every rank \<open>q\<close> fills its array with \<open>q + 1\<close>, the
  integers up to \<open>N(N + 1)/2\<close> are exact floats, and a rank reads back the array that a complete run of
  either path left on it, the check goes through all floats and returns 0. So a failing check
  means that the transports, the memory or the arithmetic failed, not the schedule.
\<close>

theorem bench_check_passes:
  assumes "ring_ok I" and "leaves_buf I r B" and "r < ri_N I"
    and "ac_world cfg = int (ri_N I)" and "ac_count cfg = int (ri_N I * ri_n I)" and "ri_fadd I = fl_add F"
    and "\<And>q i. q < ri_N I \<Longrightarrow> i < ri_N I * ri_n I \<Longrightarrow> get_float (buf (ri_init I q)) i = fl_of_int F (int q + 1)"
    and "\<And>a b. 0 < a \<Longrightarrow> 0 < b \<Longrightarrow> a + b \<le> ac_world cfg * (ac_world cfg + 1) div 2 \<Longrightarrow>
      fl_add F (fl_of_int F a) (fl_of_int F b) = fl_of_int F (a + b)"
    and "\<And>a. 0 \<le> a \<Longrightarrow> 2 * a \<le> ac_world cfg * (ac_world cfg + 1) \<Longrightarrow> fl_half F (2 * a) = fl_of_int F a"
    and "\<And>x. \<not> fl_far F x x"
    and "\<And>i t. i < ri_N I * ri_n I \<Longrightarrow> fst (run_state (a_get E w v (float_at v Buf i)) t) = get_float B i"
  shows "\<exists>u. a_check E F w cfg v t = Some ((0, v), u)"
proof (rule a_check_passes)
  fix i t assume "i < nat (ac_count cfg)"
  then have i: "i < ri_N I * ri_n I" using assms(5) by linarith
  let ?T = "int (ri_N I) * (int (ri_N I) + 1) div 2"
  have T: "2 * ?T = int (ri_N I) * (int (ri_N I) + 1)" by simp
  have "get_float B i = fl_of_int F ?T"
    by (rule reduced_ranks [OF assms(1-3) i]) (use assms(4,6-8) in simp_all)
  moreover have "ar_expect F cfg = fl_of_int F ?T"
    using assms(9) [of ?T] assms(4) T by (simp add: ar_expect_def mult.commute add.commute)
  ultimately show "\<not> fl_far F (fst (run_state (a_get E w v (float_at v Buf i)) t)) (ar_expect F cfg)"
    using assms(10) assms(11) [OF i] by simp
qed

definition tiny_floats :: floats where
  "tiny_floats = \<lparr>fl_of_int = (\<lambda>n. replicate 4 (word_of_int n)), fl_half = (\<lambda>n. replicate 4 (word_of_int (n div 2))),
     fl_add = tiny_add, fl_far = (\<lambda>x y. x \<noteq> y)\<rparr>"

lemma tiny_exact: "tiny_add (replicate 4 (word_of_int a)) (replicate 4 (word_of_int b)) = replicate 4 (word_of_int (a + b))"
  by (simp add: tiny_add_def list_eq_iff_nth_eq)

lemma tiny_filled: "q < 2 \<Longrightarrow> i < 2 \<Longrightarrow> get_float (buf (ri_init tiny q)) i = replicate 4 (word_of_int (int q + 1))"
  by (auto simp: tiny_def get_float_def window_def sizeof_float_def add.commute)

theorem bench_check_passes_witness:
  "\<exists>B u. leaves_buf tiny 1 B \<and>
     a_check calm tiny_floats lone (ar_config_init\<lparr>ac_world := 2, ac_count := 2\<rparr>)
       ((ar_vars_init (\<lambda>_. 3))\<lparr>av_block := (\<lambda>_. Some 4096)\<rparr>) [] =
     Some ((0, (ar_vars_init (\<lambda>_. 3))\<lparr>av_block := (\<lambda>_. Some 4096)\<rparr>), u)"
proof -
  let ?v = "(ar_vars_init (\<lambda>_. 3))\<lparr>av_block := (\<lambda>_. Some 4096)\<rparr>" and ?cfg = "ar_config_init\<lparr>ac_world := 2, ac_count := 2\<rparr>"
  obtain d where d: "(rdma_step tiny)\<^sup>*\<^sup>* (rdma_init tiny) d" "\<nexists>x. rdma_step tiny d x"
    using rdma_ring.reaches_stuck [OF tiny_rdma_start] by blast
  then have B: "leaves_buf tiny 1 (buf (p_mem d 1))" by (auto simp: leaves_buf_def)
  have n: "ri_N tiny = 2" "ri_n tiny = 1" by (simp_all add: tiny_def)
  have f: "get_float (buf (p_mem d (Suc 0))) i = map (\<lambda>i. 3) [0..<4]" if "i < 2" for i
    using reduced_ranks [OF tiny_ok B, of i "\<lambda>a. replicate 4 (word_of_int a)"] that n tiny_filled tiny_exact
    by (simp add: tiny_def map_replicate_const)
  have "\<exists>u. a_check calm tiny_floats lone ?cfg ?v [] = Some ((0, ?v), u)"
    by (rule bench_check_passes [OF tiny_ok B])
      (auto simp: n f tiny_floats_def tiny_exact tiny_filled a_get_def lone_def recv_blocks_def run_simps ar_vars_init_def read_mem_def,
        simp_all add: tiny_def)
  with B show ?thesis by blast
qed

end
